(* ===== verification/PyStr.thy ===== *)
theory PyStr
  imports Prelude
begin

text \<open>
  Python's \<open>str\<close> methods, on strings whose characters are code points 0 to 255 (a HOL
  \<^typ>\<open>string\<close>). Within that range the methods are exact: which characters are white space,
  alphanumeric, digits or printable, and what lower-casing does to each. A code point above 255 is
  outside the model.
\<close>

abbreviation code :: "char \<Rightarrow> nat" where
  "code c \<equiv> of_char c"

section \<open>Character classes\<close>

definition py_space :: "char \<Rightarrow> bool" where
  "py_space c \<longleftrightarrow> (9 \<le> code c \<and> code c \<le> 13) \<or> (28 \<le> code c \<and> code c \<le> 32)
     \<or> code c = 133 \<or> code c = 160"

definition ascii_digit :: "char \<Rightarrow> bool" where
  "ascii_digit c \<longleftrightarrow> 48 \<le> code c \<and> code c \<le> 57"

definition ascii_lower :: "char \<Rightarrow> bool" where
  "ascii_lower c \<longleftrightarrow> 97 \<le> code c \<and> code c \<le> 122"

definition ascii_upper :: "char \<Rightarrow> bool" where
  "ascii_upper c \<longleftrightarrow> 65 \<le> code c \<and> code c \<le> 90"

definition hex_lower :: "char \<Rightarrow> bool" where
  "hex_lower c \<longleftrightarrow> ascii_digit c \<or> (97 \<le> code c \<and> code c \<le> 102)"

definition hex_any :: "char \<Rightarrow> bool" where
  "hex_any c \<longleftrightarrow> hex_lower c \<or> (65 \<le> code c \<and> code c \<le> 70)"

text \<open>\<open>str.isdigit\<close> also holds of the superscripts two, three and one, which \<open>int\<close> refuses.\<close>

definition char_isdigit :: "char \<Rightarrow> bool" where
  "char_isdigit c \<longleftrightarrow> ascii_digit c \<or> code c = 178 \<or> code c = 179 \<or> code c = 185"

definition char_isalnum :: "char \<Rightarrow> bool" where
  "char_isalnum c \<longleftrightarrow> char_isdigit c \<or> ascii_lower c \<or> ascii_upper c
     \<or> code c = 170 \<or> code c = 181 \<or> code c = 186
     \<or> (188 \<le> code c \<and> code c \<le> 190)
     \<or> (192 \<le> code c \<and> code c \<noteq> 215 \<and> code c \<noteq> 247)"

definition char_isprintable :: "char \<Rightarrow> bool" where
  "char_isprintable c \<longleftrightarrow> (32 \<le> code c \<and> code c \<le> 126) \<or> (161 \<le> code c \<and> code c \<noteq> 173)"

definition char_lower :: "char \<Rightarrow> char" where
  "char_lower c = (if ascii_upper c \<or> (192 \<le> code c \<and> code c \<le> 222 \<and> code c \<noteq> 215)
     then char_of (code c + 32) else c)"

section \<open>Methods\<close>

definition py_isdigit :: "string \<Rightarrow> bool" where
  "py_isdigit s \<longleftrightarrow> s \<noteq> [] \<and> list_all char_isdigit s"

definition py_isalnum :: "string \<Rightarrow> bool" where
  "py_isalnum s \<longleftrightarrow> s \<noteq> [] \<and> list_all char_isalnum s"

definition py_lower :: "string \<Rightarrow> string" where
  "py_lower = map char_lower"

definition lstrip :: "string \<Rightarrow> string" where
  "lstrip = dropWhile py_space"

definition rstrip :: "string \<Rightarrow> string" where
  "rstrip s = rev (dropWhile py_space (rev s))"

definition strip :: "string \<Rightarrow> string" where
  "strip s = rstrip (lstrip s)"

definition startswith :: "string \<Rightarrow> string \<Rightarrow> bool" where
  "startswith s p \<longleftrightarrow> take (length p) s = p"

text \<open>\<open>s.split(c)\<close> on a one-character separator, and \<open>sep.join\<close>.\<close>

fun split_on :: "char \<Rightarrow> string \<Rightarrow> string list" where
  "split_on c [] = [[]]"
| "split_on c (x # xs) =
     (if x = c then [] # split_on c xs
      else (case split_on c xs of [] \<Rightarrow> [[x]] | y # ys \<Rightarrow> (x # y) # ys))"

fun join_with :: "string \<Rightarrow> string list \<Rightarrow> string" where
  "join_with sep [] = []"
| "join_with sep [x] = x"
| "join_with sep (x # y # ys) = x @ sep @ join_with sep (y # ys)"

text \<open>Two shapes of regular expression the code compiles: \<open>fullmatch\<close> of a class with a length
  range, and \<open>match\<close> of the same class anchored with \<open>$\<close>, which also accepts one line feed
  after the last character of the class.\<close>

definition fullmatch_class :: "(char \<Rightarrow> bool) \<Rightarrow> nat \<Rightarrow> nat \<Rightarrow> string \<Rightarrow> bool" where
  "fullmatch_class p lo hi s \<longleftrightarrow> lo \<le> length s \<and> length s \<le> hi \<and> list_all p s"

definition match_dollar_class :: "(char \<Rightarrow> bool) \<Rightarrow> nat \<Rightarrow> nat \<Rightarrow> string \<Rightarrow> bool" where
  "match_dollar_class p lo hi s \<longleftrightarrow> fullmatch_class p lo hi s
     \<or> (s \<noteq> [] \<and> last s = char_of (10 :: nat) \<and> fullmatch_class p lo hi (butlast s))"

section \<open>Decimal numerals\<close>

definition digit_char :: "nat \<Rightarrow> char" where
  "digit_char d = char_of (48 + d)"

definition digit_val :: "char \<Rightarrow> nat" where
  "digit_val c = code c - 48"

fun str_nat :: "nat \<Rightarrow> string" where
  "str_nat n = (if n < 10 then [digit_char n] else str_nat (n div 10) @ [digit_char (n mod 10)])"

declare str_nat.simps [simp del]

definition str_int :: "int \<Rightarrow> string" where
  "str_int i = (if i < 0 then CHR ''-'' # str_nat (nat (- i)) else str_nat (nat i))"

definition nat_of_digits :: "string \<Rightarrow> nat" where
  "nat_of_digits = foldl (\<lambda>a c. 10 * a + digit_val c) 0"

section \<open>Lemmas\<close>

lemma code_less: "code c < 256"
  by simp

lemma char_of_code [simp]: "char_of (code c) = c"
  by simp

lemma code_digit_char: "d < 10 \<Longrightarrow> code (digit_char d) = 48 + d"
  by (simp add: digit_char_def)

lemma digit_val_char [simp]: "d < 10 \<Longrightarrow> digit_val (digit_char d) = d"
  by (simp add: digit_val_def code_digit_char)

lemma ascii_digit_char [simp]: "d < 10 \<Longrightarrow> ascii_digit (digit_char d)"
  by (simp add: ascii_digit_def code_digit_char)

lemma str_nat_not_Nil [simp]: "str_nat n \<noteq> []"
  by (subst str_nat.simps) simp

lemma str_nat_digits: "list_all ascii_digit (str_nat n)"
  by (induction n rule: str_nat.induct) (subst str_nat.simps, auto)

lemma nat_of_digits_snoc: "nat_of_digits (s @ [c]) = 10 * nat_of_digits s + digit_val c"
  by (simp add: nat_of_digits_def)

lemma nat_of_digits_str_nat [simp]: "nat_of_digits (str_nat n) = n"
proof (induction n rule: str_nat.induct)
  case (1 n)
  show ?case
  proof (cases "n < 10")
    case True
    then show ?thesis by (subst str_nat.simps) (simp add: nat_of_digits_def)
  next
    case False
    then have "nat_of_digits (str_nat n) = 10 * (n div 10) + n mod 10"
      using 1 by (subst str_nat.simps) (simp add: nat_of_digits_snoc)
    then show ?thesis by simp
  qed
qed

lemma length_str_nat_le: "n < 10 ^ k \<Longrightarrow> 0 < k \<Longrightarrow> length (str_nat n) \<le> k"
proof (induction k arbitrary: n)
  case (Suc k)
  show ?case
  proof (cases "n < 10")
    case True
    then show ?thesis by (subst str_nat.simps) simp
  next
    case False
    then have "n div 10 < 10 ^ k" "0 < k" using Suc.prems(1) by (auto simp: less_mult_imp_div_less mult.commute intro: gr0I)
    then have "length (str_nat (n div 10)) \<le> k" by (rule Suc.IH)
    then show ?thesis using False by (subst str_nat.simps) simp
  qed
qed simp

lemma str_nat_inj: "str_nat m = str_nat n \<longleftrightarrow> m = n"
  by (metis nat_of_digits_str_nat)

lemma str_nat_hd_not_minus: "hd (str_nat n) \<noteq> CHR ''-''"
proof -
  have "ascii_digit (hd (str_nat n))"
    using str_nat_digits[of n] by (cases "str_nat n") auto
  then show ?thesis by (auto simp: ascii_digit_def)
qed

lemma str_int_inj: "str_int i = str_int j \<longleftrightarrow> i = j"
proof
  assume eq: "str_int i = str_int j"
  show "i = j"
  proof (cases "i < 0"; cases "j < 0")
    assume "i < 0" "\<not> j < 0"
    then show ?thesis using eq str_nat_hd_not_minus[of "nat j"]
      by (metis list.sel(1) str_int_def)
  next
    assume "\<not> i < 0" "j < 0"
    then show ?thesis using eq str_nat_hd_not_minus[of "nat i"]
      by (metis list.sel(1) str_int_def)
  qed (use eq in \<open>auto simp: str_int_def str_nat_inj\<close>)
qed simp

lemma lstrip_no_lead: "lstrip s = [] \<or> \<not> py_space (hd (lstrip s))"
  unfolding lstrip_def using hd_dropWhile by blast

lemma strip_Nil [simp]: "strip [] = []"
  by (simp add: strip_def rstrip_def lstrip_def)

lemma set_strip: "set (strip s) \<subseteq> set s"
  by (auto simp: strip_def rstrip_def lstrip_def dest!: set_dropWhileD)

lemma strip_id:
  assumes "list_all (\<lambda>c. \<not> py_space c) s"
  shows "strip s = s"
proof -
  have d: "dropWhile py_space t = t" if "list_all (\<lambda>c. \<not> py_space c) t" for t
    using that by (cases t) auto
  have "list_all (\<lambda>c. \<not> py_space c) (rev s)" using assms by (simp add: list_all_iff)
  with assms show ?thesis by (simp add: strip_def rstrip_def lstrip_def d)
qed

lemma hd_rstrip: "rstrip s \<noteq> [] \<Longrightarrow> hd (rstrip s) = hd s"
proof -
  assume ne: "rstrip s \<noteq> []"
  have "rev s = takeWhile py_space (rev s) @ dropWhile py_space (rev s)" by simp
  then have "s = rstrip s @ rev (takeWhile py_space (rev s))"
    unfolding rstrip_def by (metis rev_append rev_rev_ident)
  then show ?thesis using ne by (metis hd_append2)
qed

lemma lstrip_idem: "s = [] \<or> \<not> py_space (hd s) \<Longrightarrow> lstrip s = s"
  by (cases s) (auto simp: lstrip_def)

lemma rstrip_idem: "rstrip (rstrip s) = rstrip s"
  by (simp add: rstrip_def)

lemma strip_strip [simp]: "strip (strip s) = strip s"
proof -
  have "rstrip (lstrip s) = [] \<or> \<not> py_space (hd (rstrip (lstrip s)))"
    using hd_rstrip[of "lstrip s"] lstrip_no_lead[of s]
    by (metis dropWhile.simps(1) rev.simps(1) rstrip_def)
  then have "lstrip (rstrip (lstrip s)) = rstrip (lstrip s)" by (rule lstrip_idem)
  then show ?thesis by (simp add: strip_def rstrip_idem)
qed

lemma length_py_lower [simp]: "length (py_lower s) = length s"
  by (simp add: py_lower_def)

lemma split_on_not_Nil [simp]: "split_on c s \<noteq> []"
  by (induction s) (auto split: list.splits)

lemma split_on_no_sep: "c \<notin> set s \<Longrightarrow> split_on c s = [s]"
  by (induction s) auto

lemma split_on_append:
  "c \<notin> set s \<Longrightarrow> split_on c (s @ c # t) = s # split_on c t"
  by (induction s) auto

lemma hex_lower_not_space: "hex_lower c \<Longrightarrow> \<not> py_space c"
  by (auto simp: hex_lower_def ascii_digit_def py_space_def)

lemma hex_lower_hex_any: "hex_lower c \<Longrightarrow> hex_any c"
  by (simp add: hex_any_def)

lemma fullmatch_match: "fullmatch_class p lo hi s \<Longrightarrow> match_dollar_class p lo hi s"
  by (simp add: match_dollar_class_def)

lemma match_dollar_strip:
  assumes "match_dollar_class p lo hi (strip s)" and "\<And>c. p c \<Longrightarrow> \<not> py_space c"
  shows "fullmatch_class p lo hi (strip s)"
proof (rule ccontr)
  assume "\<not> ?thesis"
  with assms(1) have ne: "strip s \<noteq> []" and l: "last (strip s) = char_of (10 :: nat)"
    by (auto simp: match_dollar_class_def)
  have "\<not> py_space (last (strip s))"
    using ne hd_dropWhile[of py_space "rev (lstrip s)"]
    by (simp add: strip_def rstrip_def last_rev)
  then show False by (simp add: l py_space_def)
qed

lemma code_char_lower_10: "char_lower c = char_of (10 :: nat) \<longleftrightarrow> c = char_of (10 :: nat)"
proof -
  have "code (char_lower c) = 10 \<longleftrightarrow> code c = 10"
    by (auto simp: char_lower_def ascii_upper_def)
  moreover have "d = char_of (10 :: nat) \<longleftrightarrow> code d = code (char_of (10 :: nat))" for d
    by (simp only: of_char_eq_iff)
  ultimately show ?thesis by simp
qed

lemma last_strip: "strip s \<noteq> [] \<Longrightarrow> \<not> py_space (last (strip s))"
  using hd_dropWhile[of py_space "rev (lstrip s)"] by (simp add: strip_def rstrip_def last_rev)

lemma last_lower_strip:
  assumes "strip s \<noteq> []"
  shows "last (py_lower (strip s)) \<noteq> char_of (10 :: nat)"
proof -
  have "last (strip s) \<noteq> char_of (10 :: nat)" using last_strip[OF assms] by (auto simp: py_space_def)
  then show ?thesis using assms by (simp add: py_lower_def last_map code_char_lower_10)
qed

text \<open>The anchor \<open>$\<close> is exact on a stripped text.\<close>

lemma match_dollar_lower_strip:
  assumes "match_dollar_class p lo hi (drop n (py_lower (strip s)))"
  shows "fullmatch_class p lo hi (drop n (py_lower (strip s)))"
proof (rule ccontr)
  let ?d = "drop n (py_lower (strip s))"
  assume "\<not> ?thesis"
  with assms have ne: "?d \<noteq> []" and l: "last ?d = char_of (10 :: nat)" by (auto simp: match_dollar_class_def)
  then have "strip s \<noteq> []" by (auto simp: py_lower_def)
  moreover have "last (py_lower (strip s)) = char_of (10 :: nat)" using l ne by (simp add: last_drop)
  ultimately show False using last_lower_strip by blast
qed

section \<open>The minute of a clock reading\<close>

text \<open>\<open>time.strftime("%Y-%m-%d %H:%MZ", time.gmtime(t))\<close>.\<close>

text \<open>The Gregorian date of a day number, days counted from 1970-01-01, years from March.\<close>

definition civil_of_days :: "int \<Rightarrow> int \<times> int \<times> int" where
  "civil_of_days days =
     (let z = days + 719468; era = z div 146097; doe = z mod 146097;
          yoe = (doe - doe div 1460 + doe div 36524 - doe div 146096) div 365;
          doy = doe - (365 * yoe + yoe div 4 - yoe div 100);
          mp = (5 * doy + 2) div 153; d = doy - (153 * mp + 2) div 5 + 1;
          m = (if mp < 10 then mp + 3 else mp - 9);
          y = yoe + era * 400 + (if m \<le> 2 then 1 else 0)
      in (y, m, d))"

definition two_digits :: "int \<Rightarrow> string" where
  "two_digits n = (if n < 10 then ''0'' @ str_int n else str_int n)"

definition utc_minute :: "int \<Rightarrow> string" where
  "utc_minute unix =
     (let (y, m, d) = civil_of_days (unix div 86400); s = unix mod 86400
      in str_int y @ ''-'' @ two_digits m @ ''-'' @ two_digits d @ '' ''
         @ two_digits (s div 3600) @ '':'' @ two_digits (s mod 3600 div 60) @ ''Z'')"

end
