(* ===== verification/Values.thy ===== *)
theory Values
  imports PyStr
begin

text \<open>
  Dynamically typed values: what \<open>json.loads\<close> can return and what a caller can pass to a function
  that checks its arguments with \<open>isinstance\<close>. A float is carried as the text \<open>repr\<close> gives it,
  since the program never computes with one that reaches these checks. \<open>bool\<close> is a subclass of
  \<open>int\<close> in Python, and the comparisons below keep that.
\<close>

datatype pyval =
    PNone
  | PBool bool
  | PInt int
  | PFloat string
  | PStr string
  | PList "pyval list"
  | PDict "(string \<times> pyval) list"

fun is_bool :: "pyval \<Rightarrow> bool" where
  "is_bool (PBool b) = True"
| "is_bool _ = False"

text \<open>\<open>isinstance(v, int)\<close>: a bool is one.\<close>

fun is_int :: "pyval \<Rightarrow> bool" where
  "is_int (PInt i) = True"
| "is_int (PBool b) = True"
| "is_int _ = False"

fun is_str :: "pyval \<Rightarrow> bool" where
  "is_str (PStr s) = True"
| "is_str _ = False"

fun is_list :: "pyval \<Rightarrow> bool" where
  "is_list (PList vs) = True"
| "is_list _ = False"

fun is_dict :: "pyval \<Rightarrow> bool" where
  "is_dict (PDict d) = True"
| "is_dict _ = False"

fun the_int :: "pyval \<Rightarrow> int" where
  "the_int (PInt i) = i"
| "the_int (PBool b) = of_bool b"
| "the_int _ = 0"

fun the_str :: "pyval \<Rightarrow> string" where
  "the_str (PStr s) = s"
| "the_str _ = []"

fun the_list :: "pyval \<Rightarrow> pyval list" where
  "the_list (PList vs) = vs"
| "the_list _ = []"

fun the_dict :: "pyval \<Rightarrow> (string, pyval) dict" where
  "the_dict (PDict d) = d"
| "the_dict _ = []"

text \<open>\<open>bool(v)\<close>.\<close>

fun truthy :: "pyval \<Rightarrow> bool" where
  "truthy PNone = False"
| "truthy (PBool b) = b"
| "truthy (PInt i) = (i \<noteq> 0)"
| "truthy (PFloat t) = (t \<noteq> ''0.0'' \<and> t \<noteq> ''-0.0'')"
| "truthy (PStr s) = (s \<noteq> [])"
| "truthy (PList vs) = (vs \<noteq> [])"
| "truthy (PDict d) = (d \<noteq> [])"

text \<open>\<open>v == n\<close> for a small integer constant \<open>n\<close>: True, 1 and 1.0 are equal to 1.\<close>

fun eq_int :: "pyval \<Rightarrow> int \<Rightarrow> bool" where
  "eq_int (PInt i) n = (i = n)"
| "eq_int (PBool b) n = (of_bool b = n)"
| "eq_int (PFloat t) n = (t = str_int n @ ''.0'' \<or> (n = 0 \<and> t = ''-0.0''))"
| "eq_int _ n = False"

text \<open>\<open>d.get(k)\<close> and \<open>k in d\<close>.\<close>

definition get :: "(string, pyval) dict \<Rightarrow> string \<Rightarrow> pyval" where
  "get d k = (case dict_get d k of None \<Rightarrow> PNone | Some v \<Rightarrow> v)"

definition get_or :: "(string, pyval) dict \<Rightarrow> string \<Rightarrow> pyval \<Rightarrow> pyval" where
  "get_or d k v0 = (case dict_get d k of None \<Rightarrow> v0 | Some v \<Rightarrow> v)"

text \<open>A text or \<open>None\<close>.\<close>

definition opt_str :: "string option \<Rightarrow> pyval" where
  "opt_str x = (case x of None \<Rightarrow> PNone | Some s \<Rightarrow> PStr s)"

definition has_key :: "(string, pyval) dict \<Rightarrow> string \<Rightarrow> bool" where
  "has_key d k \<longleftrightarrow> dict_get d k \<noteq> None"

lemma is_str_iff: "is_str v \<longleftrightarrow> (\<exists>s. v = PStr s)"
  by (cases v) auto

lemma is_list_iff: "is_list v \<longleftrightarrow> (\<exists>vs. v = PList vs)"
  by (cases v) auto

lemma is_dict_iff: "is_dict v \<longleftrightarrow> (\<exists>d. v = PDict d)"
  by (cases v) auto

lemma is_int_not_bool_iff: "is_int v \<and> \<not> is_bool v \<longleftrightarrow> (\<exists>i. v = PInt i)"
  by (cases v) auto

end
