(* ===== verification/Quorum.thy ===== *)
theory Quorum
  imports Values
begin

text \<open>
  \<^verbatim>\<open>src/recto/quorum.py\<close>: k-of-n signature quorums. A verifier is a function of the signature and
  the message; \<open>None\<close> is a verifier that raises. The member mapping is a dictionary from identities
  to verifiers, visited in its order; the result's set of satisfied identities is a HOL set.
\<close>

type_synonym verifier = "bytes \<Rightarrow> bytes \<Rightarrow> bool option"

datatype quorum_config_error = KNotInt | KBelowOne | NoMembers | KAboveMembers

record quorum_result =
  qr_met :: bool
  qr_k :: int
  satisfied_by :: "string set"
  unmatched_signatures :: nat

definition count :: "quorum_result \<Rightarrow> nat" where
  "count r = card (satisfied_by r)"

definition safe_verify :: "verifier \<Rightarrow> bytes \<Rightarrow> bytes \<Rightarrow> bool" where
  "safe_verify v sig msg = (case v sig msg of None \<Rightarrow> False | Some b \<Rightarrow> b)"

text \<open>The inner loop: the first member, not yet satisfied, whose verifier accepts.\<close>

fun match_member :: "bytes \<Rightarrow> bytes \<Rightarrow> string set \<Rightarrow> (string, verifier) dict \<Rightarrow> string option" where
  "match_member msg sig sat [] = None"
| "match_member msg sig sat ((identity, v) # ms) =
     (if identity \<in> sat then match_member msg sig sat ms
      else if safe_verify v sig msg then Some identity
      else match_member msg sig sat ms)"

text \<open>The outer loop, over the signatures.\<close>

fun quorum_loop ::
  "bytes \<Rightarrow> (string, verifier) dict \<Rightarrow> bytes list \<Rightarrow> string set \<Rightarrow> nat \<Rightarrow> string set \<times> nat" where
  "quorum_loop msg ms [] sat un = (sat, un)"
| "quorum_loop msg ms (sig # sigs) sat un =
     (if sig = [] then quorum_loop msg ms sigs sat (un + 1)
      else (case match_member msg sig sat ms of
              None \<Rightarrow> quorum_loop msg ms sigs sat (un + 1)
            | Some identity \<Rightarrow> quorum_loop msg ms sigs (insert identity sat) un))"

definition verify_quorum ::
  "bytes \<Rightarrow> bytes list \<Rightarrow> (string, verifier) dict \<Rightarrow> pyval \<Rightarrow> quorum_config_error + quorum_result" where
  "verify_quorum msg sigs ms k =
     (if is_bool k \<or> \<not> is_int k then Inl KNotInt
      else if the_int k < 1 then Inl KBelowOne
      else if ms = [] then Inl NoMembers
      else if the_int k > int (length ms) then Inl KAboveMembers
      else (case quorum_loop msg ms sigs {} 0 of
              (sat, un) \<Rightarrow>
                Inr \<lparr>qr_met = (int (card sat) \<ge> the_int k), qr_k = the_int k,
                     satisfied_by = sat, unmatched_signatures = un\<rparr>))"

section \<open>The loops\<close>

text \<open>\<open>accepts ms msg sig i\<close>: the member listed as \<open>i\<close> accepts the signature.\<close>

definition accepts :: "(string, verifier) dict \<Rightarrow> bytes \<Rightarrow> bytes \<Rightarrow> string \<Rightarrow> bool" where
  "accepts ms msg sig i \<longleftrightarrow>
     sig \<noteq> [] \<and> (\<exists>v. dict_get ms i = Some v \<and> safe_verify v sig msg)"

lemma safe_verify_raise [simp]: "v sig msg = None \<Longrightarrow> \<not> safe_verify v sig msg"
  by (simp add: safe_verify_def)

lemma match_member_Some:
  "match_member msg sig sat ms = Some i \<Longrightarrow>
     i \<notin> sat \<and> (\<exists>v. (i, v) \<in> set ms \<and> safe_verify v sig msg)"
  by (induction ms) (auto split: if_splits)

lemma match_member_None:
  "match_member msg sig sat ms = None \<longleftrightarrow>
     (\<forall>(i, v) \<in> set ms. i \<notin> sat \<longrightarrow> \<not> safe_verify v sig msg)"
  by (induction ms) (auto split: if_splits)

lemma match_member_accepts:
  assumes "match_member msg sig sat ms = Some i" and "dict_wf ms" and "sig \<noteq> []"
  shows "i \<notin> sat" and "accepts ms msg sig i"
  using match_member_Some[OF assms(1)] assms(2,3)
  by (auto simp: accepts_def dict_get_iff)

lemma quorum_loop_mono: "sat \<subseteq> fst (quorum_loop msg ms sigs sat un)"
  by (induction msg ms sigs sat un rule: quorum_loop.induct) (auto split: option.splits)

lemma quorum_loop_append:
  "quorum_loop msg ms (sigs @ sigs') sat un =
     (case quorum_loop msg ms sigs sat un of (sat', un') \<Rightarrow> quorum_loop msg ms sigs' sat' un')"
  by (induction msg ms sigs sat un rule: quorum_loop.induct) (auto split: option.splits)

lemma quorum_loop_count:
  "quorum_loop msg ms sigs sat un = (sat', un') \<Longrightarrow> finite sat \<Longrightarrow>
     finite sat' \<and> card sat' + un' = card sat + un + length sigs"
proof (induction msg ms sigs sat un rule: quorum_loop.induct)
  case (2 msg ms sig sigs sat un)
  show ?case
  proof (cases "sig = []")
    case True
    then show ?thesis using 2 by auto
  next
    case False
    show ?thesis
    proof (cases "match_member msg sig sat ms")
      case None
      then show ?thesis using False 2 by auto
    next
      case (Some i)
      then show ?thesis using False 2 match_member_Some[OF Some] by auto
    qed
  qed
qed auto

text \<open>The attribution: every identity the loop adds has a signature of its own.\<close>

lemma quorum_loop_attribution:
  assumes "dict_wf ms" and "quorum_loop msg ms sigs sat un = (sat', un')"
  shows "\<exists>f. inj_on f (sat' - sat) \<and>
    (\<forall>i \<in> sat' - sat. f i < length sigs \<and> accepts ms msg (sigs ! f i) i)"
  using assms(2)
proof (induction sigs arbitrary: sat un)
  case (Cons sig sigs)
  have shift: ?case if "\<exists>f. inj_on f (sat' - sat) \<and>
      (\<forall>i \<in> sat' - sat. f i < length sigs \<and> accepts ms msg (sigs ! f i) i)"
  proof -
    from that obtain f where "inj_on f (sat' - sat)"
      "\<forall>i \<in> sat' - sat. f i < length sigs \<and> accepts ms msg (sigs ! f i) i" by blast
    then show ?thesis by (intro exI[of _ "\<lambda>i. Suc (f i)"]) (auto simp: inj_on_def)
  qed
  show ?case
  proof (cases "sig = [] \<or> match_member msg sig sat ms = None")
    case True
    with Cons.prems have "\<exists>un. quorum_loop msg ms sigs sat un = (sat', un')"
      by (auto split: if_splits)
    then show ?thesis using Cons.IH shift by blast
  next
    case False
    then obtain i where i: "match_member msg sig sat ms = Some i" and ne: "sig \<noteq> []" by auto
    have q: "quorum_loop msg ms sigs (insert i sat) un = (sat', un')" using Cons.prems i ne by simp
    then obtain f where f: "inj_on f (sat' - insert i sat)"
      "\<forall>j \<in> sat' - insert i sat. f j < length sigs \<and> accepts ms msg (sigs ! f j) j"
      using Cons.IH by blast
    note acc = match_member_accepts[OF i assms(1) ne]
    have "inj_on (\<lambda>j. if j = i then 0 else Suc (f j)) (sat' - sat)"
      using f(1) by (auto simp: inj_on_def)
    moreover have "\<forall>j \<in> sat' - sat. (if j = i then 0 else Suc (f j)) < length (sig # sigs) \<and>
        accepts ms msg ((sig # sigs) ! (if j = i then 0 else Suc (f j))) j"
      using f(2) acc by auto
    ultimately show ?thesis by (intro exI[of _ "\<lambda>j. if j = i then 0 else Suc (f j)"]) blast
  qed
qed simp

lemma quorum_loop_complete:
  assumes "dict_wf ms"
    and excl: "\<And>sig i j. sig \<in> set sigs \<Longrightarrow> accepts ms msg sig i \<Longrightarrow> accepts ms msg sig j \<Longrightarrow> i = j"
  shows "fst (quorum_loop msg ms sigs sat un) = sat \<union> {i. \<exists>sig \<in> set sigs. accepts ms msg sig i}"
  using excl
proof (induction sigs arbitrary: sat un)
  case (Cons sig sigs)
  have acc: "accepts ms msg sig i \<longleftrightarrow> sig \<noteq> [] \<and> (\<exists>v. (i, v) \<in> set ms \<and> safe_verify v sig msg)" for i
    using assms(1) by (auto simp: accepts_def dict_get_iff)
  have IH: "fst (quorum_loop msg ms sigs sat un) = sat \<union> {i. \<exists>sig \<in> set sigs. accepts ms msg sig i}"
    for sat un using Cons.IH Cons.prems by (meson list.set_intros(2))
  show ?case
  proof (cases "sig = []")
    case True
    then have "\<not> accepts ms msg sig i" for i by (simp add: accepts_def)
    then show ?thesis using True IH by auto
  next
    case False
    show ?thesis
    proof (cases "match_member msg sig sat ms")
      case None
      then have "{i. accepts ms msg sig i} \<subseteq> sat"
        by (auto simp: match_member_None acc)
      then show ?thesis using None IH False by auto
    next
      case (Some i)
      have "accepts ms msg sig i" by (rule match_member_accepts(2)[OF Some assms(1) False])
      then have "{i. accepts ms msg sig i} = {i}" using Cons.prems by auto
      then show ?thesis using Some IH False by auto
    qed
  qed
qed simp

lemma verify_quorum_Inr:
  "verify_quorum msg sigs ms k = Inr r \<Longrightarrow>
     1 \<le> qr_k r \<and> qr_k r \<le> int (length ms) \<and> k = PInt (qr_k r) \<and>
     quorum_loop msg ms sigs {} 0 = (satisfied_by r, unmatched_signatures r) \<and>
     (qr_met r \<longleftrightarrow> qr_k r \<le> int (card (satisfied_by r)))"
  by (cases k) (auto simp: verify_quorum_def split: if_splits prod.splits)

section \<open>Properties\<close>



text \<open>The quorum is exact when no signature of the batch is accepted by two members: the
  satisfied identities are exactly the members some signature of the batch verifies for, whatever
  the order of the signatures and of the members and however often one is repeated.\<close>

theorem verify_quorum_exact:
  assumes "dict_wf ms" and "verify_quorum msg sigs ms k = Inr r"
    and "\<forall>sig \<in> set sigs. \<forall>i j. accepts ms msg sig i \<and> accepts ms msg sig j \<longrightarrow> i = j"
  shows "satisfied_by r = {i. \<exists>sig \<in> set sigs. accepts ms msg sig i}"
proof -
  have "fst (quorum_loop msg ms sigs {} 0) = {} \<union> {i. \<exists>sig \<in> set sigs. accepts ms msg sig i}"
    by (rule quorum_loop_complete[OF assms(1)]) (use assms(3) in blast)
  then show ?thesis using verify_quorum_Inr[OF assms(2)] by simp
qed

theorem verify_quorum_exact_witness:
  "{''a''} = {i. \<exists>sig \<in> set [[1], [1 :: byte]].
     accepts [(''a'', \<lambda>s m. Some (s = [1])), (''b'', \<lambda>s m. None)] [7] sig i}" (is "_ = ?A")
proof -
  let ?ms = "[(''a'', \<lambda>s m. Some (s = [1 :: byte])), (''b'', \<lambda>s m. None)]"
  have run: "verify_quorum [7] [[1], [1]] ?ms (PInt 2) = Inr \<lparr>qr_met = False, qr_k = 2,
      satisfied_by = {''a''}, unmatched_signatures = 1\<rparr>"
    by (simp add: verify_quorum_def safe_verify_def)
  have "\<forall>sig \<in> set [[1], [1]]. \<forall>i j. accepts ?ms [7] sig i \<and> accepts ?ms [7] sig j \<longrightarrow> i = j"
    by (auto simp: accepts_def safe_verify_def split: if_splits)
  from verify_quorum_exact[OF _ run this] show ?thesis by (simp add: dict_wf_def)
qed

text \<open>An impossible quorum is an error and never a result: the check raises exactly when k is
  not an int (a bool included), is below one, or exceeds the number of members (so in particular
  when there are none); otherwise it returns, whatever the verifiers do, raising included.\<close>

theorem verify_quorum_total:
  "(\<exists>r. verify_quorum msg sigs ms k = Inr r) \<longleftrightarrow>
     (\<exists>n. k = PInt n \<and> 1 \<le> n \<and> n \<le> int (length ms))"
  by (cases k) (auto simp: verify_quorum_def split: prod.splits)

text \<open>A repeated signature is harmless only when no key is listed twice. With one key under two
  identities, the same signature presented twice satisfies both, so a 2-of-2 quorum is met by one
  key; presented once it satisfies one.\<close>

theorem duplicate_signature_counts_twice:
  assumes "v sig msg = Some True" and "sig \<noteq> []"
  shows "verify_quorum msg [sig, sig] [(''a'', v), (''b'', v)] (PInt 2) =
      Inr \<lparr>qr_met = True, qr_k = 2, satisfied_by = {''a'', ''b''}, unmatched_signatures = 0\<rparr>
    \<and> verify_quorum msg [sig] [(''a'', v), (''b'', v)] (PInt 2) =
      Inr \<lparr>qr_met = False, qr_k = 2, satisfied_by = {''a''}, unmatched_signatures = 0\<rparr>"
  using assms by (auto simp: verify_quorum_def safe_verify_def insert_commute)

theorem duplicate_signature_counts_twice_witness:
  "verify_quorum [7] [[1], [1]] [(''a'', \<lambda>s m. Some True), (''b'', \<lambda>s m. Some True)] (PInt 2) =
      Inr \<lparr>qr_met = True, qr_k = 2, satisfied_by = {''a'', ''b''}, unmatched_signatures = 0\<rparr>"
  using duplicate_signature_counts_twice[of "\<lambda>s m. Some True" "[1]" "[7]"] by simp

end
