(* ===== verification/Capability.thy ===== *)
theory Capability
  imports Values
begin

text \<open>
  \<^verbatim>\<open>src/recto/capability/types.py\<close> and \<^verbatim>\<open>src/recto/capability/manifest.py\<close>: the claims of a
  capability, the action manifest, and the evaluation of a clause against it. Claims whose type the
  code never checks (the optional scope fields, \<open>max_uses\<close>, \<open>parent_cap\<close>, \<open>parent_profile\<close>, the
  limits) stay dynamically typed; the claim \<open>exp\<close> is the field \<open>expiry\<close>.
\<close>

section \<open>Claims\<close>

record capability_scope =
  env :: "string list"
  services :: "string list"
  repos :: "string list"
  create_for_owner :: pyval
  chat_room_id :: pyval
  target_user_id :: pyval
  pairing_code :: pyval
  payload_sha256 :: pyval

record capability_limits =
  per_hour :: "(string, pyval) dict"
  per_day :: "(string, pyval) dict"
  per_session :: "(string, pyval) dict"

record capability_clause =
  tier :: int
  registry_version :: string
  groups :: "string list"
  scope :: capability_scope
  allow_actions :: "string list"
  deny_actions :: "string list"
  limits :: capability_limits

record capability_claims =
  iss :: string
  sub :: string
  aud :: "string list"
  iat :: int
  nbf :: int
  expiry :: int
  jti :: string
  cap :: capability_clause
  purpose :: string
  parent_cap :: pyval
  max_uses :: pyval
  parent_profile :: pyval

definition empty_scope :: capability_scope where
  "empty_scope = \<lparr>env = [], services = [], repos = [], create_for_owner = PNone,
     chat_room_id = PNone, target_user_id = PNone, pairing_code = PNone, payload_sha256 = PNone\<rparr>"

definition empty_limits :: capability_limits where
  "empty_limits = \<lparr>per_hour = [], per_day = [], per_session = []\<rparr>"

section \<open>The manifest\<close>

record action_definition =
  action_count :: int
  description :: string

record group_definition =
  members :: "string list"

record action_manifest =
  version :: string
  actions :: "(string, action_definition) dict"
  manifest_groups :: "(string, group_definition) dict"

datatype manifest_error =
    VersionMissing
  | ActionsNotObject
  | ActionNotObject string
  | CountInvalid string
  | DescriptionNotString string
  | GroupsNotObject
  | GroupNotObject string
  | MembersNotList string
  | MemberUnknown string pyval
  | MemberUnhashable string pyval

text \<open>A list or a dictionary among a group's members raises \<open>TypeError\<close> (it cannot be looked up);
  every other value that is no known action's name is the \<open>ValueError\<close> the code names.\<close>

definition load_action :: "string \<times> pyval \<Rightarrow> manifest_error + string \<times> action_definition" where
  "load_action kv = (case kv of (key, defn) \<Rightarrow>
     if \<not> is_dict defn then Inl (ActionNotObject key)
     else let n = get (the_dict defn) ''count''; desc = get_or (the_dict defn) ''description'' (PStr [])
       in if \<not> is_int n \<or> the_int n < 0 then Inl (CountInvalid key)
          else if \<not> is_str desc then Inl (DescriptionNotString key)
          else Inr (key, \<lparr>action_count = the_int n, description = the_str desc\<rparr>))"

definition load_member ::
  "(string, action_definition) dict \<Rightarrow> string \<Rightarrow> pyval \<Rightarrow> manifest_error + string" where
  "load_member acts grp v =
     (if is_list v \<or> is_dict v then Inl (MemberUnhashable grp v)
      else if is_str v \<and> dict_get acts (the_str v) \<noteq> None then Inr (the_str v)
      else Inl (MemberUnknown grp v))"

definition load_group ::
  "(string, action_definition) dict \<Rightarrow> string \<times> pyval \<Rightarrow> manifest_error + string \<times> group_definition" where
  "load_group acts kv = (case kv of (key, defn) \<Rightarrow>
     if \<not> is_dict defn then Inl (GroupNotObject key)
     else let ms = get_or (the_dict defn) ''actions'' (PList [])
       in if \<not> is_list ms then Inl (MembersNotList key)
          else (case map_err (load_member acts key) (the_list ms) of
                  Inl e \<Rightarrow> Inl e
                | Inr names \<Rightarrow> Inr (key, \<lparr>members = names\<rparr>)))"

definition load_manifest_from_dict :: "(string, pyval) dict \<Rightarrow> manifest_error + action_manifest" where
  "load_manifest_from_dict raw =
     (let ver = get raw ''version''; acts = get_or raw ''actions'' (PDict []);
          grps = get_or raw ''groups'' (PDict [])
      in if \<not> truthy ver \<or> \<not> is_str ver then Inl VersionMissing
         else if \<not> is_dict acts then Inl ActionsNotObject
         else (case map_err load_action (the_dict acts) of
             Inl e \<Rightarrow> Inl e
           | Inr a \<Rightarrow>
               if \<not> is_dict grps then Inl GroupsNotObject
               else (case map_err (load_group a) (the_dict grps) of
                   Inl e \<Rightarrow> Inl e
                 | Inr g \<Rightarrow> Inr \<lparr>version = the_str ver, actions = a, manifest_groups = g\<rparr>)))"

section \<open>Resolution\<close>

datatype clause_error =
    VersionMismatch
  | UnknownGroup string
  | UnknownAction string
  | MissingKey string

definition group_actions :: "action_manifest \<Rightarrow> string \<Rightarrow> clause_error + string list" where
  "group_actions m g = (case dict_get (manifest_groups m) g of
     None \<Rightarrow> Inl (UnknownGroup g) | Some d \<Rightarrow> Inr (members d))"

definition known_action :: "action_manifest \<Rightarrow> string \<Rightarrow> clause_error + string" where
  "known_action m a = (if dict_get (actions m) a = None then Inl (UnknownAction a) else Inr a)"

definition resolve_actions :: "capability_clause \<Rightarrow> action_manifest \<Rightarrow> clause_error + string set" where
  "resolve_actions c m =
     (if registry_version c \<noteq> version m then Inl VersionMismatch
      else (case map_err (group_actions m) (groups c) of
          Inl e \<Rightarrow> Inl e
        | Inr gs \<Rightarrow> (case map_err (known_action m) (allow_actions c) of
            Inl e \<Rightarrow> Inl e
          | Inr as \<Rightarrow> Inr ((set (concat gs) \<union> set as) - set (deny_actions c)))))"

definition evaluate_scope ::
  "string \<Rightarrow> capability_clause \<Rightarrow> action_manifest \<Rightarrow> string list option \<Rightarrow> bool" where
  "evaluate_scope a c m parent_deny =
     (case resolve_actions c m of
        Inl e \<Rightarrow> False
      | Inr permitted \<Rightarrow>
          a \<in> (case parent_deny of None \<Rightarrow> permitted
                | Some ds \<Rightarrow> if ds = [] then permitted else permitted - set ds))"

section \<open>Weights\<close>

definition count_of :: "action_manifest \<Rightarrow> string \<Rightarrow> clause_error + int" where
  "count_of m a = (case dict_get (actions m) a of
     None \<Rightarrow> Inl (MissingKey a) | Some d \<Rightarrow> Inr (action_count d))"

text \<open>\<open>group_weight\<close> and \<open>capability_weight\<close> raise \<open>KeyError\<close> on anything unknown.\<close>

definition group_weight :: "action_manifest \<Rightarrow> string \<Rightarrow> clause_error + int" where
  "group_weight m g = (case dict_get (manifest_groups m) g of
     None \<Rightarrow> Inl (MissingKey g)
   | Some d \<Rightarrow> (case map_err (count_of m) (members d) of Inl e \<Rightarrow> Inl e | Inr ns \<Rightarrow> Inr (sum_list ns)))"

definition capability_weight :: "action_manifest \<Rightarrow> capability_clause \<Rightarrow> clause_error + int" where
  "capability_weight m c = (case map_err (group_weight m) (groups c) of
     Inl e \<Rightarrow> Inl e
   | Inr gs \<Rightarrow> (case map_err (count_of m) (allow_actions c) of
       Inl e \<Rightarrow> Inl e | Inr as \<Rightarrow> Inr (sum_list gs + sum_list as)))"

definition tier_weight_ceiling :: "int \<Rightarrow> int option" where
  "tier_weight_ceiling t = dict_get [(0, 5), (1, 30), (2, 100)] t"

record group_row =
  group_key :: string
  weight :: int
  rows :: "(string \<times> int) list"

record weight_breakdown =
  total :: int
  breakdown_tier :: int
  tier_ceiling :: "int option"
  breakdown_groups :: "group_row list"
  extra_actions :: "(string \<times> int) list"
  denied_actions :: "string list"

definition action_row :: "action_manifest \<Rightarrow> string \<Rightarrow> clause_error + string \<times> int" where
  "action_row m a = (case count_of m a of Inl e \<Rightarrow> Inl e | Inr n \<Rightarrow> Inr (a, n))"

definition breakdown_group :: "action_manifest \<Rightarrow> string \<Rightarrow> clause_error + group_row" where
  "breakdown_group m g = (case dict_get (manifest_groups m) g of
     None \<Rightarrow> Inl (UnknownGroup g)
   | Some d \<Rightarrow> (case map_err (action_row m) (members d) of
       Inl e \<Rightarrow> Inl e
     | Inr rs \<Rightarrow> Inr \<lparr>group_key = g, weight = sum_list (map snd rs), rows = rs\<rparr>))"

definition breakdown_extra :: "action_manifest \<Rightarrow> string \<Rightarrow> clause_error + string \<times> int" where
  "breakdown_extra m a = (case dict_get (actions m) a of
     None \<Rightarrow> Inl (UnknownAction a) | Some d \<Rightarrow> Inr (a, action_count d))"

definition clause_weight_breakdown ::
  "capability_clause \<Rightarrow> action_manifest \<Rightarrow> clause_error + weight_breakdown" where
  "clause_weight_breakdown c m =
     (if registry_version c \<noteq> version m then Inl VersionMismatch
      else (case map_err (breakdown_group m) (groups c) of
          Inl e \<Rightarrow> Inl e
        | Inr gs \<Rightarrow> (case map_err (breakdown_extra m) (allow_actions c) of
            Inl e \<Rightarrow> Inl e
          | Inr es \<Rightarrow> Inr \<lparr>total = sum_list (map weight gs) + sum_list (map snd es),
              breakdown_tier = tier c, tier_ceiling = tier_weight_ceiling (tier c),
              breakdown_groups = gs, extra_actions = es, denied_actions = deny_actions c\<rparr>)))"

section \<open>Well-formed manifests\<close>

definition manifest_wf :: "action_manifest \<Rightarrow> bool" where
  "manifest_wf m \<longleftrightarrow> version m \<noteq> [] \<and>
     (\<forall>(k, d) \<in> set (actions m). 0 \<le> action_count d) \<and>
     (\<forall>(k, d) \<in> set (manifest_groups m). \<forall>a \<in> set (members d). dict_get (actions m) a \<noteq> None)"

lemma load_member_Inr:
  "load_member acts g v = Inr a \<Longrightarrow> v = PStr a \<and> dict_get acts a \<noteq> None"
  by (cases v) (auto simp: load_member_def split: if_splits)

lemma load_action_Inr:
  "load_action kv = Inr p \<Longrightarrow> fst p = fst kv \<and> 0 \<le> action_count (snd p)"
  by (cases kv) (auto simp: load_action_def Let_def split: if_splits)

lemma load_group_Inr:
  "load_group acts kv = Inr p \<Longrightarrow>
     fst p = fst kv \<and> (\<forall>a \<in> set (members (snd p)). dict_get acts a \<noteq> None)"
  by (cases kv) (fastforce simp: load_group_def Let_def map_err_Inr_iff list_all2_conv_all_nth in_set_conv_nth
      dest: load_member_Inr split: if_splits sum.splits)

lemma map_err_keys:
  assumes "list_all2 (\<lambda>x y. f x = Inr y) xs ys" and "\<And>x y. f x = Inr y \<Longrightarrow> fst y = fst x"
  shows "map fst ys = map fst xs"
  using assms by (induction rule: list_all2_induct) auto

lemma load_manifest_Inr:
  assumes "load_manifest_from_dict raw = Inr m"
  obtains acts grps where
    "get_or raw ''actions'' (PDict []) = PDict acts" "get_or raw ''groups'' (PDict []) = PDict grps"
    "list_all2 (\<lambda>x y. load_action x = Inr y) acts (actions m)"
    "list_all2 (\<lambda>x y. load_group (actions m) x = Inr y) grps (manifest_groups m)"
    "version m \<noteq> []"
proof -
  let ?acts = "get_or raw ''actions'' (PDict [])" and ?grps = "get_or raw ''groups'' (PDict [])"
  from assms have ver: "truthy (get raw ''version'')" "is_str (get raw ''version'')"
    and acts: "is_dict ?acts"
    by (auto simp: load_manifest_from_dict_def Let_def split: if_splits)
  with assms obtain a where a: "map_err load_action (the_dict ?acts) = Inr a"
    by (auto simp: load_manifest_from_dict_def Let_def split: sum.splits)
  with assms ver acts have grps: "is_dict ?grps"
    by (auto simp: load_manifest_from_dict_def Let_def split: if_splits)
  with assms ver acts a obtain g where g: "map_err (load_group a) (the_dict ?grps) = Inr g"
    by (auto simp: load_manifest_from_dict_def Let_def split: sum.splits)
  have m: "m = \<lparr>version = the_str (get raw ''version''), actions = a, manifest_groups = g\<rparr>"
    using assms ver acts grps a g by (simp add: load_manifest_from_dict_def Let_def)
  have "version m \<noteq> []" using ver m by (cases "get raw ''version''") auto
  moreover obtain da dg where "?acts = PDict da" "?grps = PDict dg"
    using acts grps by (auto simp: is_dict_iff)
  ultimately show ?thesis using a g m by (intro that[of da dg]) (simp_all add: map_err_Inr_iff)
qed

section \<open>Properties\<close>

text \<open>C16: a manifest that loads is well formed: its version is not empty, no action has a negative
  count, every group names only actions of the manifest, and no key is repeated, so the lookups of
  the rest of the module cannot fail on it.\<close>

theorem load_manifest_wf:
  assumes "load_manifest_from_dict raw = Inr m"
    and "\<forall>d. get raw ''actions'' = PDict d \<longrightarrow> dict_wf d"
    and "\<forall>d. get raw ''groups'' = PDict d \<longrightarrow> dict_wf d"
  shows "manifest_wf m \<and> dict_wf (actions m) \<and> dict_wf (manifest_groups m)"
proof -
  obtain acts grps where l: "get_or raw ''actions'' (PDict []) = PDict acts"
    "get_or raw ''groups'' (PDict []) = PDict grps"
    "list_all2 (\<lambda>x y. load_action x = Inr y) acts (actions m)"
    "list_all2 (\<lambda>x y. load_group (actions m) x = Inr y) grps (manifest_groups m)"
    "version m \<noteq> []" by (rule load_manifest_Inr[OF assms(1)])
  have wf: "dict_wf d'" if "get_or raw k (PDict []) = PDict d'" "\<forall>d. get raw k = PDict d \<longrightarrow> dict_wf d"
    for k d'
    using that by (cases "dict_get raw k") (simp_all add: get_or_def get_def)
  have "map fst (actions m) = map fst acts"
    by (rule map_err_keys[OF l(3)]) (blast dest: load_action_Inr)
  moreover have "map fst (manifest_groups m) = map fst grps"
    by (rule map_err_keys[OF l(4)]) (blast dest: load_group_Inr)
  ultimately have "dict_wf (actions m)" "dict_wf (manifest_groups m)"
    using wf[OF l(1) assms(2)] wf[OF l(2) assms(3)] by (simp_all add: dict_wf_def)
  moreover have "0 \<le> action_count d" if "(k, d) \<in> set (actions m)" for k d
    using list_all2_right[OF l(3) that] load_action_Inr by fastforce
  moreover have "\<forall>a \<in> set (members d). dict_get (actions m) a \<noteq> None"
    if "(k, d) \<in> set (manifest_groups m)" for k d
    using list_all2_right[OF l(4) that] load_group_Inr by fastforce
  ultimately show ?thesis using l(5) by (auto simp: manifest_wf_def)
qed

definition sample_raw :: "(string, pyval) dict" where
  "sample_raw = [(''version'', PStr ''v1''),
     (''actions'', PDict [(''doc:edit'', PDict [(''count'', PInt 1)]), (''db:drop'', PDict [(''count'', PInt 8)])]),
     (''groups'', PDict [(''docs'', PDict [(''actions'', PList [PStr ''doc:edit''])])])]"

definition sample_manifest :: action_manifest where
  "sample_manifest = \<lparr>version = ''v1'',
     actions = [(''doc:edit'', \<lparr>action_count = 1, description = []\<rparr>), (''db:drop'', \<lparr>action_count = 8, description = []\<rparr>)],
     manifest_groups = [(''docs'', \<lparr>members = [''doc:edit'']\<rparr>)]\<rparr>"

lemma sample_loads: "load_manifest_from_dict sample_raw = Inr sample_manifest"
  by (simp add: sample_raw_def sample_manifest_def load_manifest_from_dict_def get_def get_or_def
      load_action_def load_group_def load_member_def Let_def)

theorem load_manifest_wf_witness: "manifest_wf sample_manifest"
  using load_manifest_wf[OF sample_loads]
  by (simp add: sample_raw_def get_def dict_wf_def)

lemma group_actions_Inr:
  "group_actions m g = Inr as \<longleftrightarrow> (\<exists>d. dict_get (manifest_groups m) g = Some d \<and> as = members d)"
  by (auto simp: group_actions_def split: option.splits)

lemma known_action_Inr: "known_action m a = Inr b \<longleftrightarrow> b = a \<and> dict_get (actions m) a \<noteq> None"
  by (auto simp: known_action_def)

lemma map_err_known: "map_err (known_action m) xs = Inr ys \<Longrightarrow> ys = xs"
  by (induction xs arbitrary: ys) (auto simp: known_action_Inr split: sum.splits)

definition clause_known :: "capability_clause \<Rightarrow> action_manifest \<Rightarrow> bool" where
  "clause_known c m \<longleftrightarrow> registry_version c = version m
     \<and> (\<forall>g \<in> set (groups c). dict_get (manifest_groups m) g \<noteq> None)
     \<and> (\<forall>a \<in> set (allow_actions c). dict_get (actions m) a \<noteq> None)"

definition granted :: "capability_clause \<Rightarrow> action_manifest \<Rightarrow> string set" where
  "granted c m = set (allow_actions c)
     \<union> {a. \<exists>g d. g \<in> set (groups c) \<and> dict_get (manifest_groups m) g = Some d \<and> a \<in> set (members d)}"

lemma resolve_actions_spec:
  "resolve_actions c m = Inr P \<longleftrightarrow> clause_known c m \<and> P = granted c m - set (deny_actions c)"
proof -
  have gs: "(\<exists>gs. map_err (group_actions m) (groups c) = Inr gs) \<longleftrightarrow>
      (\<forall>g \<in> set (groups c). dict_get (manifest_groups m) g \<noteq> None)"
    by (simp add: map_err_total group_actions_Inr)
  have as: "(\<exists>as. map_err (known_action m) (allow_actions c) = Inr as) \<longleftrightarrow>
      (\<forall>a \<in> set (allow_actions c). dict_get (actions m) a \<noteq> None)"
    by (simp add: map_err_total known_action_Inr)
  have un: "set (concat gs) = {a. \<exists>g d. g \<in> set (groups c) \<and>
      dict_get (manifest_groups m) g = Some d \<and> a \<in> set (members d)}"
    if "map_err (group_actions m) (groups c) = Inr gs" for gs
    using that list_all2_left[of _ "groups c" gs] list_all2_right[of _ "groups c" gs]
    unfolding map_err_Inr_iff by (fastforce simp: group_actions_Inr)
  show ?thesis
  proof (cases "clause_known c m")
    case True
    then obtain gs as where "map_err (group_actions m) (groups c) = Inr gs"
      "map_err (known_action m) (allow_actions c) = Inr as"
      using gs as by (auto simp: clause_known_def)
    then show ?thesis
      using True un map_err_known[of m "allow_actions c" as]
      by (auto simp: resolve_actions_def granted_def clause_known_def)
  next
    case False
    then have "registry_version c \<noteq> version m \<or> \<not> (\<exists>gs. map_err (group_actions m) (groups c) = Inr gs)
        \<or> \<not> (\<exists>as. map_err (known_action m) (allow_actions c) = Inr as)"
      unfolding clause_known_def gs as by blast
    then show ?thesis using False by (auto simp: resolve_actions_def split: sum.splits)
  qed
qed

text \<open>C14: an action is in scope exactly when the clause was issued against this manifest's version,
  every group and every allowed action it names is known, the action is named by one of those groups
  or by \<open>allow_actions\<close>, and neither the clause nor the profile denies it. So a denial always wins,
  and a clause with one unknown name grants nothing.\<close>

theorem evaluate_scope_spec:
  "evaluate_scope a c m parent_deny \<longleftrightarrow>
     registry_version c = version m
     \<and> set (groups c) \<subseteq> set (dict_keys (manifest_groups m))
     \<and> set (allow_actions c) \<subseteq> set (dict_keys (actions m))
     \<and> (a \<in> set (allow_actions c) \<or>
         (\<exists>g d. g \<in> set (groups c) \<and> dict_get (manifest_groups m) g = Some d \<and> a \<in> set (members d)))
     \<and> a \<notin> set (deny_actions c)
     \<and> a \<notin> set (case parent_deny of None \<Rightarrow> [] | Some ds \<Rightarrow> ds)"
proof -
  have keys: "clause_known c m \<longleftrightarrow> registry_version c = version m
     \<and> set (groups c) \<subseteq> set (dict_keys (manifest_groups m))
     \<and> set (allow_actions c) \<subseteq> set (dict_keys (actions m))"
    by (auto simp: clause_known_def map_of_eq_None_iff)
  show ?thesis
  proof (cases "clause_known c m")
    case True
    then have "resolve_actions c m = Inr (granted c m - set (deny_actions c))"
      by (simp add: resolve_actions_spec)
    then show ?thesis
      using True unfolding keys evaluate_scope_def granted_def by (auto split: option.splits)
  next
    case False
    then have "\<exists>e. resolve_actions c m = Inl e"
      using resolve_actions_spec[of c m] by (cases "resolve_actions c m") auto
    then show ?thesis using False unfolding keys evaluate_scope_def by auto
  qed
qed

lemma action_row_wf:
  "dict_get (actions m) a \<noteq> None \<Longrightarrow> \<exists>n. action_row m a = Inr (a, n) \<and> count_of m a = Inr n"
  by (auto simp: action_row_def count_of_def)

lemma breakdown_group_wf:
  assumes "manifest_wf m"
  shows "breakdown_group m g = Inl e \<longleftrightarrow> group_actions m g = Inl e"
    and "breakdown_group m g = Inr r \<Longrightarrow> group_weight m g = Inr (weight r) \<and> 0 \<le> weight r"
proof -
  have rows: "\<exists>rs. map_err (action_row m) (members d) = Inr rs"
    if "dict_get (manifest_groups m) g = Some d" for d
  proof -
    have "\<forall>a \<in> set (members d). dict_get (actions m) a \<noteq> None"
      using assms dict_get_in_set[OF that] by (auto simp: manifest_wf_def)
    then show ?thesis using action_row_wf unfolding map_err_total by blast
  qed
  show "breakdown_group m g = Inl e \<longleftrightarrow> group_actions m g = Inl e"
    using rows by (auto simp: breakdown_group_def group_actions_def split: option.splits sum.splits)
  assume r: "breakdown_group m g = Inr r"
  then obtain d rs where d: "dict_get (manifest_groups m) g = Some d"
    "map_err (action_row m) (members d) = Inr rs" "weight r = sum_list (map snd rs)"
    by (auto simp: breakdown_group_def split: option.splits sum.splits)
  have cs: "map_err (count_of m) (members d) = Inr (map snd rs)"
    by (rule map_err_map[OF d(2)]) (auto simp: action_row_def split: sum.splits)
  have "0 \<le> n" if "n \<in> set (map snd rs)" for n
  proof -
    from that obtain q where q: "q \<in> set rs" "snd q = n" by auto
    obtain a where "action_row m a = Inr q" by (rule map_err_mem[OF d(2) q(1)])
    then obtain x where "dict_get (actions m) a = Some x" "n = action_count x"
      using q(2) by (auto simp: action_row_def count_of_def split: option.splits sum.splits)
    then show ?thesis using assms dict_get_in_set by (fastforce simp: manifest_wf_def)
  qed
  then have "0 \<le> sum_list (map snd rs)" by (rule sum_list_nonneg)
  then show "group_weight m g = Inr (weight r) \<and> 0 \<le> weight r"
    using d cs by (simp add: group_weight_def)
qed

text \<open>On a well-formed manifest the weight an operator is shown fails closed exactly as the
  resolution of the clause does, with the same error; and when it is shown it is never too low: it
  is the clause's full weight, no group or action skipped, and it is not negative.\<close>

theorem weight_breakdown_fails_with_resolve:
  assumes "manifest_wf m"
  shows "case clause_weight_breakdown c m of
      Inl e \<Rightarrow> resolve_actions c m = Inl e
    | Inr b \<Rightarrow> (\<exists>P. resolve_actions c m = Inr P)
        \<and> capability_weight m c = Inr (total b) \<and> 0 \<le> total b
        \<and> denied_actions b = deny_actions c"
proof -
  note bg = breakdown_group_wf[OF assms]
  have gs_err: "map_err (breakdown_group m) (groups c) = Inl e \<longleftrightarrow> map_err (group_actions m) (groups c) = Inl e"
    for e by (rule map_err_same) (rule bg(1))
  have as_err: "map_err (breakdown_extra m) (allow_actions c) = Inl e \<longleftrightarrow>
      map_err (known_action m) (allow_actions c) = Inl e" for e
    by (rule map_err_same) (auto simp: breakdown_extra_def known_action_def split: option.splits)
  show ?thesis
  proof (cases "clause_weight_breakdown c m")
    case (Inl e)
    consider "registry_version c \<noteq> version m" | "registry_version c = version m" "map_err (breakdown_group m) (groups c) = Inl e"
      | gs where "registry_version c = version m" "map_err (breakdown_group m) (groups c) = Inr gs"
          "map_err (breakdown_extra m) (allow_actions c) = Inl e"
      using Inl by (auto simp: clause_weight_breakdown_def split: if_splits sum.splits)
    then have "resolve_actions c m = Inl e"
    proof cases
      case 1
      then show ?thesis using Inl by (simp add: clause_weight_breakdown_def resolve_actions_def)
    next
      case 2
      then show ?thesis using gs_err by (simp add: resolve_actions_def)
    next
      case (3 gs)
      then obtain xs where "map_err (group_actions m) (groups c) = Inr xs"
        using gs_err by (cases "map_err (group_actions m) (groups c)") auto
      then show ?thesis using 3 as_err by (simp add: resolve_actions_def)
    qed
    then show ?thesis using Inl by simp
  next
    case (Inr b)
    then obtain gs es where b: "registry_version c = version m"
      "map_err (breakdown_group m) (groups c) = Inr gs"
      "map_err (breakdown_extra m) (allow_actions c) = Inr es"
      "total b = sum_list (map weight gs) + sum_list (map snd es)" "denied_actions b = deny_actions c"
      by (auto simp: clause_weight_breakdown_def split: if_splits sum.splits)
    obtain xs where xs: "map_err (group_actions m) (groups c) = Inr xs"
      using b(2) gs_err by (cases "map_err (group_actions m) (groups c)") auto
    obtain ys where ys: "map_err (known_action m) (allow_actions c) = Inr ys"
      using b(3) as_err by (cases "map_err (known_action m) (allow_actions c)") auto
    have gw: "map_err (group_weight m) (groups c) = Inr (map weight gs)"
      by (rule map_err_map[OF b(2)]) (use bg(2) in blast)
    have aw: "map_err (count_of m) (allow_actions c) = Inr (map snd es)"
      by (rule map_err_map[OF b(3)]) (auto simp: breakdown_extra_def count_of_def split: option.splits)
    have "0 \<le> weight r" if "r \<in> set gs" for r
      using map_err_mem[OF b(2) that] bg(2) by metis
    moreover have "0 \<le> snd p" if p: "p \<in> set es" for p
    proof -
      obtain a where "breakdown_extra m a = Inr p" by (rule map_err_mem[OF b(3) p])
      then show ?thesis using assms dict_get_in_set
        by (fastforce simp: breakdown_extra_def manifest_wf_def split: option.splits)
    qed
    ultimately have "0 \<le> total b" unfolding b(4) by (intro add_nonneg_nonneg sum_list_nonneg) auto
    then show ?thesis using Inr b xs ys gw aw by (simp add: resolve_actions_def capability_weight_def)
  qed
qed

definition sample_clause :: capability_clause where
  "sample_clause = \<lparr>tier = 1, registry_version = ''v1'', groups = [''docs''], scope = empty_scope,
     allow_actions = [''db:drop''], deny_actions = [], limits = empty_limits\<rparr>"

theorem weight_breakdown_witness:
  "capability_weight sample_manifest sample_clause = Inr 9"
proof -
  have wf: "manifest_wf sample_manifest" by (simp add: manifest_wf_def sample_manifest_def)
  have "\<exists>b. clause_weight_breakdown sample_clause sample_manifest = Inr b \<and> total b = 9"
    by (simp add: clause_weight_breakdown_def sample_clause_def sample_manifest_def breakdown_group_def
        action_row_def count_of_def breakdown_extra_def)
  then show ?thesis using weight_breakdown_fails_with_resolve[OF wf, of sample_clause] by auto
qed

end
