(* ===== verification/Codec.thy ===== *)
theory Codec
  imports PyStr
begin

text \<open>
  Byte strings and the encodings the program takes from the standard library: UTF-8 (of the code
  points 0 to 255), ASCII, hexadecimal, big-endian integers and URL-safe base64, the last with the
  leniency of CPython's decoder.
\<close>

section \<open>Text and bytes\<close>

definition byte_of :: "nat \<Rightarrow> byte" where
  "byte_of n = word_of_nat n"

definition nat_of :: "byte \<Rightarrow> nat" where
  "nat_of b = unat b"

definition utf8_char :: "char \<Rightarrow> bytes" where
  "utf8_char c = (if code c < 128 then [byte_of (code c)]
     else [byte_of (192 + code c div 64), byte_of (128 + code c mod 64)])"

definition utf8 :: "string \<Rightarrow> bytes" where
  "utf8 s = concat (map utf8_char s)"

definition is_ascii :: "string \<Rightarrow> bool" where
  "is_ascii s \<longleftrightarrow> list_all (\<lambda>c. code c < 128) s"

text \<open>\<open>s.encode("ascii")\<close>; \<open>None\<close> is the \<open>UnicodeEncodeError\<close>.\<close>

definition ascii_encode :: "string \<Rightarrow> bytes option" where
  "ascii_encode s = (if is_ascii s then Some (map (\<lambda>c. byte_of (code c)) s) else None)"

lemma nat_of_byte_of [simp]: "n < 256 \<Longrightarrow> nat_of (byte_of n) = n"
  by (simp add: nat_of_def byte_of_def unat_of_nat take_bit_nat_eq_self)

lemma byte_of_nat_of [simp]: "byte_of (nat_of b) = b"
  by (simp add: nat_of_def byte_of_def)

lemma nat_of_less: "nat_of b < 256"
  using unsigned_less[of b] by (simp add: nat_of_def)

lemma nat_of_inj: "nat_of a = nat_of b \<longleftrightarrow> a = b"
  by (metis byte_of_nat_of)

lemma byte_of_inj: "m < 256 \<Longrightarrow> n < 256 \<Longrightarrow> byte_of m = byte_of n \<longleftrightarrow> m = n"
  by (metis nat_of_byte_of)

lemma utf8_ascii: "is_ascii s \<Longrightarrow> utf8 s = map (\<lambda>c. byte_of (code c)) s"
  by (induction s) (auto simp: utf8_def utf8_char_def is_ascii_def)

lemma utf8_Nil [simp]: "utf8 [] = []"
  by (simp add: utf8_def)

lemma utf8_Cons: "utf8 (c # s) = utf8_char c @ utf8 s"
  by (simp add: utf8_def)

lemma utf8_append: "utf8 (s @ t) = utf8 s @ utf8 t"
  by (simp add: utf8_def)

text \<open>UTF-8 reads back from the left, so it is injective and so are its concatenations.\<close>

lemma utf8_char_prefix:
  assumes "utf8_char c @ r = utf8_char d @ s"
  shows "c = d \<and> r = s"
proof -
  have c: "code c < 256" and d: "code d < 256" by simp_all
  have hd: "nat_of (hd (utf8_char c @ r)) = nat_of (hd (utf8_char d @ s))" using assms by simp
  show ?thesis
  proof (cases "code c < 128"; cases "code d < 128")
    assume "code c < 128" "code d < 128"
    then show ?thesis using assms by (auto simp: utf8_char_def byte_of_inj)
  next
    assume "\<not> code c < 128" "\<not> code d < 128"
    then have "code c div 64 = code d div 64 \<and> code c mod 64 = code d mod 64 \<and> r = s"
      using assms c d by (auto simp: utf8_char_def byte_of_inj)
    then show ?thesis by (metis div_mult_mod_eq of_char_eq_iff)
  qed (use hd c d in \<open>auto simp: utf8_char_def\<close>)
qed

lemma utf8_inj: "utf8 s = utf8 t \<longleftrightarrow> s = t"
proof
  show "utf8 s = utf8 t \<Longrightarrow> s = t"
  proof (induction s arbitrary: t)
    case Nil
    then show ?case by (cases t) (auto simp: utf8_Cons utf8_char_def split: if_splits)
  next
    case (Cons c s)
    then obtain d u where t: "t = d # u"
      by (cases t) (auto simp: utf8_Cons utf8_char_def split: if_splits)
    then show ?case using Cons utf8_char_prefix by (auto simp: utf8_Cons)
  qed
qed simp

section \<open>Hexadecimal\<close>

definition hex_digit :: "nat \<Rightarrow> char" where
  "hex_digit n = (if n < 10 then char_of (48 + n) else char_of (87 + n))"

definition hex_val :: "char \<Rightarrow> nat option" where
  "hex_val c = (if ascii_digit c then Some (code c - 48)
     else if 97 \<le> code c \<and> code c \<le> 102 then Some (code c - 87)
     else if 65 \<le> code c \<and> code c \<le> 70 then Some (code c - 55)
     else None)"

text \<open>\<open>bytes.hex\<close>, and \<open>bytes.fromhex\<close>, which skips ASCII white space before each pair.\<close>

definition hexlify :: "bytes \<Rightarrow> string" where
  "hexlify bs = concat (map (\<lambda>b. [hex_digit (nat_of b div 16), hex_digit (nat_of b mod 16)]) bs)"

definition ascii_space :: "char \<Rightarrow> bool" where
  "ascii_space c \<longleftrightarrow> (9 \<le> code c \<and> code c \<le> 13) \<or> code c = 32"

fun fromhex :: "string \<Rightarrow> bytes option" where
  "fromhex [] = Some []"
| "fromhex (c # cs) =
     (if ascii_space c then fromhex cs
      else (case cs of [] \<Rightarrow> None
            | d # ds \<Rightarrow> (case (hex_val c, hex_val d) of
                (Some h, Some l) \<Rightarrow> map_option ((#) (byte_of (16 * h + l))) (fromhex ds)
              | _ \<Rightarrow> None)))"

lemma code_hex_digit: "n < 16 \<Longrightarrow> code (hex_digit n) = (if n < 10 then 48 + n else 87 + n)"
  by (simp add: hex_digit_def)

lemma hex_val_digit [simp]: "n < 16 \<Longrightarrow> hex_val (hex_digit n) = Some n"
  by (auto simp: hex_val_def code_hex_digit ascii_digit_def)

lemma hex_digit_lower [simp]: "n < 16 \<Longrightarrow> hex_lower (hex_digit n)"
  by (auto simp: hex_lower_def ascii_digit_def code_hex_digit)

lemma ascii_space_hex [simp]: "n < 16 \<Longrightarrow> \<not> ascii_space (hex_digit n)"
  by (auto simp: ascii_space_def code_hex_digit)

lemma hexlify_Cons:
  "hexlify (b # bs) = hex_digit (nat_of b div 16) # hex_digit (nat_of b mod 16) # hexlify bs"
  by (simp add: hexlify_def)

lemma hexlify_Nil [simp]: "hexlify [] = []"
  by (simp add: hexlify_def)

lemma nibbles [simp]: "nat_of b div 16 < 16" "nat_of b mod 16 < 16"
  using nat_of_less[of b] by auto

lemma fromhex_hexlify [simp]: "fromhex (hexlify bs) = Some bs"
  by (induction bs) (simp_all add: hexlify_Cons)

lemma hexlify_inj: "hexlify a = hexlify b \<longleftrightarrow> a = b"
  by (metis fromhex_hexlify option.inject)

lemma length_hexlify [simp]: "length (hexlify bs) = 2 * length bs"
  by (induction bs) (simp_all add: hexlify_Cons)

lemma hexlify_lower: "list_all hex_lower (hexlify bs)"
  by (induction bs) (simp_all add: hexlify_Cons)

lemma hexlify_fullmatch: "fullmatch_class hex_lower n n (hexlify bs) \<longleftrightarrow> n = 2 * length bs"
  using hexlify_lower[of bs] by (auto simp: fullmatch_class_def)

text \<open>Every even-length string of hexadecimal digits decodes, to half as many bytes.\<close>

lemma hex_any_val: "hex_any c \<Longrightarrow> \<exists>n < 16. hex_val c = Some n"
  by (auto simp: hex_any_def hex_lower_def hex_val_def ascii_digit_def)

lemma hex_any_not_space: "hex_any c \<Longrightarrow> \<not> ascii_space c"
  by (auto simp: hex_any_def hex_lower_def ascii_digit_def ascii_space_def)

lemma fromhex_hex_any:
  "list_all hex_any s \<Longrightarrow> even (length s) \<Longrightarrow>
     \<exists>bs. fromhex s = Some bs \<and> 2 * length bs = length s"
proof (induction s rule: induct_list012)
  case (3 c d s)
  then obtain bs h l where "fromhex s = Some bs" "2 * length bs = length s"
    "hex_val c = Some h" "hex_val d = Some l" "\<not> ascii_space c"
    using hex_any_val hex_any_not_space by fastforce
  then show ?case by simp
qed auto

section \<open>Big-endian integers\<close>

fun from_bytes :: "bytes \<Rightarrow> nat" where
  "from_bytes [] = 0"
| "from_bytes (b # bs) = nat_of b * 256 ^ length bs + from_bytes bs"

fun to_bytes_fixed :: "nat \<Rightarrow> nat \<Rightarrow> bytes" where
  "to_bytes_fixed 0 n = []"
| "to_bytes_fixed (Suc k) n = to_bytes_fixed k (n div 256) @ [byte_of (n mod 256)]"

text \<open>\<open>n.to_bytes(k, "big")\<close>, \<open>None\<close> the \<open>OverflowError\<close>.\<close>

definition to_bytes :: "nat \<Rightarrow> nat \<Rightarrow> bytes option" where
  "to_bytes k n = (if n < 256 ^ k then Some (to_bytes_fixed k n) else None)"

lemma length_to_bytes_fixed [simp]: "length (to_bytes_fixed k n) = k"
  by (induction k arbitrary: n) auto

lemma from_bytes_append:
  "from_bytes (xs @ ys) = from_bytes xs * 256 ^ length ys + from_bytes ys"
  by (induction xs) (auto simp: power_add algebra_simps)

lemma from_bytes_less: "from_bytes bs < 256 ^ length bs"
proof (induction bs)
  case (Cons b bs)
  have "nat_of b * 256 ^ length bs \<le> 255 * 256 ^ length bs"
    using nat_of_less[of b] by (intro mult_right_mono) simp_all
  from add_le_less_mono[OF this Cons] show ?case by simp
qed simp

lemma from_to_bytes_fixed [simp]: "from_bytes (to_bytes_fixed k n) = n mod 256 ^ k"
proof (induction k arbitrary: n)
  case (Suc k)
  have "256 * (n div 256 mod 256 ^ k) + n mod 256 = n mod (256 * 256 ^ k)"
    by (rule mod_mult2_eq[symmetric])
  then show ?case by (simp add: from_bytes_append Suc)
qed auto

lemma to_bytes_fixed_inj:
  "m < 256 ^ k \<Longrightarrow> n < 256 ^ k \<Longrightarrow> to_bytes_fixed k m = to_bytes_fixed k n \<longleftrightarrow> m = n"
  by (metis from_to_bytes_fixed mod_less)

lemma to_bytes_fixed_from [simp]: "to_bytes_fixed (length bs) (from_bytes bs) = bs"
proof (induction bs rule: rev_induct)
  case (snoc b bs)
  have "(from_bytes bs * 256 + nat_of b) div 256 = from_bytes bs"
    "(from_bytes bs * 256 + nat_of b) mod 256 = nat_of b"
    using nat_of_less[of b] by auto
  then show ?case using snoc by (simp add: from_bytes_append)
qed simp

section \<open>URL-safe base64\<close>

definition b64_char :: "nat \<Rightarrow> char" where
  "b64_char v = (if v < 26 then char_of (65 + v) else if v < 52 then char_of (71 + v)
     else if v < 62 then char_of (v - 4) else if v = 62 then CHR ''-'' else CHR ''_'')"

text \<open>The decoder's table, after \<open>-\<close> and \<open>_\<close> have been translated to \<open>+\<close> and \<open>/\<close>: both
  alphabets are read, and every other character is skipped.\<close>

definition b64_val :: "char \<Rightarrow> nat option" where
  "b64_val c = (if ascii_upper c then Some (code c - 65)
     else if ascii_lower c then Some (code c - 71)
     else if ascii_digit c then Some (code c + 4)
     else if c = CHR ''-'' \<or> c = CHR ''+'' then Some 62
     else if c = CHR ''_'' \<or> c = CHR ''/'' then Some 63
     else None)"

fun b64_encode :: "bytes \<Rightarrow> string" where
  "b64_encode [] = []"
| "b64_encode [a] = [b64_char (nat_of a div 4), b64_char (nat_of a mod 4 * 16)]"
| "b64_encode [a, b] = [b64_char (nat_of a div 4),
     b64_char (nat_of a mod 4 * 16 + nat_of b div 16), b64_char (nat_of b mod 16 * 4)]"
| "b64_encode (a # b # c # bs) = b64_char (nat_of a div 4)
     # b64_char (nat_of a mod 4 * 16 + nat_of b div 16)
     # b64_char (nat_of b mod 16 * 4 + nat_of c div 64)
     # b64_char (nat_of c mod 64) # b64_encode bs"

text \<open>\<open>urlsafe_b64encode(x).rstrip("=")\<close> is \<^const>\<open>b64_encode\<close>. The decoder keeps the position in
  the quad, the pads seen since the last data character and the bits left over; a pad that closes
  the quad ends the input.\<close>

fun b64_loop :: "nat \<Rightarrow> nat \<Rightarrow> nat \<Rightarrow> string \<Rightarrow> bytes option" where
  "b64_loop quad pads left [] = (if quad = 0 then Some [] else None)"
| "b64_loop quad pads left (c # cs) =
     (if c = CHR ''='' then
        (if 2 \<le> quad \<and> 4 \<le> quad + pads + 1 then Some []
         else b64_loop quad (if 2 \<le> quad then pads + 1 else pads) left cs)
      else (case b64_val c of
          None \<Rightarrow> b64_loop quad pads left cs
        | Some v \<Rightarrow>
            if quad = 0 then b64_loop 1 0 v cs
            else if quad = 1 then
              map_option ((#) (byte_of (left * 4 + v div 16))) (b64_loop 2 0 (v mod 16) cs)
            else if quad = 2 then
              map_option ((#) (byte_of (left * 16 + v div 4))) (b64_loop 3 0 (v mod 4) cs)
            else map_option ((#) (byte_of (left * 64 + v))) (b64_loop 0 0 0 cs)))"

text \<open>\<open>urlsafe_b64decode\<close> of a \<open>str\<close>; \<open>None\<close> is its \<open>ValueError\<close> (a character that is not ASCII, or
  a number of data characters and pads that closes no quad).\<close>

definition b64_decode :: "string \<Rightarrow> bytes option" where
  "b64_decode s = (if is_ascii s then b64_loop 0 0 0 s else None)"

definition b64_pad :: "string \<Rightarrow> string" where
  "b64_pad s = s @ replicate ((4 - length s mod 4) mod 4) (CHR ''='')"

lemma code_b64_char: "v < 64 \<Longrightarrow> code (b64_char v) =
    (if v < 26 then 65 + v else if v < 52 then 71 + v else if v < 62 then v - 4
     else if v = 62 then 45 else 95)"
  by (auto simp: b64_char_def)

lemma b64_val_char [simp]: "v < 64 \<Longrightarrow> b64_val (b64_char v) = Some v"
  by (cases "v < 52"; cases "v < 62")
    (auto simp: b64_val_def ascii_upper_def ascii_lower_def ascii_digit_def code_b64_char b64_char_def)

lemma b64_char_not_pad [simp]: "v < 64 \<Longrightarrow> b64_char v \<noteq> CHR ''=''"
proof
  assume "v < 64" "b64_char v = CHR ''=''"
  then have "b64_val (CHR ''='') = Some v" using b64_val_char[of v] by simp
  then show False by (simp add: b64_val_def ascii_upper_def ascii_lower_def ascii_digit_def)
qed

lemma sextets [simp]:
  "nat_of a div 4 < 64" "nat_of a mod 4 * 16 + nat_of b div 16 < 64" "nat_of a mod 4 * 16 < 64"
  "nat_of b mod 16 * 4 + nat_of c div 64 < 64" "nat_of b mod 16 * 4 < 64" "nat_of c mod 64 < 64"
  using nat_of_less[of a] nat_of_less[of b] nat_of_less[of c] by auto

lemma high_bits [simp]: "nat_of c div 64 div 4 = 0" "nat_of c div 64 mod 4 = nat_of c div 64"
  "nat_of b div 16 div 16 = 0" "nat_of b div 16 mod 16 = nat_of b div 16"
  using nat_of_less[of b] nat_of_less[of c] by (auto simp: div_mult2_eq[symmetric])

lemma regroup [simp]:
  "byte_of (nat_of a div 4 * 4 + (nat_of a mod 4 * 16 + nat_of b div 16) div 16) = a"
  "byte_of (nat_of a div 4 * 4 + nat_of a mod 4 * 16 div 16) = a"
  "byte_of ((nat_of a mod 4 * 16 + nat_of b div 16) mod 16 * 16
     + (nat_of b mod 16 * 4 + nat_of c div 64) div 4) = b"
  "byte_of ((nat_of a mod 4 * 16 + nat_of b div 16) mod 16 * 16 + nat_of b mod 16 * 4 div 4) = b"
  "byte_of ((nat_of b mod 16 * 4 + nat_of c div 64) mod 4 * 64 + nat_of c mod 64) = c"
  by (simp_all add: mult.commute[of _ "16::nat"])

lemma b64_loop_encode:
  "b64_loop 0 0 0 (b64_encode bs @ replicate ((4 - length (b64_encode bs) mod 4) mod 4) (CHR ''=''))
     = Some bs"
  by (induction bs rule: b64_encode.induct) (simp_all add: numeral_2_eq_2)

lemma b64_encode_ascii: "is_ascii (b64_encode bs)"
proof -
  have "code (b64_char v) < 128" if "v < 64" for v using that by (auto simp: code_b64_char)
  then show ?thesis
    by (induction bs rule: b64_encode.induct) (simp_all add: is_ascii_def)
qed

lemma b64_decode_encode: "b64_decode (b64_pad (b64_encode bs)) = Some bs"
proof -
  have "is_ascii (b64_pad (b64_encode bs))"
    using b64_encode_ascii[of bs] by (simp add: b64_pad_def is_ascii_def list_all_iff Ball_def)
  then show ?thesis by (simp add: b64_decode_def b64_pad_def b64_loop_encode)
qed

end
