(* ===== verification/Json.thy ===== *)
theory Json
  imports Values Codec
begin

text \<open>
  \<open>json.dumps(v, sort_keys=True, separators=(",", ":"))\<close> and \<open>json.loads\<close>. Strings are escaped to
  ASCII as \<open>ensure_ascii\<close> does. The parser is CPython's, with a fuel argument that bounds its
  recursion; \<open>2 * length s + 1\<close> is always enough (\<open>p_val_fuel\<close>). An escape naming a code point above
  255, which the model's strings cannot hold, is the separate error \<open>JsonUnmodelled\<close>; the
  interpreter's recursion limit is not modelled. The text of a float is turned into its shortest
  representation by the parameter \<open>fl\<close>.
\<close>

datatype json_error = JsonMalformed | JsonUnmodelled | JsonFuel

section \<open>Printing\<close>

definition esc_char :: "char \<Rightarrow> string" where
  "esc_char c = (if c = CHR 0x22 then [CHR 0x5C, CHR 0x22]
     else if c = CHR 0x5C then [CHR 0x5C, CHR 0x5C]
     else if code c = 10 then [CHR 0x5C, CHR ''n'']
     else if code c = 13 then [CHR 0x5C, CHR ''r'']
     else if code c = 9 then [CHR 0x5C, CHR ''t'']
     else if code c = 12 then [CHR 0x5C, CHR ''f'']
     else if code c = 8 then [CHR 0x5C, CHR ''b'']
     else if code c < 32 \<or> 126 < code c then
       [CHR 0x5C, CHR ''u'', CHR ''0'', CHR ''0'', hex_digit (code c div 16), hex_digit (code c mod 16)]
     else [c])"

definition esc_str :: "string \<Rightarrow> string" where
  "esc_str s = concat (map esc_char s)"

definition json_str :: "string \<Rightarrow> string" where
  "json_str s = CHR 0x22 # esc_str s @ [CHR 0x22]"

definition json_member :: "string \<times> string \<Rightarrow> string" where
  "json_member p = json_str (fst p) @ '':'' @ snd p"

fun json_dumps :: "pyval \<Rightarrow> string"
  and dumps_list :: "pyval list \<Rightarrow> string list"
  and dumps_items :: "(string \<times> pyval) list \<Rightarrow> (string \<times> string) list" where
  "json_dumps PNone = ''null''"
| "json_dumps (PBool b) = (if b then ''true'' else ''false'')"
| "json_dumps (PInt i) = str_int i"
| "json_dumps (PFloat t) = (if t = ''nan'' then ''NaN'' else if t = ''inf'' then ''Infinity''
     else if t = ''-inf'' then ''-Infinity'' else t)"
| "json_dumps (PStr s) = json_str s"
| "json_dumps (PList vs) = ''['' @ join_with '','' (dumps_list vs) @ '']''"
| "json_dumps (PDict d) = CHR ''{'' # join_with '','' (map json_member (sort_key fst (dumps_items d))) @ ''}''"
| "dumps_list [] = []"
| "dumps_list (v # vs) = json_dumps v # dumps_list vs"
| "dumps_items [] = []"
| "dumps_items (kv # d) = (fst kv, json_dumps (snd kv)) # dumps_items d"

section \<open>Parsing\<close>

definition json_space :: "char \<Rightarrow> bool" where
  "json_space c \<longleftrightarrow> code c = 32 \<or> code c = 9 \<or> code c = 10 \<or> code c = 13"

definition skip :: "string \<Rightarrow> string" where
  "skip = dropWhile json_space"

definition unesc :: "char \<Rightarrow> char option" where
  "unesc c = (if c = CHR 0x22 \<or> c = CHR 0x5C \<or> c = CHR ''/'' then Some c
     else if c = CHR ''n'' then Some (char_of (10 :: nat))
     else if c = CHR ''r'' then Some (char_of (13 :: nat))
     else if c = CHR ''t'' then Some (char_of (9 :: nat))
     else if c = CHR ''f'' then Some (char_of (12 :: nat))
     else if c = CHR ''b'' then Some (char_of (8 :: nat))
     else None)"

definition hex4 :: "char \<Rightarrow> char \<Rightarrow> char \<Rightarrow> char \<Rightarrow> nat option" where
  "hex4 a b c d = (case (hex_val a, hex_val b, hex_val c, hex_val d) of
     (Some h, Some i, Some j, Some k) \<Rightarrow> Some (((h * 16 + i) * 16 + j) * 16 + k)
   | _ \<Rightarrow> None)"

definition cons_res :: "char \<Rightarrow> json_error + string \<times> string \<Rightarrow> json_error + string \<times> string" where
  "cons_res c r = (case r of Inl e \<Rightarrow> Inl e | Inr (s, rest) \<Rightarrow> Inr (c # s, rest))"

text \<open>The body of a string, after its opening quote.\<close>

fun p_str :: "string \<Rightarrow> json_error + string \<times> string" where
  "p_str [] = Inl JsonMalformed"
| "p_str (x # xs) =
     (if x = CHR 0x22 then Inr ([], xs)
      else if x = CHR 0x5C then
        (case xs of [] \<Rightarrow> Inl JsonMalformed
         | e # es \<Rightarrow>
             if e = CHR ''u'' then
               (case es of a # b # c # d # rest \<Rightarrow>
                  (case hex4 a b c d of None \<Rightarrow> Inl JsonMalformed
                   | Some n \<Rightarrow> if n < 256 then cons_res (char_of n) (p_str rest) else Inl JsonUnmodelled)
                | _ \<Rightarrow> Inl JsonMalformed)
             else (case unesc e of None \<Rightarrow> Inl JsonMalformed | Some y \<Rightarrow> cons_res y (p_str es)))
      else if code x < 32 then Inl JsonMalformed
      else cons_res x (p_str xs))"

text \<open>An optional fraction and exponent: the text they take, empty when absent or incomplete.\<close>

definition p_frac :: "string \<Rightarrow> string" where
  "p_frac s = (case s of c # cs \<Rightarrow>
     if c = CHR ''.'' \<and> takeWhile ascii_digit cs \<noteq> [] then c # takeWhile ascii_digit cs else []
   | [] \<Rightarrow> [])"

definition p_exp :: "string \<Rightarrow> string" where
  "p_exp s = (case s of c # cs \<Rightarrow>
     if c = CHR ''e'' \<or> c = CHR ''E'' then
       (case cs of d # ds \<Rightarrow>
          if (d = CHR ''+'' \<or> d = CHR ''-'') \<and> takeWhile ascii_digit ds \<noteq> []
          then c # d # takeWhile ascii_digit ds
          else if takeWhile ascii_digit cs \<noteq> [] then c # takeWhile ascii_digit cs else []
        | [] \<Rightarrow> [])
     else []
   | [] \<Rightarrow> [])"

definition p_digits :: "string \<Rightarrow> string" where
  "p_digits s = (if startswith s ''0'' then ''0'' else takeWhile ascii_digit s)"

definition p_num :: "(string \<Rightarrow> string) \<Rightarrow> string \<Rightarrow> json_error + pyval \<times> string" where
  "p_num fl s =
     (let neg = startswith s ''-''; body = (if neg then tl s else s);
          digits = p_digits body;
          rest = drop (length digits) body;
          frac = p_frac rest; ex = p_exp (drop (length frac) rest);
          rest' = drop (length frac + length ex) rest
      in if digits = [] then Inl JsonMalformed
         else if frac @ ex \<noteq> [] then
           Inr (PFloat (fl ((if neg then ''-'' else []) @ digits @ frac @ ex)), rest')
         else if 4300 < length digits then Inl JsonMalformed
         else Inr (PInt (if neg then - int (nat_of_digits digits) else int (nat_of_digits digits)), rest'))"

definition p_word :: "(string \<Rightarrow> string) \<Rightarrow> string \<Rightarrow> json_error + pyval \<times> string" where
  "p_word fl s =
     (if startswith s ''null'' then Inr (PNone, drop 4 s)
      else if startswith s ''true'' then Inr (PBool True, drop 4 s)
      else if startswith s ''false'' then Inr (PBool False, drop 5 s)
      else if startswith s ''NaN'' then Inr (PFloat ''nan'', drop 3 s)
      else if startswith s ''Infinity'' then Inr (PFloat ''inf'', drop 8 s)
      else if startswith s ''-Infinity'' then Inr (PFloat ''-inf'', drop 9 s)
      else p_num fl s)"

fun p_val :: "(string \<Rightarrow> string) \<Rightarrow> nat \<Rightarrow> string \<Rightarrow> json_error + pyval \<times> string"
  and p_elems :: "(string \<Rightarrow> string) \<Rightarrow> nat \<Rightarrow> string \<Rightarrow> json_error + pyval list \<times> string"
  and p_members :: "(string \<Rightarrow> string) \<Rightarrow> nat \<Rightarrow> string \<Rightarrow> (string, pyval) dict
        \<Rightarrow> json_error + (string, pyval) dict \<times> string" where
  "p_val fl 0 s = Inl JsonFuel"
| "p_val fl (Suc n) s = (case s of
       [] \<Rightarrow> Inl JsonMalformed
     | c # cs \<Rightarrow>
         if c = CHR 0x22 then (case p_str cs of Inl e \<Rightarrow> Inl e | Inr (t, r) \<Rightarrow> Inr (PStr t, r))
         else if c = CHR ''['' then
           (if startswith (skip cs) '']'' then Inr (PList [], tl (skip cs))
            else (case p_elems fl n (skip cs) of Inl e \<Rightarrow> Inl e | Inr (vs, r) \<Rightarrow> Inr (PList vs, r)))
         else if c = CHR ''{'' then
           (if startswith (skip cs) ''}'' then Inr (PDict [], tl (skip cs))
            else (case p_members fl n (skip cs) [] of Inl e \<Rightarrow> Inl e | Inr (d, r) \<Rightarrow> Inr (PDict d, r)))
         else p_word fl s)"
| "p_elems fl 0 s = Inl JsonFuel"
| "p_elems fl (Suc n) s = (case p_val fl n s of
       Inl e \<Rightarrow> Inl e
     | Inr (v, r) \<Rightarrow> (case skip r of
           [] \<Rightarrow> Inl JsonMalformed
         | c # cs \<Rightarrow>
             if c = CHR '']'' then Inr ([v], cs)
             else if c = CHR '','' then
               (case p_elems fl n (skip cs) of Inl e \<Rightarrow> Inl e | Inr (vs, r') \<Rightarrow> Inr (v # vs, r'))
             else Inl JsonMalformed))"
| "p_members fl 0 s acc = Inl JsonFuel"
| "p_members fl (Suc n) s acc = (case s of
       [] \<Rightarrow> Inl JsonMalformed
     | q # qs \<Rightarrow>
         if q \<noteq> CHR 0x22 then Inl JsonMalformed
         else (case p_str qs of
           Inl e \<Rightarrow> Inl e
         | Inr (k, r) \<Rightarrow> (case skip r of
             [] \<Rightarrow> Inl JsonMalformed
           | c # cs \<Rightarrow>
               if c \<noteq> CHR '':'' then Inl JsonMalformed
               else (case p_val fl n (skip cs) of
                 Inl e \<Rightarrow> Inl e
               | Inr (v, r') \<Rightarrow> (case skip r' of
                   [] \<Rightarrow> Inl JsonMalformed
                 | d # ds \<Rightarrow>
                     if d = CHR ''}'' then Inr (dict_set k v acc, ds)
                     else if d = CHR '','' then p_members fl n (skip ds) (dict_set k v acc)
                     else Inl JsonMalformed)))))"

definition json_loads :: "(string \<Rightarrow> string) \<Rightarrow> string \<Rightarrow> json_error + pyval" where
  "json_loads fl s = (case p_val fl (2 * length s + 1) (skip s) of
     Inl e \<Rightarrow> Inl e
   | Inr (v, r) \<Rightarrow> if skip r = [] then Inr v else Inl JsonMalformed)"

section \<open>The fuel is enough\<close>

lemma length_skip: "length (skip s) \<le> length s"
  by (simp add: skip_def length_dropWhile_le)

lemma skip_Cons_length: "skip s = c # cs \<Longrightarrow> length cs < length s"
  using length_skip[of s] by simp

lemma cons_res_Inl [simp]: "cons_res c r = Inl e \<longleftrightarrow> r = Inl e"
  by (auto simp: cons_res_def split: sum.splits)

lemma cons_res_Inr [simp]: "cons_res c r = Inr (t, rest) \<longleftrightarrow> (\<exists>u. r = Inr (u, rest) \<and> t = c # u)"
  by (auto simp: cons_res_def split: sum.splits)

lemma p_str_step:
  "p_str (x # xs) = Inl JsonMalformed \<or> p_str (x # xs) = Inl JsonUnmodelled
     \<or> p_str (x # xs) = Inr ([], xs)
     \<or> (\<exists>y ys. length ys \<le> length xs \<and> p_str (x # xs) = cons_res y (p_str ys))"
proof -
  have step: ?thesis if "p_str (x # xs) = cons_res y (p_str ys)" "length ys \<le> length xs" for y ys
    using that by blast
  consider "x = CHR 0x22" | "x = CHR 0x5C" "xs = []"
    | e es where "x = CHR 0x5C" "xs = e # es" "e \<noteq> CHR ''u''"
    | es where "x = CHR 0x5C" "xs = CHR ''u'' # es"
    | "x \<noteq> CHR 0x22" "x \<noteq> CHR 0x5C"
    by (cases xs) auto
  then show ?thesis
  proof cases
    case (3 e es)
    then show ?thesis
      by (cases "unesc e") (simp, intro step[of _ es], simp_all)
  next
    case (4 es)
    show ?thesis
    proof (cases "\<exists>a b c d rest. es = a # b # c # d # rest")
      case True
      then obtain a b c d rest where es: "es = a # b # c # d # rest" by blast
      show ?thesis
      proof (cases "\<exists>n < 256. hex4 a b c d = Some n")
        case True
        then show ?thesis using 4 es by (intro step[of "char_of (the (hex4 a b c d))" rest]) auto
      next
        case False
        then show ?thesis using 4 es by (auto split: option.splits)
      qed
    next
      case False
      then show ?thesis using 4 by (auto split: list.splits)
    qed
  next
    case 5
    then show ?thesis by (cases "code x < 32") (simp, intro step[of x xs], simp_all)
  qed simp_all
qed

lemma p_str_shorter: "p_str s = Inr (t, r) \<Longrightarrow> length r < length s"
proof (induction s arbitrary: t r rule: length_induct)
  case (1 s)
  show ?case
  proof (cases s)
    case Nil
    then show ?thesis using 1(2) by simp
  next
    case (Cons x xs)
    have res: "p_str (x # xs) = Inr (t, r)" using 1(2) Cons by simp
    from p_str_step[of x xs, unfolded res] consider "r = xs"
      | y ys where "length ys \<le> length xs" "cons_res y (p_str ys) = Inr (t, r)" by (metis Inr_inject Pair_inject sum.distinct(1))
    then show ?thesis
    proof cases
      case (2 y ys)
      then obtain u where "p_str ys = Inr (u, r)" by auto
      then have "length r < length ys" using 1(1) 2 Cons by simp
      then show ?thesis using 2 Cons by simp
    qed (simp add: Cons)
  qed
qed

lemma p_str_no_fuel: "p_str s \<noteq> Inl JsonFuel"
proof (induction s rule: length_induct)
  case (1 s)
  show ?case
  proof (cases s)
    case (Cons x xs)
    from p_str_step[of x xs] consider "p_str s = Inl JsonMalformed \<or> p_str s = Inl JsonUnmodelled
        \<or> p_str s = Inr ([], xs)"
      | y ys where "length ys \<le> length xs" "p_str s = cons_res y (p_str ys)" using Cons by blast
    then show ?thesis
    proof cases
      case (2 y ys)
      then show ?thesis using 1 Cons by simp
    qed auto
  qed simp
qed

lemma p_num_shorter: "p_num fl s = Inr (v, r) \<Longrightarrow> length r < length s"
proof -
  assume a: "p_num fl s = Inr (v, r)"
  define body where "body = (if startswith s ''-'' then tl s else s)"
  define digits where "digits = p_digits body"
  have nz: "digits \<noteq> [] \<and> length r \<le> length (drop (length digits) body)"
    using a unfolding p_num_def Let_def body_def[symmetric] digits_def[symmetric]
    by (auto split: if_splits)
  then have "body \<noteq> []" by (auto simp: digits_def p_digits_def startswith_def split: if_splits)
  then have "0 < length body" by simp
  moreover have "0 < length digits" using nz by simp
  moreover have "length body \<le> length s" by (simp add: body_def)
  moreover have "length r \<le> length body - length digits" using nz by simp
  ultimately show ?thesis by linarith
qed

lemma p_word_shorter: "p_word fl s = Inr (v, r) \<Longrightarrow> length r < length s"
  using p_num_shorter[of fl s v r]
  by (cases "s = []") (auto simp: p_word_def startswith_def split: if_splits)

lemma p_word_no_fuel: "p_word fl s \<noteq> Inl JsonFuel"
  by (simp add: p_word_def p_num_def Let_def)

lemma p_val_shorter:
  "p_val fl n s = Inr (v, r) \<Longrightarrow> length r < length s"
  "p_elems fl n s = Inr (vs, r) \<Longrightarrow> length r < length s"
  "p_members fl n s acc = Inr (d, r) \<Longrightarrow> length r < length s"
proof (induction n arbitrary: s v r vs acc d)
  case 0
  { case 1 then show ?case by simp }
  { case 2 then show ?case by simp }
  { case 3 then show ?case by simp }
next
  case (Suc n)
  { case 1
    then obtain c cs where s: "s = c # cs" by (auto split: list.splits)
    show ?case
    proof (cases "c = CHR 0x22 \<or> c = CHR ''['' \<or> c = CHR ''{''")
      case True
      have "length r < length (skip cs) \<or> r = tl (skip cs) \<or> length r < length cs"
        using 1 True unfolding s
        by (auto split: if_splits sum.splits dest: Suc.IH(2,3) p_str_shorter)
      then show ?thesis using length_skip[of cs] s by auto
    next
      case False
      then have "p_word fl s = Inr (v, r)" using 1 by (simp add: s)
      then show ?thesis by (rule p_word_shorter)
    qed }
  { case 2
    then obtain v r' c cs where v: "p_val fl n s = Inr (v, r')" and c: "skip r' = c # cs"
      by (auto split: sum.splits list.splits)
    have l: "length r' < length s" by (rule Suc.IH(1)[OF v])
    have "r = cs \<or> length r < length (skip cs)"
      using 2 v c by (auto split: if_splits sum.splits dest: Suc.IH(2))
    then show ?case using l skip_Cons_length[OF c] length_skip[of cs] by auto }
  { case 3
    then obtain qs where s: "s = CHR 0x22 # qs" by (auto split: list.splits if_splits)
    with 3 obtain k r1 c cs where k: "p_str qs = Inr (k, r1)" "skip r1 = CHR '':'' # cs"
      by (auto split: sum.splits list.splits if_splits)
    with 3 s obtain v r2 e es where v: "p_val fl n (skip cs) = Inr (v, r2)" "skip r2 = e # es"
      by (auto split: sum.splits list.splits)
    have "r = es \<or> length r < length (skip es)"
      using 3 s k v by (auto split: if_splits dest: Suc.IH(3))
    moreover have "length es < length s"
      using s p_str_shorter[OF k(1)] skip_Cons_length[OF k(2)] length_skip[of cs]
        Suc.IH(1)[OF v(1)] skip_Cons_length[OF v(2)] by simp
    ultimately show ?case using length_skip[of es] by auto }
qed

lemma p_val_fuel:
  "2 * length s < n \<Longrightarrow> p_val fl n s \<noteq> Inl JsonFuel"
  "2 * length s + 1 < n \<Longrightarrow> p_elems fl n s \<noteq> Inl JsonFuel"
  "2 * length s + 1 < n \<Longrightarrow> p_members fl n s acc \<noteq> Inl JsonFuel"
proof (induction n arbitrary: s acc)
  case (Suc n)
  { case 1
    show ?case
    proof (cases s)
      case (Cons c cs)
      have "2 * length (skip cs) + 1 < n" using 1 Cons length_skip[of cs] by simp
      then have "p_elems fl n (skip cs) \<noteq> Inl JsonFuel" "p_members fl n (skip cs) [] \<noteq> Inl JsonFuel"
        using Suc.IH(2,3) by blast+
      then show ?thesis using Cons p_str_no_fuel[of cs] p_word_no_fuel[of fl s]
        by (auto split: sum.splits)
    qed simp }
  { case 2
    have v: "p_val fl n s \<noteq> Inl JsonFuel" using 2 by (intro Suc.IH(1)) simp
    have rest: "p_elems fl n (skip cs) \<noteq> Inl JsonFuel"
      if "p_val fl n s = Inr (w, r)" "skip r = c # cs" for w r c cs
      using 2 p_val_shorter(1)[OF that(1)] skip_Cons_length[OF that(2)] length_skip[of cs]
      by (intro Suc.IH(2)) simp
    show ?case
    proof (cases "p_val fl n s")
      case (Inr wr)
      then obtain w r where wr: "p_val fl n s = Inr (w, r)" by (cases wr) auto
      then show ?thesis
        by (cases "skip r") (auto dest: rest[OF wr] split: sum.splits)
    qed (use v in auto) }
  { case 3
    show ?case
    proof (rule notI)
      assume bad: "p_members fl (Suc n) s acc = Inl JsonFuel"
      then obtain qs where s: "s = CHR 0x22 # qs" by (auto split: list.splits if_splits)
      with bad p_str_no_fuel[of qs] obtain k r1 cs
        where k: "p_str qs = Inr (k, r1)" "skip r1 = CHR '':'' # cs"
        by (auto split: sum.splits list.splits if_splits)
      have cs: "length (skip cs) < length s"
        using s p_str_shorter[OF k(1)] skip_Cons_length[OF k(2)] length_skip[of cs] by simp
      then have "p_val fl n (skip cs) \<noteq> Inl JsonFuel" using 3 by (intro Suc.IH(1)) simp
      with bad s k obtain v r2 e es where v: "p_val fl n (skip cs) = Inr (v, r2)" "skip r2 = e # es"
        by (auto split: sum.splits list.splits)
      have "length (skip es) < length s"
        using cs p_val_shorter(1)[OF v(1)] skip_Cons_length[OF v(2)] length_skip[of es] by simp
      then have "p_members fl n (skip es) (dict_set k v acc) \<noteq> Inl JsonFuel"
        using 3 by (intro Suc.IH(3)) simp
      then show False using bad s k v by (auto split: if_splits)
    qed }
qed simp_all

lemma json_loads_no_fuel: "json_loads fl s \<noteq> Inl JsonFuel"
  using p_val_fuel(1)[of "skip s" "2 * length s + 1" fl] length_skip[of s]
  by (auto simp: json_loads_def split: sum.splits)

section \<open>Parsing what was printed\<close>

text \<open>What parsing a printed value gives back: every dictionary in the order of its keys.\<close>

fun norm_json :: "pyval \<Rightarrow> pyval"
  and norm_list :: "pyval list \<Rightarrow> pyval list"
  and norm_items :: "(string \<times> pyval) list \<Rightarrow> (string \<times> pyval) list" where
  "norm_json (PList vs) = PList (norm_list vs)"
| "norm_json (PDict d) = PDict (sort_key fst (norm_items d))"
| "norm_json v = v"
| "norm_list [] = []"
| "norm_list (v # vs) = norm_json v # norm_list vs"
| "norm_items [] = []"
| "norm_items (kv # d) = (fst kv, norm_json (snd kv)) # norm_items d"

text \<open>Values without floats, with integers short enough to read back, and dictionaries with
  distinct keys.\<close>

fun json_plain :: "pyval \<Rightarrow> bool"
  and plain_list :: "pyval list \<Rightarrow> bool"
  and plain_items :: "(string \<times> pyval) list \<Rightarrow> bool" where
  "json_plain (PFloat t) = False"
| "json_plain (PInt i) = (length (str_int i) \<le> 4300)"
| "json_plain (PList vs) = plain_list vs"
| "json_plain (PDict d) = (distinct (map fst d) \<and> plain_items d)"
| "json_plain _ = True"
| "plain_list [] = True"
| "plain_list (v # vs) = (json_plain v \<and> plain_list vs)"
| "plain_items [] = True"
| "plain_items (kv # d) = (json_plain (snd kv) \<and> plain_items d)"

lemma hex4_esc: "hex4 (CHR ''0'') (CHR ''0'') (hex_digit (code c div 16)) (hex_digit (code c mod 16))
    = Some (code c)"
proof -
  have "code c div 16 < 16" "code c mod 16 < 16" by (simp_all add: less_mult_imp_div_less)
  then show ?thesis by (simp add: hex4_def) (simp add: hex_val_def ascii_digit_def)
qed

lemma p_str_esc_char: "p_str (esc_char c @ s) = cons_res c (p_str s)"
proof -
  have "char_of (code c) = c" by simp
  then show ?thesis
    by (auto simp: esc_char_def unesc_def hex4_esc) (metis char_of_code)+
qed

lemma p_str_esc: "p_str (esc_str t @ CHR 0x22 # s) = Inr (t, s)"
  by (induction t) (simp_all add: esc_str_def p_str_esc_char)

definition json_stop :: "string \<Rightarrow> bool" where
  "json_stop r \<longleftrightarrow> r = [] \<or> hd r = CHR '','' \<or> hd r = CHR '']'' \<or> hd r = CHR ''}''"

lemma json_stopI [simp]: "json_stop []" "json_stop (CHR '','' # r)" "json_stop (CHR '']'' # r)"
  "json_stop (CHR ''}'' # r)"
  by (simp_all add: json_stop_def)

lemma json_stop_digit: "json_stop r \<Longrightarrow> r = [] \<or> \<not> ascii_digit (hd r)"
  by (auto simp: json_stop_def ascii_digit_def)

lemma json_stop_frac: "json_stop r \<Longrightarrow> p_frac r = [] \<and> p_exp r = []"
  by (cases r) (auto simp: json_stop_def p_frac_def p_exp_def)

lemma takeWhile_digits:
  "list_all ascii_digit ds \<Longrightarrow> json_stop r \<Longrightarrow> takeWhile ascii_digit (ds @ r) = ds"
  using json_stop_digit[of r] by (induction ds) (auto simp: takeWhile_eq_Nil_iff)

lemma str_nat_lead_zero: "hd (str_nat n) = CHR ''0'' \<longleftrightarrow> n = 0"
proof (induction n rule: str_nat.induct)
  case (1 n)
  show ?case
  proof (cases "n < 10")
    case True
    have "digit_char n = CHR ''0'' \<longleftrightarrow> code (digit_char n) = code (CHR ''0'')"
      by (simp only: of_char_eq_iff)
    then have "digit_char n = CHR ''0'' \<longleftrightarrow> n = 0" using True by (simp add: code_digit_char)
    then show ?thesis using True by (subst str_nat.simps) simp
  next
    case False
    then show ?thesis using 1 by (subst str_nat.simps) simp
  qed
qed

lemma startswith_char: "startswith s [c] \<longleftrightarrow> s \<noteq> [] \<and> hd s = c"
  by (cases s) (auto simp: startswith_def)

lemma startswith_minus: "startswith (CHR ''-'' # s) ''-''"
  by (simp add: startswith_def)

lemma p_num_nat_digits:
  assumes "json_stop r"
  shows "p_digits (str_nat n @ r) = str_nat n"
proof (cases "n = 0")
  case True
  then have "hd (str_nat n) = CHR ''0''" "length (str_nat n) = 1"
    using str_nat_lead_zero[of n] by (simp_all add: str_nat.simps[of 0])
  then have "str_nat n = ''0''" by (cases "str_nat n") auto
  then show ?thesis by (simp add: p_digits_def startswith_char)
next
  case False
  then show ?thesis
    using str_nat_lead_zero[of n] takeWhile_digits[OF str_nat_digits assms] by (simp add: p_digits_def startswith_char)
qed

lemma p_num_str_int:
  assumes "json_stop r" and "length (str_int i) \<le> 4300"
  shows "p_num fl (str_int i @ r) = Inr (PInt i, r)"
proof (cases "i < 0")
  case True
  then show ?thesis
    using json_stop_frac[OF assms(1)] assms(2)
    by (simp add: p_num_def str_int_def Let_def p_num_nat_digits[OF assms(1)] startswith_minus)
next
  case False
  then have "\<not> startswith (str_int i @ r) ''-''"
    using str_nat_hd_not_minus[of "nat i"] by (simp add: startswith_char str_int_def)
  then show ?thesis
    using False json_stop_frac[OF assms(1)] assms(2)
    by (simp add: p_num_def str_int_def Let_def p_num_nat_digits[OF assms(1)])
qed

lemma hd_str_int:
  "hd (str_int i) = CHR ''-'' \<and> ascii_digit (hd (tl (str_int i))) \<or> ascii_digit (hd (str_int i))"
proof -
  have "ascii_digit (hd (str_nat n))" for n
    using str_nat_digits[of n] by (cases "str_nat n") auto
  then show ?thesis by (auto simp: str_int_def)
qed

lemma str_int_not_Nil [simp]: "str_int i \<noteq> []"
  by (simp add: str_int_def)

lemma p_word_str_int:
  assumes "json_stop r" and "length (str_int i) \<le> 4300"
  shows "p_word fl (str_int i @ r) = Inr (PInt i, r)"
proof -
  obtain c cs where c: "str_int i = c # cs" by (cases "str_int i") auto
  have "c \<noteq> CHR ''n'' \<and> c \<noteq> CHR ''t'' \<and> c \<noteq> CHR ''f'' \<and> c \<noteq> CHR ''N'' \<and> c \<noteq> CHR ''I''
     \<and> (c = CHR ''-'' \<longrightarrow> cs \<noteq> [] \<and> hd cs \<noteq> CHR ''I'')"
    using hd_str_int[of i] str_nat_not_Nil[of "nat (- i)"] c str_nat_hd_not_minus[of "nat i"]
    by (auto simp: ascii_digit_def str_int_def split: if_splits)
  then have "\<not> startswith (str_int i @ r) ''null'' \<and> \<not> startswith (str_int i @ r) ''true''
     \<and> \<not> startswith (str_int i @ r) ''false'' \<and> \<not> startswith (str_int i @ r) ''NaN''
     \<and> \<not> startswith (str_int i @ r) ''Infinity'' \<and> \<not> startswith (str_int i @ r) ''-Infinity''"
    by (cases cs) (auto simp: startswith_def c)
  then show ?thesis using p_num_str_int[OF assms] by (simp add: p_word_def)
qed

lemma skip_stop [simp]: "json_stop r \<Longrightarrow> skip r = r"
  by (cases r) (auto simp: skip_def json_stop_def json_space_def)

text \<open>The first character of a printed value: never white space, and never a bracket that would
  end an empty list.\<close>

lemma hd_dumps:
  "json_plain v \<Longrightarrow> json_dumps v \<noteq> [] \<and> \<not> json_space (hd (json_dumps v))
     \<and> hd (json_dumps v) \<noteq> CHR '']''"
proof (cases v)
  case (PInt i)
  show ?thesis using hd_str_int[of i] PInt by (auto simp: json_space_def ascii_digit_def)
qed (auto simp: json_str_def json_space_def)

lemma skip_dumps [simp]: "json_plain v \<Longrightarrow> skip (json_dumps v @ r) = json_dumps v @ r"
  using hd_dumps[of v] by (cases "json_dumps v") (auto simp: skip_def)

declare p_val.simps [simp del] p_elems.simps [simp del] p_members.simps [simp del]

definition parses :: "(string \<Rightarrow> string) \<Rightarrow> pyval \<Rightarrow> bool" where
  "parses fl v \<longleftrightarrow> (\<forall>n r. 2 * length (json_dumps v) \<le> n \<longrightarrow> json_stop r \<longrightarrow>
     p_val fl (Suc n) (json_dumps v @ r) = Inr (norm_json v, r))"

lemma dumps_list_map: "dumps_list vs = map json_dumps vs"
  by (induction vs) auto

lemma norm_list_map: "norm_list vs = map norm_json vs"
  by (induction vs) auto

lemma dumps_items_map: "dumps_items d = map (\<lambda>kv. (fst kv, json_dumps (snd kv))) d"
  by (induction d) auto

lemma norm_items_map: "norm_items d = map (\<lambda>kv. (fst kv, norm_json (snd kv))) d"
  by (induction d) auto

lemma plain_list_iff: "plain_list vs \<longleftrightarrow> (\<forall>v \<in> set vs. json_plain v)"
  by (induction vs) auto

lemma plain_items_iff: "plain_items d \<longleftrightarrow> (\<forall>kv \<in> set d. json_plain (snd kv))"
  by (induction d) auto

lemma sort_key_map_fst:
  assumes "\<And>x. fst (f x) = fst x"
  shows "sort_key fst (map f xs) = map f (sort_key fst xs)"
proof -
  have "insort_key fst (f x) (map f ys) = map f (insort_key fst x ys)" for x ys
    by (induction ys) (simp_all add: assms)
  then show ?thesis by (induction xs) simp_all
qed

lemma p_elems_dumps:
  assumes "vs \<noteq> []" and "\<forall>v \<in> set vs. parses fl v \<and> json_plain v"
    and "2 * length (join_with '','' (map json_dumps vs)) < n"
  shows "p_elems fl (Suc n) (join_with '','' (map json_dumps vs) @ CHR '']'' # r) = Inr (map norm_json vs, r)"
  using assms
proof (induction vs arbitrary: n)
  case (Cons v vs)
  obtain m where m: "n = Suc m" using Cons.prems(3) by (cases n) auto
  show ?case
  proof (cases "vs = []")
    case True
    have "p_val fl (Suc m) (json_dumps v @ CHR '']'' # r) = Inr (norm_json v, CHR '']'' # r)"
      using Cons.prems True m by (auto simp: parses_def)
    then show ?thesis using True m by (simp add: p_elems.simps)
  next
    case False
    let ?rest = "join_with '','' (map json_dumps vs) @ CHR '']'' # r"
    have j: "join_with '','' (map json_dumps (v # vs)) = json_dumps v @ CHR '','' # join_with '','' (map json_dumps vs)"
      using False by (cases vs) auto
    have v: "p_val fl (Suc m) (json_dumps v @ CHR '','' # ?rest) = Inr (norm_json v, CHR '','' # ?rest)"
      using Cons.prems m j by (auto simp: parses_def)
    have "skip ?rest = ?rest"
      using False Cons.prems(2) by (cases vs; cases "tl vs") auto
    moreover have "p_elems fl (Suc m) ?rest = Inr (map norm_json vs, r)"
      using Cons.prems m j False by (intro Cons.IH) auto
    ultimately show ?thesis using v m j by (simp add: p_elems.simps)
  qed
qed simp

lemma p_members_dumps:
  assumes "d \<noteq> []" and "\<forall>kv \<in> set d. parses fl (snd kv) \<and> json_plain (snd kv)"
    and "distinct (map fst acc @ map fst d)"
    and "2 * length (join_with '','' (map json_member (dumps_items d))) < n"
  shows "p_members fl (Suc n) (join_with '','' (map json_member (dumps_items d)) @ CHR ''}'' # r) acc
    = Inr (acc @ norm_items d, r)"
  using assms
proof (induction d arbitrary: n acc)
  case (Cons kv d)
  obtain k v where kv: "kv = (k, v)" by (cases kv)
  have new: "dict_set k w acc = acc @ [(k, w)]" for w
    using Cons.prems(3) kv by (intro dict_set_not_in) auto
  obtain m where m: "n = Suc m" using Cons.prems(4) by (cases n) auto
  have member: "json_member (k, json_dumps v) @ s =
      CHR 0x22 # esc_str k @ CHR 0x22 # CHR '':'' # json_dumps v @ s" for s
    by (simp add: json_member_def json_str_def)
  have colon: "skip (CHR '':'' # s) = CHR '':'' # s" for s by (simp add: skip_def json_space_def)
  have val: "p_val fl (Suc m) (json_dumps v @ s) = Inr (norm_json v, s)"
    if "2 * length (json_dumps v) \<le> m" "json_stop s" for s
    using Cons.prems(2) kv that unfolding parses_def by auto
  have pl: "json_plain v" using Cons.prems(2) kv by auto
  show ?case
  proof (cases "d = []")
    case True
    then show ?thesis
      using Cons.prems(4) pl val[of "CHR ''}'' # r"]
      by (simp add: json_member_def json_str_def m p_str_esc colon new kv p_members.simps)
  next
    case False
    let ?rest = "join_with '','' (map json_member (dumps_items d)) @ CHR ''}'' # r"
    have j: "join_with '','' (map json_member (dumps_items (kv # d))) =
        json_member (fst kv, json_dumps (snd kv)) @ CHR '','' # join_with '','' (map json_member (dumps_items d))"
      using False by (cases d) auto
    have len: "2 * length (json_dumps v) \<le> m"
      "2 * length (join_with '','' (map json_member (dumps_items d))) < m"
      using Cons.prems(4) unfolding j by (auto simp: m kv json_member_def json_str_def)
    have "skip ?rest = ?rest"
      using False by (cases d; cases "tl d") (auto simp: json_member_def json_str_def skip_def json_space_def)
    moreover have "p_members fl (Suc m) ?rest (acc @ [(k, norm_json v)]) =
        Inr ((acc @ [(k, norm_json v)]) @ norm_items d, r)"
      using Cons.prems kv False len by (intro Cons.IH) auto
    ultimately show ?thesis
      using pl val[OF len(1), of "CHR '','' # ?rest"]
      unfolding j by (simp add: member m p_str_esc colon new kv p_members.simps(2)[of fl "Suc m"])
  qed
qed simp

lemma parses_plain:
  "json_plain v \<Longrightarrow> parses fl v"
  "plain_list vs \<Longrightarrow> \<forall>v \<in> set vs. parses fl v"
  "plain_items d \<Longrightarrow> \<forall>kv \<in> set d. parses fl (snd kv)"
proof (induction v and vs and d rule: json_dumps_dumps_list_dumps_items.induct)
  case (3 i)
  have "p_val fl (Suc n) (str_int i @ r) = p_word fl (str_int i @ r)" for n r
  proof -
    obtain c cs where c: "str_int i = c # cs" by (cases "str_int i") auto
    then have "c = CHR ''-'' \<or> ascii_digit c" using hd_str_int[of i] by auto
    then show ?thesis by (auto simp: p_val.simps c ascii_digit_def)
  qed
  then show ?case using 3 p_word_str_int by (auto simp: parses_def)
next
  case (6 vs)
  have open_br: "CHR ''['' # s = ''['' @ s" for s by simp
  show ?case
  proof (cases "vs = []")
    case True
    then show ?thesis by (simp add: parses_def p_val.simps startswith_def skip_def json_space_def)
  next
    case False
    have first: "skip (join_with '','' (dumps_list vs) @ s) = join_with '','' (dumps_list vs) @ s
        \<and> \<not> startswith (join_with '','' (dumps_list vs) @ s) '']''" for s
    proof -
      obtain v ws where vs: "vs = v # ws" using False by (cases vs) auto
      obtain s' where "join_with '','' (dumps_list vs) @ s = json_dumps v @ s'"
        by (cases ws) (auto simp: vs)
      moreover have "json_plain v" using 6 vs by simp
      ultimately show ?thesis using hd_dumps[of v] by (simp add: startswith_char)
    qed
    show ?thesis
      unfolding parses_def
    proof (intro allI impI)
      fix n r
      assume n: "2 * length (json_dumps (PList vs)) \<le> n" and r: "json_stop r"
      then obtain m where m: "n = Suc m" by (cases n) auto
      have "p_elems fl (Suc m) (join_with '','' (dumps_list vs) @ CHR '']'' # r) = Inr (map norm_json vs, r)"
        unfolding dumps_list_map
        by (rule p_elems_dumps) (use False 6 n m in \<open>auto simp: plain_list_iff dumps_list_map\<close>)
      then show "p_val fl (Suc n) (json_dumps (PList vs) @ r) = Inr (norm_json (PList vs), r)"
        using first by (simp add: p_val.simps m norm_list_map)
    qed
  qed
next
  case (7 d)
  have sorted: "sort_key fst (dumps_items d) = dumps_items (sort_key fst d)"
    "sort_key fst (norm_items d) = norm_items (sort_key fst d)"
    by (simp_all add: dumps_items_map norm_items_map sort_key_map_fst)
  show ?case
  proof (cases "d = []")
    case True
    then show ?thesis by (simp add: parses_def p_val.simps startswith_def skip_def json_space_def)
  next
    case False
    let ?d = "sort_key fst d"
    have ne: "?d \<noteq> []" using False by (metis set_empty set_sort)
    have first: "skip (join_with '','' (map json_member (dumps_items ?d)) @ s) =
          join_with '','' (map json_member (dumps_items ?d)) @ s
        \<and> \<not> startswith (join_with '','' (map json_member (dumps_items ?d)) @ s) ''}''" for s
      using ne by (cases ?d; cases "tl ?d")
        (auto simp: json_member_def json_str_def skip_def json_space_def startswith_char)
    show ?thesis
      unfolding parses_def
    proof (intro allI impI)
      fix n r
      assume n: "2 * length (json_dumps (PDict d)) \<le> n" and r: "json_stop r"
      then obtain m where m: "n = Suc m" by (cases n) auto
      have "p_members fl (Suc m) (join_with '','' (map json_member (dumps_items ?d)) @ CHR ''}'' # r) [] =
          Inr ([] @ norm_items ?d, r)"
        by (rule p_members_dumps)
          (use False ne 7 n m in \<open>auto simp: plain_items_iff sorted distinct_map inj_on_def\<close>)
      then show "p_val fl (Suc n) (json_dumps (PDict d) @ r) = Inr (norm_json (PDict d), r)"
        using first by (simp add: p_val.simps m sorted)
    qed
  qed
qed (auto simp: parses_def p_val.simps p_word_def startswith_def json_str_def p_str_esc)

theorem json_loads_dumps: "json_plain v \<Longrightarrow> json_loads fl (json_dumps v) = Inr (norm_json v)"
proof -
  assume a: "json_plain v"
  have "p_val fl (Suc (2 * length (json_dumps v))) (json_dumps v @ []) = Inr (norm_json v, [])"
    using parses_plain(1)[OF a, of fl] unfolding parses_def by (meson json_stopI(1) order_refl)
  moreover have "skip (json_dumps v) = json_dumps v" using skip_dumps[OF a, of "[]"] by simp
  ultimately show ?thesis by (simp add: json_loads_def skip_def)
qed

text \<open>Printing tells two plain values apart, up to the order of their dictionaries.\<close>

lemma json_dumps_inj:
  "json_plain v \<Longrightarrow> json_plain w \<Longrightarrow> json_dumps v = json_dumps w \<Longrightarrow> norm_json v = norm_json w"
  by (metis json_loads_dumps Inr_inject)

end
