(* ===== verification/Loading.thy ===== *)
theory Loading
  imports Json
begin

text \<open>
  What the sidecar files share: the state of a file of JSON, Python's conversions \<open>int\<close>, \<open>bool\<close>,
  \<open>str\<close> and \<open>dict\<close> on the values \<open>json.loads\<close> can return, with the exceptions they raise, and the
  lookup lemmas for an object that was written with \<open>sort_keys\<close> and read back.
\<close>

datatype blob = Absent | Unreadable | NotUtf8 | NotJson | Stored pyval

text \<open>\<open>ConvOutside\<close> marks the conversions that are not modelled: of floats, and of lists of pairs to a
  dictionary.\<close>

datatype conv_error = ConvKey string | ConvType | ConvValue | ConvAttribute | ConvOutside

section \<open>Conversions\<close>

text \<open>\<open>int(v)\<close>: of a text, with white space around it, one sign, and single underscores between
  digits; of \<open>None\<close> or a container a \<open>TypeError\<close>.\<close>

definition digits_groups :: "string \<Rightarrow> bool" where
  "digits_groups s \<longleftrightarrow> list_all (\<lambda>g. g \<noteq> [] \<and> list_all ascii_digit g) (split_on (CHR ''_'') s)"

definition int_of_text :: "string \<Rightarrow> int option" where
  "int_of_text s =
     (let t = strip s; neg = startswith t ''-'';
          body = (if neg \<or> startswith t ''+'' then tl t else t);
          digits = filter ascii_digit body
      in if digits_groups body \<and> length digits \<le> 4300
         then Some (if neg then - int (nat_of_digits digits) else int (nat_of_digits digits)) else None)"

fun int_of :: "pyval \<Rightarrow> conv_error + int" where
  "int_of (PInt i) = Inr i"
| "int_of (PBool b) = Inr (of_bool b)"
| "int_of (PStr s) = (case int_of_text s of None \<Rightarrow> Inl ConvValue | Some i \<Rightarrow> Inr i)"
| "int_of (PFloat t) = Inl ConvOutside"
| "int_of _ = Inl ConvType"

definition text_of :: "pyval \<Rightarrow> conv_error + string" where
  "text_of v = (if is_str v then Inr (the_str v) else Inl ConvOutside)"

text \<open>\<open>dict(v or {})\<close>.\<close>

definition dict_of :: "pyval \<Rightarrow> conv_error + (string, pyval) dict" where
  "dict_of v = (if \<not> truthy v then Inr [] else if is_dict v then Inr (the_dict v)
     else if is_list v \<or> is_str v then Inl ConvOutside else Inl ConvType)"

definition item :: "(string, pyval) dict \<Rightarrow> string \<Rightarrow> conv_error + pyval" where
  "item d k = (case dict_get d k of None \<Rightarrow> Inl (ConvKey k) | Some v \<Rightarrow> Inr v)"

section \<open>Reading what was written\<close>

lemma dict_get_sorted:
  assumes "distinct (map fst d)"
  shows "dict_get (sort_key fst d) k = dict_get d k"
proof -
  have "distinct (map fst (sort_key fst d))"
    using assms by (simp add: distinct_map inj_on_def)
  then have "dict_get (sort_key fst d) k = Some v \<longleftrightarrow> dict_get d k = Some v" for v
    using assms by simp
  then show ?thesis by (metis option.exhaust)
qed

text \<open>Reading a normalised dictionary reads the original, each value normalised.\<close>

lemma dict_get_norm:
  assumes "distinct (map fst d)"
  shows "dict_get (sort_key fst (norm_items d)) k = map_option norm_json (dict_get d k)"
proof -
  have "map fst (norm_items d) = map fst d" by (induction d) auto
  then have "dict_get (sort_key fst (norm_items d)) k = dict_get (norm_items d) k"
    using assms by (intro dict_get_sorted) simp
  also have "\<dots> = map_option norm_json (dict_get d k)" by (induction d) auto
  finally show ?thesis .
qed

lemma norm_json_PStrs [simp]: "norm_list (map PStr ss) = map PStr ss"
  by (induction ss) auto

lemma norm_items_keys: "map fst (norm_items d) = map fst d"
  by (induction d) auto

lemma norm_json_idem:
  "norm_json (norm_json v) = norm_json v"
  "norm_list (norm_list vs) = norm_list vs"
  "norm_items (norm_items d) = norm_items d"
proof (induction v and vs and d rule: norm_json_norm_list_norm_items.induct)
  case (2 d)
  have "norm_items (sort_key fst (norm_items d)) = sort_key fst (norm_items (norm_items d))"
    by (simp add: norm_items_map sort_key_map_fst)
  then show ?case using 2 by (simp add: sort_key_id_if_sorted)
qed simp_all

section \<open>Sidecar files of keyed rows\<close>

text \<open>\<open>for row in v\<close>: a list's elements, a dictionary's keys, a text's characters.\<close>

fun iterate :: "pyval \<Rightarrow> conv_error + pyval list" where
  "iterate (PList vs) = Inr vs"
| "iterate (PDict d) = Inr (map (\<lambda>kv. PStr (fst kv)) d)"
| "iterate (PStr s) = Inr (map (\<lambda>c. PStr [c]) s)"
| "iterate _ = Inl ConvType"

text \<open>A row that raises \<open>KeyError\<close> or \<open>ValueError\<close> is skipped, another exception ends the load.\<close>

definition skippable :: "conv_error \<Rightarrow> bool" where
  "skippable e \<longleftrightarrow> (case e of ConvKey k \<Rightarrow> True | ConvValue \<Rightarrow> True | _ \<Rightarrow> False)"

fun load_rows :: "(pyval \<Rightarrow> conv_error + 'm) \<Rightarrow> ('m \<Rightarrow> 'k) \<Rightarrow> pyval list \<Rightarrow> ('k, 'm) dict \<Rightarrow> conv_error + ('k, 'm) dict" where
  "load_rows from_row key_of [] s = Inr s"
| "load_rows from_row key_of (r # rs) s = (case from_row r of
     Inr m \<Rightarrow> load_rows from_row key_of rs (dict_set (key_of m) m s)
   | Inl e \<Rightarrow> if skippable e then load_rows from_row key_of rs s else Inl e)"

text \<open>Bytes that are no UTF-8 raise \<open>UnicodeDecodeError\<close>, a \<open>ValueError\<close> the load does not catch.\<close>

definition load_sidecar ::
  "(pyval \<Rightarrow> conv_error + 'm) \<Rightarrow> ('m \<Rightarrow> 'k) \<Rightarrow> string \<Rightarrow> blob \<Rightarrow> conv_error + ('k, 'm) dict" where
  "load_sidecar from_row key_of field b = (case b of
     Absent \<Rightarrow> Inr []
   | Unreadable \<Rightarrow> Inr []
   | NotUtf8 \<Rightarrow> Inl ConvValue
   | NotJson \<Rightarrow> Inr []
   | Stored v \<Rightarrow> if \<not> is_dict v then Inl ConvAttribute
       else bind_err (iterate (get_or (the_dict v) field (PList []))) (\<lambda>rows. load_rows from_row key_of rows []))"

text \<open>The interface of a store keyed by its rows.\<close>

locale keyed_store =
  fixes empty :: "'s" and lookup :: "'s \<Rightarrow> 'k \<Rightarrow> 'm option" and upsert :: "'m \<Rightarrow> 's \<Rightarrow> 's"
    and remove :: "'k \<Rightarrow> 's \<Rightarrow> 's" and key_of :: "'m \<Rightarrow> 'k"
  assumes lookup_empty: "lookup empty k = None"
    and lookup_upsert: "lookup (upsert m s) k = (if k = key_of m then Some m else lookup s k)"
    and lookup_remove: "lookup (remove j s) k = (if k = j then None else lookup s k)"
begin

definition faithful :: "'s \<Rightarrow> bool" where
  "faithful s \<longleftrightarrow> (\<forall>k m. lookup s k = Some m \<longrightarrow> key_of m = k)"

lemma faithful_ops: "faithful empty" "faithful s \<Longrightarrow> faithful (upsert m s)" "faithful s \<Longrightarrow> faithful (remove k s)"
  by (auto simp: faithful_def lookup_empty lookup_upsert lookup_remove)

lemma lookup_all:
  "distinct (map key_of ms) \<Longrightarrow>
    lookup (fold upsert ms s) k = (case map_of (map (\<lambda>m. (key_of m, m)) ms) k of None \<Rightarrow> lookup s k | Some m \<Rightarrow> Some m)"
proof (induction ms arbitrary: s)
  case (Cons m ms)
  have "map_of (map (\<lambda>m. (key_of m, m)) ms) (key_of m) = None"
    using Cons.prems by (auto simp: map_of_eq_None_iff image_iff)
  then show ?case using Cons by (auto simp: lookup_upsert split: option.splits)
qed simp

end

text \<open>A dictionary filled with its rows is one.\<close>

lemma dict_keyed_store: "keyed_store [] dict_get (\<lambda>m. dict_set (key_of m) m) dict_pop key_of"
  by unfold_locales (simp_all add: dict_facts)

lemma load_rows_all:
  assumes "\<And>m. m \<in> set ms \<Longrightarrow> from_row (f m) = Inr (g m)"
  shows "load_rows from_row key_of (map f ms) s = Inr (fold (\<lambda>m. dict_set (key_of m) m) (map g ms) s)"
  using assms by (induction ms arbitrary: s) simp_all

text \<open>What a row-wise load keeps of every row it takes.\<close>

lemma load_rows_invariant:
  assumes "load_rows from_row key_of rs s = Inr s'"
    and "\<And>k m. (k, m) \<in> set s \<Longrightarrow> P k m" and "\<And>r m. from_row r = Inr m \<Longrightarrow> P (key_of m) m"
  shows "(k, m) \<in> set s' \<Longrightarrow> P k m"
  using assms
proof (induction rs arbitrary: s)
  case (Cons r rs)
  show ?case
  proof (cases "from_row r")
    case (Inr m')
    have "\<And>k m. (k, m) \<in> set (dict_set (key_of m') m' s) \<Longrightarrow> P k m"
      using dict_set_members[of "key_of m'" m' s] Cons.prems(3) Cons.prems(4)[OF Inr] by blast
    then show ?thesis using Cons.IH[OF Cons.prems(1)] Cons.prems(2,4) Inr by simp
  next
    case (Inl e)
    then show ?thesis using Cons.IH[OF Cons.prems(1)] Cons.prems(2,3,4) by (simp split: if_splits)
  qed
qed simp

lemma load_rows_wf: "load_rows from_row key_of rs s = Inr s' \<Longrightarrow> dict_wf s \<Longrightarrow> dict_wf s'"
  by (induction rs arbitrary: s) (auto split: sum.splits if_splits)

lemma load_written:
  assumes "distinct (map fst d)" and "dict_get d field = Some (PList vs)"
  shows "load_sidecar from_row key_of field (Stored (norm_json (PDict d))) =
    load_rows from_row key_of (map norm_json vs) []"
proof -
  have "get_or (sort_key fst (norm_items d)) field (PList []) = PList (map norm_json vs)"
    using assms by (simp add: get_or_def dict_get_norm norm_list_map)
  then show ?thesis by (simp add: load_sidecar_def)
qed

lemma load_sidecar_Inr:
  assumes "load_sidecar from_row key_of field b = Inr s"
  shows "s = [] \<or> (\<exists>rows. load_rows from_row key_of rows [] = Inr s)"
  using assms by (auto simp: load_sidecar_def bind_err_Inr split: blob.splits if_splits)

text \<open>A file of keyed rows, written row by row and loaded, holds the rows as they are read back.\<close>

lemma load_rows_keyed:
  fixes key_of :: "'m \<Rightarrow> 'k"
  assumes rows: "\<And>m. m \<in> set ms \<Longrightarrow> from_row (f m) = Inr (g m) \<and> key_of (g m) = key_of m"
    and ids: "distinct (map key_of ms)"
    and s: "dict_wf s" "set ms = set (dict_values s)" "\<forall>(i, m) \<in> set s. i = key_of m"
  obtains s' where "load_rows from_row key_of (map f ms) [] = Inr s'"
    and "\<And>i. dict_get s' i = map_option g (dict_get s i)"
proof -
  let ?s' = "fold (\<lambda>m. dict_set (key_of m) m) (map g ms) []"
  have "load_rows from_row key_of (map f ms) [] = Inr ?s'"
    by (rule load_rows_all) (use rows in blast)
  moreover have "dict_get ?s' i = map_option g (dict_get s i)" for i
  proof -
    have "map key_of (map g ms) = map key_of ms" using rows by simp
    then have d: "distinct (map key_of (map g ms))" using ids by (simp only:)
    have "dict_get ?s' i = dict_get (map (\<lambda>m. (key_of m, m)) (map g ms)) i"
      using keyed_store.lookup_all[OF dict_keyed_store d, of "[]" i] by (simp split: option.splits)
    also have "\<dots> = map_option g (dict_get s i)"
    proof (cases "dict_get s i")
      case (Some m)
      then have "m \<in> set ms" "key_of m = i" using s dict_get_in_set[of s i m] by force+
      then have "(i, g m) \<in> set (map (\<lambda>m. (key_of m, m)) (map g ms))" using rows by force
      then show ?thesis using d Some by (simp add: comp_def)
    next
      case None
      then have "i \<notin> key_of ` set ms" using s dict_get_iff[OF s(1), of i] by force
      then have "i \<notin> set (dict_keys (map (\<lambda>m. (key_of m, m)) (map g ms)))" using rows by force
      then have "dict_get (map (\<lambda>m. (key_of m, m)) (map g ms)) i = None"
        by (metis map_of_eq_None_iff set_map)
      then show ?thesis using None by simp
    qed
    finally show ?thesis .
  qed
  ultimately show thesis by (rule that)
qed

end
