(* ===== verification/Sha256.thy ===== *)
theory Sha256
  imports Codec
begin

unbundle bit_operations_syntax

text \<open>
  SHA-256 as \<open>hashlib.sha256\<close> computes it (FIPS 180-4), on byte strings; and the interface the rest
  of the development uses of a hash: its output has 32 bytes. Nothing is assumed about collisions:
  where a property would need that none is met, it names the colliding pair instead.
\<close>

type_synonym word32 = "32 word"

section \<open>The compression function\<close>

definition rotr :: "nat \<Rightarrow> word32 \<Rightarrow> word32" where
  "rotr n x = (drop_bit n x OR push_bit (32 - n) x)"

definition small0 :: "word32 \<Rightarrow> word32" where
  "small0 x = (rotr 7 x XOR rotr 18 x XOR drop_bit 3 x)"

definition small1 :: "word32 \<Rightarrow> word32" where
  "small1 x = (rotr 17 x XOR rotr 19 x XOR drop_bit 10 x)"

definition big0 :: "word32 \<Rightarrow> word32" where
  "big0 x = (rotr 2 x XOR rotr 13 x XOR rotr 22 x)"

definition big1 :: "word32 \<Rightarrow> word32" where
  "big1 x = (rotr 6 x XOR rotr 11 x XOR rotr 25 x)"

definition ch :: "word32 \<Rightarrow> word32 \<Rightarrow> word32 \<Rightarrow> word32" where
  "ch x y z = ((x AND y) XOR (NOT x AND z))"

definition maj :: "word32 \<Rightarrow> word32 \<Rightarrow> word32 \<Rightarrow> word32" where
  "maj x y z = ((x AND y) XOR (x AND z) XOR (y AND z))"

text \<open>The round constants, eight to a numeral of 256 bits, the first one highest.\<close>

definition unpack :: "256 word \<Rightarrow> word32 list" where
  "unpack n = map (\<lambda>i. ucast (drop_bit (224 - 32 * i) n)) [0..<8]"

definition round_constants :: "word32 list" where
  "round_constants = concat (map unpack
    [0x428a2f9871374491b5c0fbcfe9b5dba53956c25b59f111f1923f82a4ab1c5ed5,
     0xd807aa9812835b01243185be550c7dc372be5d7480deb1fe9bdc06a7c19bf174,
     0xe49b69c1efbe47860fc19dc6240ca1cc2de92c6f4a7484aa5cb0a9dc76f988da,
     0x983e5152a831c66db00327c8bf597fc7c6e00bf3d5a7914706ca635114292967,
     0x27b70a852e1b21384d2c6dfc53380d13650a7354766a0abb81c2c92e92722c85,
     0xa2bfe8a1a81a664bc24b8b70c76c51a3d192e819d6990624f40e3585106aa070,
     0x19a4c1161e376c082748774c34b0bcb5391c0cb34ed8aa4a5b9cca4f682e6ff3,
     0x748f82ee78a5636f84c878148cc7020890befffaa4506cebbef9a3f7c67178f2])"

type_synonym sha_state = "word32 \<times> word32 \<times> word32 \<times> word32 \<times> word32 \<times> word32 \<times> word32 \<times> word32"

definition initial_state :: sha_state where
  "initial_state = (0x6a09e667, 0xbb67ae85, 0x3c6ef372, 0xa54ff53a,
                    0x510e527f, 0x9b05688c, 0x1f83d9ab, 0x5be0cd19)"

text \<open>The schedule keeps a window of the last sixteen words and emits one word per round.\<close>

fun sha_rounds :: "word32 list \<Rightarrow> word32 list \<Rightarrow> sha_state \<Rightarrow> sha_state" where
  "sha_rounds [] ws s = s"
| "sha_rounds (k # ks) ws (a, b, c, d, e, f, g, h) =
     (let w = hd ws;
          t1 = h + big1 e + ch e f g + k + w;
          t2 = big0 a + maj a b c;
          next_word = small1 (ws ! 14) + ws ! 9 + small0 (ws ! 1) + w
      in sha_rounds ks (tl ws @ [next_word]) (t1 + t2, a, b, c, d + t1, e, f, g))"

definition add_state :: "sha_state \<Rightarrow> sha_state \<Rightarrow> sha_state" where
  "add_state s t = (case s of (a, b, c, d, e, f, g, h) \<Rightarrow>
     (case t of (a', b', c', d', e', f', g', h') \<Rightarrow>
       (a + a', b + b', c + c', d + d', e + e', f + f', g + g', h + h')))"

definition word_of_bytes :: "bytes \<Rightarrow> word32" where
  "word_of_bytes bs = foldl (\<lambda>w b. push_bit 8 w OR ucast b) 0 bs"

definition bytes_of_word :: "word32 \<Rightarrow> bytes" where
  "bytes_of_word w = [ucast (drop_bit 24 w), ucast (drop_bit 16 w), ucast (drop_bit 8 w), ucast w]"

fun chunks :: "nat \<Rightarrow> nat \<Rightarrow> 'a list \<Rightarrow> 'a list list" where
  "chunks 0 n xs = []"
| "chunks (Suc k) n xs = take n xs # chunks k n (drop n xs)"

definition compress :: "sha_state \<Rightarrow> bytes \<Rightarrow> sha_state" where
  "compress s block = add_state s (sha_rounds round_constants (map word_of_bytes (chunks 16 4 block)) s)"

text \<open>The padding: a bit, zeros up to eight bytes before a block boundary, the length in bits.\<close>

definition sha_pad :: "bytes \<Rightarrow> bytes" where
  "sha_pad m = m @ [0x80] @ replicate ((119 - length m mod 64) mod 64) 0 @ to_bytes_fixed 8 (8 * length m)"

definition digest_bytes :: "sha_state \<Rightarrow> bytes" where
  "digest_bytes s = (case s of (a, b, c, d, e, f, g, h) \<Rightarrow>
     concat (map bytes_of_word [a, b, c, d, e, f, g, h]))"

definition sha256 :: "bytes \<Rightarrow> bytes" where
  "sha256 m = digest_bytes
     (foldl compress initial_state (chunks (length (sha_pad m) div 64) 64 (sha_pad m)))"

definition sha256_hex :: "bytes \<Rightarrow> string" where
  "sha256_hex m = hexlify (sha256 m)"

section \<open>The interface\<close>

lemma length_sha256 [simp]: "length (sha256 m) = 32"
  by (simp add: sha256_def digest_bytes_def bytes_of_word_def split: prod.split)

lemma sha_pad_blocks: "64 dvd length (sha_pad m)"
proof -
  have m: "length m mod 64 < 64" by simp
  have "length (sha_pad m) = length m + 9 + (119 - length m mod 64) mod 64" by (simp add: sha_pad_def)
  also have "\<dots> = 64 * (length m div 64) + (length m mod 64 + 9 + (119 - length m mod 64) mod 64)" by simp
  also have "length m mod 64 + 9 + (119 - length m mod 64) mod 64 = (if length m mod 64 < 56 then 64 else 128)"
  proof (cases "length m mod 64 < 56")
    case True
    then have "(119 - length m mod 64) mod 64 = 55 - length m mod 64"
      by (simp add: le_mod_geq)
    then show ?thesis using True by simp
  next
    case False
    then have "(119 - length m mod 64) mod 64 = 119 - length m mod 64" using m by simp
    then show ?thesis using False m by simp
  qed
  finally show ?thesis by simp
qed

locale hash =
  fixes h :: "bytes \<Rightarrow> bytes"
  assumes length_h: "length (h m) = 32"
begin

definition collision :: "bytes \<Rightarrow> bytes \<Rightarrow> bool" where
  "collision a b \<longleftrightarrow> a \<noteq> b \<and> h a = h b"

lemma hex_length: "length (hexlify (h m)) = 64"
  by (simp add: length_h)

lemma hex_lower_digest: "fullmatch_class hex_lower 64 64 (hexlify (h m))"
  by (simp add: hexlify_fullmatch length_h)

lemma hex_stripped: "strip (hexlify (h m)) = hexlify (h m)"
  using hexlify_lower[of "h m"] by (intro strip_id) (auto simp: list_all_iff hex_lower_not_space)

lemma same_hex_or_collision: "hexlify (h a) = hexlify (h b) \<Longrightarrow> a = b \<or> collision a b"
  by (simp add: hexlify_inj collision_def)

end

interpretation sha: hash sha256
  by unfold_locales simp


end
