(* ===== verification/Records.thy ===== *)
theory Records
  imports Loading Sha256
begin

text \<open>
  What the signed records share: the canonical form of a flat JSON object, its fingerprint, the
  normalisation of a public key in hexadecimal, and the interface of a canonical record, whose
  canonical bytes determine it. A fingerprint then determines the record up to an explicit SHA-256
  collision.
\<close>

definition canonical_json :: "(string, pyval) dict \<Rightarrow> bytes" where
  "canonical_json d = utf8 (json_dumps (PDict d))"

definition sha_collision :: "bytes \<Rightarrow> bytes \<Rightarrow> bool" where
  "sha_collision a b \<longleftrightarrow> a \<noteq> b \<and> sha256 a = sha256 b"

text \<open>Printing an integer of more than 4300 digits raises \<open>ValueError\<close> in CPython.\<close>

definition int_prints :: "int \<Rightarrow> bool" where
  "int_prints i \<longleftrightarrow> length (str_int i) \<le> 4300"

fun scalar :: "pyval \<Rightarrow> bool" where
  "scalar (PStr s) = True"
| "scalar (PInt i) = int_prints i"
| "scalar (PBool b) = True"
| "scalar PNone = True"
| "scalar _ = False"

lemma scalar_plain: "scalar v \<Longrightarrow> json_plain v \<and> norm_json v = v"
  by (cases v) (auto simp: int_prints_def)

lemma norm_items_scalar: "\<forall>kv \<in> set d. scalar (snd kv) \<Longrightarrow> norm_items d = d"
  by (induction d) (auto simp: scalar_plain)

lemma canonical_json_inj:
  assumes "canonical_json d = canonical_json d'"
    and "sorted (map fst d)" "distinct (map fst d)" "\<forall>kv \<in> set d. scalar (snd kv)"
    and "sorted (map fst d')" "distinct (map fst d')" "\<forall>kv \<in> set d'. scalar (snd kv)"
  shows "d = d'"
proof -
  have eq: "json_dumps (PDict d) = json_dumps (PDict d')"
    using assms(1) by (simp add: canonical_json_def utf8_inj)
  have "json_plain (PDict d)" "json_plain (PDict d')"
    using assms(3,4,6,7) scalar_plain by (auto simp: plain_items_iff)
  from json_dumps_inj[OF this eq] have "sort_key fst d = sort_key fst d'"
    using assms(4,7) by (simp add: norm_items_scalar)
  then show ?thesis using assms(2,5) by (simp add: sort_key_id_if_sorted)
qed

text \<open>Whatever the order of the keys, the canonical form determines every field.\<close>

lemma canonical_json_get:
  assumes "canonical_json d = canonical_json d'"
    and d: "distinct (map fst d)" "\<forall>kv \<in> set d. scalar (snd kv)"
    and d': "distinct (map fst d')" "\<forall>kv \<in> set d'. scalar (snd kv)"
  shows "dict_get d k = dict_get d' k"
proof -
  have eq: "json_dumps (PDict d) = json_dumps (PDict d')"
    using assms(1) by (simp add: canonical_json_def utf8_inj)
  have "json_plain (PDict d)" "json_plain (PDict d')"
    using d d' scalar_plain by (auto simp: plain_items_iff)
  from json_dumps_inj[OF this eq] have "sort_key fst d = sort_key fst d'"
    using d d' by (simp add: norm_items_scalar)
  then show ?thesis using dict_get_sorted[OF d(1), of k] dict_get_sorted[OF d'(1), of k] by simp
qed

lemma canonical_json_int:
  assumes "json_dumps (PInt i) = json_dumps (PInt j)"
  shows "i = j"
  using assms by (simp add: str_int_inj)

text \<open>\<open>s.strip().lower()\<close>, then an optional \<open>0x\<close> and, on 130 characters, an optional \<open>04\<close> removed.\<close>

definition normalize_pubkey :: "string \<Rightarrow> string" where
  "normalize_pubkey s =
     (let a = py_lower (strip s);
          b = (if startswith a ''0x'' then drop 2 a else a)
      in if length b = 130 \<and> startswith b ''04'' then drop 2 b else b)"

lemma lower_hex: "hex_lower c \<Longrightarrow> char_lower c = c"
  by (auto simp: char_lower_def hex_lower_def ascii_upper_def ascii_digit_def)

lemma clean_hexlify [simp]: "py_lower (strip (hexlify b)) = hexlify b"
proof -
  have "strip (hexlify b) = hexlify b"
    using hexlify_lower[of b] by (intro strip_id) (auto simp: list_all_iff hex_lower_not_space)
  then show ?thesis
    using hexlify_lower[of b] by (simp add: py_lower_def list_all_iff lower_hex map_idI)
qed

lemma last_normalize_pubkey:
  assumes "normalize_pubkey s \<noteq> []"
  shows "last (normalize_pubkey s) \<noteq> char_of (10 :: nat)"
proof -
  let ?a = "py_lower (strip s)"
  have "normalize_pubkey s \<in> {?a, drop 2 ?a, drop 4 ?a}"
    by (simp add: normalize_pubkey_def Let_def)
  then obtain k where k: "normalize_pubkey s = drop k ?a" by (metis drop0 insertE singletonD)
  then have ne: "strip s \<noteq> []" using assms by (auto simp: py_lower_def)
  have l: "last (normalize_pubkey s) = char_lower (last (strip s))"
    using assms k last_map[OF ne, of char_lower] by (simp add: py_lower_def last_drop)
  have "\<not> py_space (last (strip s))"
    using ne hd_dropWhile[of py_space "rev (lstrip s)"] by (simp add: strip_def rstrip_def last_rev)
  then have "last (strip s) \<noteq> char_of (10 :: nat)" by (auto simp: py_space_def)
  then show ?thesis by (simp add: l code_char_lower_10)
qed

locale canonical_record = hash h for h :: "bytes \<Rightarrow> bytes" +
  fixes canon :: "'r \<Rightarrow> bytes" and valid :: "'r \<Rightarrow> bool"
  assumes canon_inj: "valid r \<Longrightarrow> valid s \<Longrightarrow> canon r = canon s \<Longrightarrow> r = s"
begin

definition fp :: "'r \<Rightarrow> string" where
  "fp r = hexlify (h (canon r))"

lemma fp_binds:
  assumes "valid r" "valid s" "fp r = fp s"
  shows "r = s \<or> canon r \<noteq> canon s \<and> h (canon r) = h (canon s)"
  using assms canon_inj same_hex_or_collision[of "canon r" "canon s"]
  by (auto simp: fp_def collision_def)

lemma fp_shape: "fullmatch_class hex_lower 64 64 (fp r)"
  unfolding fp_def by (rule hex_lower_digest)

text \<open>One text cannot pin two records: whatever normalisation \<open>clean\<close> the verifier applies.\<close>

lemma one_pin_one_record:
  assumes "valid r" "valid s" "clean pinned = fp r" "clean pinned = fp s"
  shows "r = s \<or> canon r \<noteq> canon s \<and> h (canon r) = h (canon s)"
  using assms by (intro fp_binds) simp_all

end

end
