(* ===== verification/Profile.thy ===== *)
theory Profile
  imports Records Loading
begin

text \<open>
  \<^verbatim>\<open>src/recto/profile/types.py\<close>, \<^verbatim>\<open>src/recto/profile/store.py\<close> and \<^verbatim>\<open>src/recto/profile/manage.py\<close>:
  the master identity and its profiles, their stored form, and the operations that change them. The
  file is a \<open>blob\<close>: absent, unreadable, holding bytes that are no text or text that is no JSON, or holding the JSON value its
  text parses to. Time and fresh identifiers are arguments. A value \<open>int\<close> or \<open>str\<close> cannot convert
  in the model (a float, a container) is the error \<open>Unmodelled\<close>.
\<close>

section \<open>Data\<close>

record derivation_path =
  bip32_purpose :: int
  profile_coin_type :: int
  profile_index :: int

record profile =
  profile_id :: string
  kind :: string
  display_name :: string
  derivation :: derivation_path
  parent_profile_id :: pyval
  theme_hint :: pyval
  scim_provider :: pyval
  deny_actions_inherited :: "string list"
  created_at_unix :: int
  revoked :: bool
  derived_pubkey_hex :: "string option"
  device_ids :: "string list"
  revoke_quorum_k :: int

record master_identity =
  master_pubkey_hex :: string
  master_profile_id :: string
  profiles :: "profile list"
  label :: "string option"

definition personal_master :: string where
  "personal_master = ''personal:master''"

definition as_bip32_string :: "derivation_path \<Rightarrow> string" where
  "as_bip32_string d = ''m/'' @ str_int (bip32_purpose d) @ [CHR 0x27, CHR ''/'']
     @ str_int (profile_coin_type d) @ [CHR 0x27, CHR ''/'']
     @ str_int (profile_index d) @ [CHR 0x27] @ ''/0/0''"

datatype profile_error =
    ShapeKey string
  | ShapeType string
  | ShapeValue string
  | Unmodelled
  | ReadFailed
  | AlreadyBootstrapped
  | NotBootstrapped
  | UnknownProfile
  | BadArgument string
  | ProfileRevoked
  | LastDevice
  | MasterHasChildren

section \<open>The stored form\<close>

definition profile_to_dict :: "profile \<Rightarrow> (string, pyval) dict" where
  "profile_to_dict p =
     [(''profile_id'', PStr (profile_id p)), (''kind'', PStr (kind p)),
      (''display_name'', PStr (display_name p)),
      (''derivation'', PDict [(''purpose'', PInt (bip32_purpose (derivation p))),
         (''profile_coin_type'', PInt (profile_coin_type (derivation p))),
         (''profile_index'', PInt (profile_index (derivation p)))]),
      (''parent_profile_id'', parent_profile_id p), (''theme_hint'', theme_hint p),
      (''scim_provider'', scim_provider p),
      (''deny_actions_inherited'', PList (map PStr (deny_actions_inherited p))),
      (''created_at_unix'', PInt (created_at_unix p)), (''revoked'', PBool (revoked p))]
     @ (case derived_pubkey_hex p of None \<Rightarrow> [] | Some k \<Rightarrow> [(''derived_pubkey_hex'', PStr k)])
     @ (if device_ids p = [] then [] else [(''device_ids'', PList (map PStr (device_ids p)))])
     @ (if revoke_quorum_k p = 1 then [] else [(''revoke_quorum_k'', PInt (revoke_quorum_k p))])"

definition master_identity_to_dict :: "master_identity \<Rightarrow> (string, pyval) dict" where
  "master_identity_to_dict mi =
     [(''schema_version'', PInt 1), (''master_pubkey_hex'', PStr (master_pubkey_hex mi)),
      (''master_profile_id'', PStr (master_profile_id mi)), (''label'', opt_str (label mi)),
      (''profiles'', PList (map (\<lambda>p. PDict (profile_to_dict p)) (profiles mi)))]"

text \<open>The conversions \<open>int\<close> and \<open>str\<close> of a field, naming the field in the error.\<close>

fun py_int :: "string \<Rightarrow> pyval \<Rightarrow> profile_error + int" where
  "py_int k (PInt i) = Inr i"
| "py_int k (PBool b) = Inr (of_bool b)"
| "py_int k (PStr s) = (case int_of_text s of None \<Rightarrow> Inl (ShapeValue k) | Some i \<Rightarrow> Inr i)"
| "py_int k (PFloat t) = Inl Unmodelled"
| "py_int k _ = Inl (ShapeType k)"

fun py_str :: "pyval \<Rightarrow> profile_error + string" where
  "py_str (PStr s) = Inr s"
| "py_str (PInt i) = Inr (str_int i)"
| "py_str (PBool b) = Inr (if b then ''True'' else ''False'')"
| "py_str PNone = Inr ''None''"
| "py_str (PFloat t) = Inr t"
| "py_str _ = Inl Unmodelled"

definition require :: "(string, pyval) dict \<Rightarrow> string \<Rightarrow> profile_error + pyval" where
  "require d k = (case dict_get d k of None \<Rightarrow> Inl (ShapeKey k) | Some v \<Rightarrow> Inr v)"

definition require_int :: "(string, pyval) dict \<Rightarrow> string \<Rightarrow> profile_error + int" where
  "require_int d k = (case require d k of Inl e \<Rightarrow> Inl e | Inr v \<Rightarrow> py_int k v)"

definition require_str :: "(string, pyval) dict \<Rightarrow> string \<Rightarrow> profile_error + string" where
  "require_str d k = (case require d k of Inl e \<Rightarrow> Inl e | Inr v \<Rightarrow> py_str v)"

definition derivation_from_dict :: "(string, pyval) dict \<Rightarrow> profile_error + derivation_path" where
  "derivation_from_dict d =
     bind_err (require_int d ''purpose'') (\<lambda>a.
     bind_err (require_int d ''profile_coin_type'') (\<lambda>b.
     bind_err (require_int d ''profile_index'') (\<lambda>c.
     Inr \<lparr>bip32_purpose = a, profile_coin_type = b, profile_index = c\<rparr>)))"

text \<open>The shape checks of one profile row: its key, its quorum, its devices.\<close>

definition pubkey_from_dict :: "pyval \<Rightarrow> profile_error + string option" where
  "pubkey_from_dict v =
     (if v = PNone then Inr None
      else if \<not> is_str v \<or> length (the_str v) \<noteq> 128 \<or> fromhex (the_str v) = None
      then Inl (ShapeValue ''derived_pubkey_hex'') else Inr (Some (the_str v)))"

definition quorum_from_dict :: "pyval \<Rightarrow> profile_error + int" where
  "quorum_from_dict v = (if \<not> is_int v \<or> the_int v < 1 then Inl (ShapeValue ''revoke_quorum_k'')
     else Inr (the_int v))"

definition device_from_dict :: "pyval \<Rightarrow> profile_error + string" where
  "device_from_dict v = (if \<not> is_str v \<or> the_str v = [] then Inl (ShapeValue ''device_ids'')
     else Inr (the_str v))"

definition check :: "bool \<Rightarrow> profile_error \<Rightarrow> profile_error + unit" where
  "check ok e = (if ok then Inr () else Inl e)"

definition profile_from_dict :: "pyval \<Rightarrow> profile_error + profile" where
  "profile_from_dict raw =
     (let d = the_dict raw; deny = get_or d ''deny_actions_inherited'' (PList []);
          devs = get_or d ''device_ids'' (PList [])
      in bind_err (check (is_dict raw) (ShapeType ''profile'')) (\<lambda>_.
         bind_err (require d ''derivation'') (\<lambda>dr.
         bind_err (check (is_dict dr) (ShapeType ''derivation'')) (\<lambda>_.
         bind_err (derivation_from_dict (the_dict dr)) (\<lambda>path.
         bind_err (check (is_list deny) (ShapeType ''deny_actions_inherited'')) (\<lambda>_.
         bind_err (pubkey_from_dict (get d ''derived_pubkey_hex'')) (\<lambda>key.
         bind_err (quorum_from_dict (get_or d ''revoke_quorum_k'' (PInt 1))) (\<lambda>k.
         bind_err (check (is_list devs) (ShapeType ''device_ids'')) (\<lambda>_.
         bind_err (map_err device_from_dict (the_list devs)) (\<lambda>ds.
         bind_err (require_str d ''profile_id'') (\<lambda>pid.
         bind_err (require_str d ''kind'') (\<lambda>knd.
         bind_err (require_str d ''display_name'') (\<lambda>nm.
         bind_err (map_err py_str (the_list deny)) (\<lambda>denied.
         bind_err (py_int ''created_at_unix'' (get_or d ''created_at_unix'' (PInt 0))) (\<lambda>created.
         Inr \<lparr>profile_id = pid, kind = knd, display_name = nm, derivation = path,
              parent_profile_id = get d ''parent_profile_id'', theme_hint = get d ''theme_hint'',
              scim_provider = get d ''scim_provider'', deny_actions_inherited = denied,
              created_at_unix = created, revoked = truthy (get_or d ''revoked'' (PBool False)),
              derived_pubkey_hex = key, device_ids = ds, revoke_quorum_k = k\<rparr>)))))))))))))))"

definition master_identity_from_dict :: "pyval \<Rightarrow> profile_error + master_identity" where
  "master_identity_from_dict raw =
     (let d = the_dict raw; lbl = get d ''label''; ps = get_or d ''profiles'' (PList [])
      in bind_err (check (is_dict raw) (ShapeType ''master'')) (\<lambda>_.
         bind_err (require d ''master_pubkey_hex'') (\<lambda>key.
         bind_err (check (is_str key \<and> length (the_str key) = 128) (ShapeValue ''master_pubkey_hex'')) (\<lambda>_.
         bind_err (require d ''master_profile_id'') (\<lambda>mid.
         bind_err (check (is_str mid \<and> the_str mid \<noteq> []) (ShapeValue ''master_profile_id'')) (\<lambda>_.
         bind_err (check (lbl = PNone \<or> is_str lbl) (ShapeValue ''label'')) (\<lambda>_.
         bind_err (check (is_list ps) (ShapeValue ''profiles'')) (\<lambda>_.
         bind_err (map_err profile_from_dict (the_list ps)) (\<lambda>rows.
         bind_err (check (rows \<noteq> []) (ShapeValue ''profiles'')) (\<lambda>_.
         bind_err (check (the_str mid \<in> set (map profile_id rows)) (ShapeValue ''master_profile_id'')) (\<lambda>_.
         Inr \<lparr>master_pubkey_hex = the_str key, master_profile_id = the_str mid, profiles = rows,
              label = (if lbl = PNone then None else Some (the_str lbl))\<rparr>)))))))))))"

text \<open>A corrupt file is moved aside, so the next load finds none.\<close>

definition load_master_identity :: "blob \<Rightarrow> (profile_error + master_identity option) \<times> blob" where
  "load_master_identity b = (case b of
     Absent \<Rightarrow> (Inr None, b)
   | Unreadable \<Rightarrow> (Inl ReadFailed, b)
   | NotUtf8 \<Rightarrow> (Inr None, Absent)
   | NotJson \<Rightarrow> (Inr None, Absent)
   | Stored v \<Rightarrow> (case master_identity_from_dict v of
         Inr mi \<Rightarrow> (Inr (Some mi), b)
       | Inl e \<Rightarrow> if e = Unmodelled then (Inl e, b) else (Inr None, Absent)))"

definition save_master_identity :: "master_identity \<Rightarrow> blob" where
  "save_master_identity mi = Stored (norm_json (PDict (master_identity_to_dict mi)))"

section \<open>What is saved is loaded\<close>

definition profile_storable :: "profile \<Rightarrow> bool" where
  "profile_storable p \<longleftrightarrow> scalar (parent_profile_id p) \<and> scalar (theme_hint p) \<and> scalar (scim_provider p)
     \<and> (\<forall>k. derived_pubkey_hex p = Some k \<longrightarrow> length k = 128 \<and> fromhex k \<noteq> None)
     \<and> [] \<notin> set (device_ids p) \<and> 1 \<le> revoke_quorum_k p"

definition identity_storable :: "master_identity \<Rightarrow> bool" where
  "identity_storable mi \<longleftrightarrow> length (master_pubkey_hex mi) = 128 \<and> master_profile_id mi \<noteq> []
     \<and> master_profile_id mi \<in> set (map profile_id (profiles mi))
     \<and> (\<forall>p \<in> set (profiles mi). profile_storable p)"

lemma map_err_device: "[] \<notin> set ds \<Longrightarrow> map_err device_from_dict (map PStr ds) = Inr ds"
  by (induction ds) (auto simp: device_from_dict_def)

lemma map_err_py_str: "map_err py_str (map PStr ds) = Inr ds"
  by (induction ds) auto

lemma derivation_roundtrip:
  "derivation_from_dict (the_dict (norm_json (PDict [(''purpose'', PInt (bip32_purpose d)),
     (''profile_coin_type'', PInt (profile_coin_type d)), (''profile_index'', PInt (profile_index d))]))) = Inr d"
  by (simp add: derivation_from_dict_def require_int_def require_def dict_get_norm)

lemma profile_dict_distinct: "distinct (map fst (profile_to_dict p))"
  by (simp add: profile_to_dict_def split: option.split)

lemma profile_roundtrip:
  assumes "profile_storable p"
  shows "profile_from_dict (norm_json (PDict (profile_to_dict p))) = Inr p"
proof -
  let ?d = "sort_key fst (norm_items (profile_to_dict p))"
  have raw: "norm_json (PDict (profile_to_dict p)) = PDict ?d" by simp
  have g: "dict_get ?d k = map_option norm_json (dict_get (profile_to_dict p) k)" for k
    by (rule dict_get_norm[OF profile_dict_distinct])
  have gets:
    "dict_get ?d ''profile_id'' = Some (PStr (profile_id p))"
    "dict_get ?d ''kind'' = Some (PStr (kind p))"
    "dict_get ?d ''display_name'' = Some (PStr (display_name p))"
    "dict_get ?d ''parent_profile_id'' = Some (parent_profile_id p)"
    "dict_get ?d ''theme_hint'' = Some (theme_hint p)"
    "dict_get ?d ''scim_provider'' = Some (scim_provider p)"
    "dict_get ?d ''deny_actions_inherited'' = Some (PList (map PStr (deny_actions_inherited p)))"
    "dict_get ?d ''created_at_unix'' = Some (PInt (created_at_unix p))"
    "dict_get ?d ''revoked'' = Some (PBool (revoked p))"
    using assms unfolding g by (simp_all add: profile_to_dict_def profile_storable_def scalar_plain)
  have deriv: "dict_get ?d ''derivation'' = Some (norm_json (PDict [(''purpose'', PInt (bip32_purpose (derivation p))),
     (''profile_coin_type'', PInt (profile_coin_type (derivation p))),
     (''profile_index'', PInt (profile_index (derivation p)))]))"
    unfolding g by (simp add: profile_to_dict_def)
  have key: "pubkey_from_dict (get ?d ''derived_pubkey_hex'') = Inr (derived_pubkey_hex p)"
    using assms unfolding get_def g
    by (auto simp: profile_to_dict_def pubkey_from_dict_def profile_storable_def split: option.split)
  have q: "quorum_from_dict (get_or ?d ''revoke_quorum_k'' (PInt 1)) = Inr (revoke_quorum_k p)"
    using assms unfolding get_or_def g
    by (auto simp: profile_to_dict_def quorum_from_dict_def profile_storable_def split: option.split)
  have devs: "get_or ?d ''device_ids'' (PList []) = PList (map PStr (device_ids p))"
    unfolding get_or_def g by (auto simp: profile_to_dict_def split: option.split)
  have gs: "get ?d ''parent_profile_id'' = parent_profile_id p" "get ?d ''theme_hint'' = theme_hint p"
    "get ?d ''scim_provider'' = scim_provider p"
    "get_or ?d ''deny_actions_inherited'' (PList []) = PList (map PStr (deny_actions_inherited p))"
    "get_or ?d ''created_at_unix'' (PInt 0) = PInt (created_at_unix p)"
    "get_or ?d ''revoked'' (PBool False) = PBool (revoked p)"
    by (simp_all only: get_def get_or_def gets option.case)
  have "map_err device_from_dict (map PStr (device_ids p)) = Inr (device_ids p)"
    using assms by (intro map_err_device) (simp add: profile_storable_def)
  then show ?thesis
    unfolding raw profile_from_dict_def Let_def
    using derivation_roundtrip[of "derivation p"]
    by (simp add: check_def require_def require_str_def gets gs deriv key q devs map_err_py_str)
qed

lemma identity_roundtrip:
  assumes "identity_storable mi"
  shows "master_identity_from_dict (norm_json (PDict (master_identity_to_dict mi))) = Inr mi"
proof -
  let ?d = "sort_key fst (norm_items (master_identity_to_dict mi))"
  have g: "dict_get ?d k = map_option norm_json (dict_get (master_identity_to_dict mi) k)" for k
    by (rule dict_get_norm) (simp add: master_identity_to_dict_def)
  let ?rows = "map (\<lambda>p. norm_json (PDict (profile_to_dict p))) (profiles mi)"
  have gets: "dict_get ?d ''master_pubkey_hex'' = Some (PStr (master_pubkey_hex mi))"
    "dict_get ?d ''master_profile_id'' = Some (PStr (master_profile_id mi))"
    "get ?d ''label'' = opt_str (label mi)"
    "get_or ?d ''profiles'' (PList []) = PList ?rows"
    unfolding get_def get_or_def g
    by (simp_all add: master_identity_to_dict_def norm_list_map opt_str_def o_def split: option.split)
  have rows: "map_err profile_from_dict ?rows = Inr (profiles mi)"
    using assms by (auto simp: map_err_Inr_iff list.rel_map identity_storable_def
        profile_roundtrip list_all2_same simp del: norm_json.simps)
  have raw: "norm_json (PDict (master_identity_to_dict mi)) = PDict ?d" by simp
  have "profiles mi \<noteq> []" using assms by (auto simp: identity_storable_def)
  then show ?thesis
    using assms unfolding raw master_identity_from_dict_def Let_def identity_storable_def
    by (cases "label mi") (simp_all add: check_def require_def gets rows opt_str_def del: norm_json.simps)
qed

text \<open>C13: what is saved is what is loaded. An identity whose keys, identifiers and quorums have the
  stored shapes is read back field for field, every profile with its device set, key and quorum,
  the fields the writer omits at their defaults included; and the file is left as it is.\<close>

theorem load_saved_identity:
  assumes "identity_storable mi"
  shows "load_master_identity (save_master_identity mi) = (Inr (Some mi), save_master_identity mi)"
  using identity_roundtrip[OF assms]
  by (simp add: load_master_identity_def save_master_identity_def del: norm_json.simps)

definition sample_profile :: profile where
  "sample_profile = \<lparr>profile_id = ''p0'', kind = personal_master, display_name = ''Personal'',
     derivation = \<lparr>bip32_purpose = 0x72656374, profile_coin_type = 0, profile_index = 0\<rparr>,
     parent_profile_id = PNone, theme_hint = PNone, scim_provider = PNone, deny_actions_inherited = [],
     created_at_unix = 5, revoked = False, derived_pubkey_hex = None, device_ids = [''d1'', ''d2''],
     revoke_quorum_k = 2\<rparr>"

definition sample_identity :: master_identity where
  "sample_identity = \<lparr>master_pubkey_hex = replicate 128 (CHR ''a''), master_profile_id = ''p0'',
     profiles = [sample_profile], label = Some ''Me''\<rparr>"

lemma sample_storable: "identity_storable sample_identity"
  by (simp add: identity_storable_def sample_identity_def sample_profile_def profile_storable_def)

theorem load_saved_identity_witness:
  "fst (load_master_identity (save_master_identity sample_identity)) = Inr (Some sample_identity)"
  using load_saved_identity[OF sample_storable] by simp

section \<open>Operations\<close>

definition profile_bip32_purpose :: int where
  "profile_bip32_purpose = 0x72656374"

definition profile_coin_types :: "(string, int) dict" where
  "profile_coin_types = [(''personal:master'', 0), (''personal:child'', 1), (''work'', 2), (''school'', 3),
     (''contractor'', 4)]"

text \<open>\<open>zlib.crc32\<close>: the reflected polynomial, eight steps for each byte.\<close>

definition crc_step :: "32 word \<Rightarrow> 32 word" where
  "crc_step c = (if odd c then drop_bit 1 c XOR 0xEDB88320 else drop_bit 1 c)"

definition crc_byte :: "32 word \<Rightarrow> byte \<Rightarrow> 32 word" where
  "crc_byte c b = (crc_step ^^ 8) (c XOR ucast b)"

definition crc32 :: "bytes \<Rightarrow> nat" where
  "crc32 bs = unat (NOT (foldl crc_byte (NOT 0) bs))"

definition resolve_coin_type :: "string \<Rightarrow> profile_error + int" where
  "resolve_coin_type k =
     (if k = [] then Inl (BadArgument ''kind'')
      else (case dict_get profile_coin_types k of
          Some c \<Rightarrow> Inr c
        | None \<Rightarrow> Inr (100 + int (crc32 (utf8 k) mod 10000))))"

text \<open>The cleaning of a public key argument; inner white space counts towards the 128 characters
  and is then skipped by \<open>bytes.fromhex\<close>.\<close>

definition clean_pubkey :: "string \<Rightarrow> string option" where
  "clean_pubkey s = (let c = normalize_pubkey s
     in if length c \<noteq> 128 \<or> fromhex c = None then None else Some c)"

definition bootstrap_master ::
  "string \<Rightarrow> string \<Rightarrow> string option \<Rightarrow> bool \<Rightarrow> string \<Rightarrow> int \<Rightarrow> blob
     \<Rightarrow> (profile_error + master_identity) \<times> blob" where
  "bootstrap_master key name lbl force fresh_id now b =
     (case clean_pubkey key of
        None \<Rightarrow> (Inl (BadArgument ''master_pubkey_hex''), b)
      | Some k \<Rightarrow> (case load_master_identity b of
          (Inl e, b') \<Rightarrow> (Inl e, b')
        | (Inr existing, b') \<Rightarrow>
            if existing \<noteq> None \<and> \<not> force then (Inl AlreadyBootstrapped, b')
            else let p = \<lparr>profile_id = fresh_id, kind = personal_master, display_name = name,
                       derivation = \<lparr>bip32_purpose = profile_bip32_purpose, profile_coin_type = 0, profile_index = 0\<rparr>,
                       parent_profile_id = PNone, theme_hint = PNone, scim_provider = PNone,
                       deny_actions_inherited = [], created_at_unix = now, revoked = False,
                       derived_pubkey_hex = None, device_ids = [], revoke_quorum_k = 1\<rparr>;
                     mi = \<lparr>master_pubkey_hex = k, master_profile_id = fresh_id, profiles = [p],
                       label = Some (case lbl of None \<Rightarrow> name | Some l \<Rightarrow> l)\<rparr>
                 in (Inr mi, save_master_identity mi)))"

definition next_profile_index :: "master_identity \<Rightarrow> int \<Rightarrow> int" where
  "next_profile_index mi ct =
     (let used = map (\<lambda>p. profile_index (derivation p))
                   (filter (\<lambda>p. profile_coin_type (derivation p) = ct) (profiles mi))
      in if used = [] then 0 else Max (set used) + 1)"

record child_request =
  req_kind :: string
  req_name :: string
  req_theme :: pyval
  req_scim :: pyval
  req_deny :: "string list"
  req_index :: "int option"
  req_id :: "string option"
  req_pubkey :: "string option"
  req_devices :: "pyval list"
  req_quorum :: pyval

fun dedup :: "string set \<Rightarrow> string list \<Rightarrow> string list" where
  "dedup seen [] = []"
| "dedup seen (x # xs) = (if x \<in> seen then dedup seen xs else x # dedup (insert x seen) xs)"

definition clean_device :: "pyval \<Rightarrow> profile_error + string" where
  "clean_device v = (if \<not> is_str v \<or> strip (the_str v) = [] then Inl (BadArgument ''device_ids'')
     else Inr (strip (the_str v)))"

definition child_key :: "child_request \<Rightarrow> profile_error + string option" where
  "child_key r = (case req_pubkey r of
     None \<Rightarrow> Inr None
   | Some k \<Rightarrow> (case clean_pubkey k of
       None \<Rightarrow> Inl (BadArgument ''derived_pubkey_hex'') | Some c \<Rightarrow> Inr (Some c)))"

text \<open>The checks of the arguments, before the identity is read: the key, the quorum and the devices
  as they will be stored.\<close>

definition check_child :: "child_request \<Rightarrow> profile_error + (string option \<times> int \<times> string list)" where
  "check_child r =
     bind_err (check (req_kind r \<noteq> []) (BadArgument ''kind'')) (\<lambda>_.
     bind_err (check (strip (req_name r) \<noteq> []) (BadArgument ''display_name'')) (\<lambda>_.
     bind_err (check (req_kind r \<noteq> personal_master) (BadArgument ''kind'')) (\<lambda>_.
     bind_err (child_key r) (\<lambda>key.
     bind_err (check (is_int (req_quorum r) \<and> 1 \<le> the_int (req_quorum r)) (BadArgument ''revoke_quorum_k'')) (\<lambda>_.
     bind_err (map_err clean_device (req_devices r)) (\<lambda>ds.
     bind_err (check (ds = [] \<or> the_int (req_quorum r) \<le> int (length (dedup {} ds))) (BadArgument ''revoke_quorum_k'')) (\<lambda>_.
     Inr (key, the_int (req_quorum r), dedup {} ds))))))))"

definition new_child ::
  "child_request \<Rightarrow> string option \<times> int \<times> string list \<Rightarrow> int \<Rightarrow> string \<Rightarrow> int \<Rightarrow> master_identity \<Rightarrow> profile" where
  "new_child r checked ct fresh_id now mi =
     \<lparr>profile_id = (case req_id r of None \<Rightarrow> fresh_id | Some i \<Rightarrow> i), kind = req_kind r,
      display_name = strip (req_name r),
      derivation = \<lparr>bip32_purpose = profile_bip32_purpose, profile_coin_type = ct,
        profile_index = (case req_index r of None \<Rightarrow> next_profile_index mi ct | Some i \<Rightarrow> i)\<rparr>,
      parent_profile_id = PStr (master_profile_id mi), theme_hint = req_theme r,
      scim_provider = req_scim r, deny_actions_inherited = req_deny r, created_at_unix = now,
      revoked = False, derived_pubkey_hex = fst checked, device_ids = snd (snd checked),
      revoke_quorum_k = fst (snd checked)\<rparr>"

text \<open>The part on the identity: the profile returned, and the identity to save unless the profile
  was there.\<close>

definition add_child ::
  "child_request \<Rightarrow> string option \<times> int \<times> string list \<Rightarrow> string \<Rightarrow> int \<Rightarrow> master_identity
     \<Rightarrow> profile_error + (profile \<times> master_identity option)" where
  "add_child r checked fresh_id now mi =
     (case find (\<lambda>p. kind p = req_kind r \<and> display_name p = req_name r) (profiles mi) of
        Some p \<Rightarrow> Inr (p, None)
      | None \<Rightarrow>
          if req_id r \<noteq> None \<and> the (req_id r) \<in> set (map profile_id (profiles mi)) then Inl (BadArgument ''profile_id'')
          else bind_err (resolve_coin_type (req_kind r)) (\<lambda>ct.
            let p = new_child r checked ct fresh_id now mi
            in Inr (p, Some (mi\<lparr>profiles := profiles mi @ [p]\<rparr>))))"

text \<open>Loading, running an operation, and saving what it returns to save.\<close>

definition with_identity ::
  "(master_identity \<Rightarrow> profile_error + (profile \<times> master_identity option)) \<Rightarrow> blob
     \<Rightarrow> (profile_error + profile) \<times> blob" where
  "with_identity f b = (case load_master_identity b of
     (Inl e, b') \<Rightarrow> (Inl e, b')
   | (Inr None, b') \<Rightarrow> (Inl NotBootstrapped, b')
   | (Inr (Some mi), b') \<Rightarrow> (case f mi of
       Inl e \<Rightarrow> (Inl e, b')
     | Inr (p, None) \<Rightarrow> (Inr p, b')
     | Inr (p, Some mi') \<Rightarrow> (Inr p, save_master_identity mi')))"

definition create_child_profile ::
  "child_request \<Rightarrow> string \<Rightarrow> int \<Rightarrow> blob \<Rightarrow> (profile_error + profile) \<times> blob" where
  "create_child_profile r fresh_id now b = (case check_child r of
     Inl e \<Rightarrow> (Inl e, b)
   | Inr checked \<Rightarrow> with_identity (add_child r checked fresh_id now) b)"

text \<open>The first profile of an identifier, and its place.\<close>

fun find_index :: "('a \<Rightarrow> bool) \<Rightarrow> 'a list \<Rightarrow> nat option" where
  "find_index P [] = None"
| "find_index P (x # xs) = (if P x then Some 0 else map_option Suc (find_index P xs))"

definition replace_profile :: "nat \<Rightarrow> profile \<Rightarrow> master_identity \<Rightarrow> master_identity" where
  "replace_profile i p mi = mi\<lparr>profiles := (profiles mi)[i := p]\<rparr>"

definition add_device :: "string \<Rightarrow> string \<Rightarrow> master_identity \<Rightarrow> profile_error + (profile \<times> master_identity option)" where
  "add_device pid dev mi = (case find_index (\<lambda>p. profile_id p = pid) (profiles mi) of
     None \<Rightarrow> Inl UnknownProfile
   | Some i \<Rightarrow> let t = profiles mi ! i in
       if revoked t then Inl ProfileRevoked
       else if dev \<in> set (device_ids t) then Inr (t, None)
       else let p = \<lparr>profile_id = profile_id t, kind = kind t, display_name = display_name t,
                  derivation = derivation t, parent_profile_id = parent_profile_id t,
                  theme_hint = theme_hint t, scim_provider = scim_provider t,
                  deny_actions_inherited = deny_actions_inherited t, created_at_unix = created_at_unix t,
                  revoked = revoked t, derived_pubkey_hex = derived_pubkey_hex t,
                  device_ids = device_ids t @ [dev], revoke_quorum_k = 1\<rparr>
            in Inr (p, Some (replace_profile i p mi)))"

definition profile_add_device :: "string \<Rightarrow> string \<Rightarrow> blob \<Rightarrow> (profile_error + profile) \<times> blob" where
  "profile_add_device pid dev b =
     (if strip pid = [] then (Inl (BadArgument ''profile_id''), b)
      else if strip dev = [] then (Inl (BadArgument ''new_phone_id''), b)
      else with_identity (add_device (strip pid) (strip dev)) b)"

definition revoke_device :: "string \<Rightarrow> string \<Rightarrow> master_identity \<Rightarrow> profile_error + (profile \<times> master_identity option)" where
  "revoke_device pid dev mi = (case find_index (\<lambda>p. profile_id p = pid) (profiles mi) of
     None \<Rightarrow> Inl UnknownProfile
   | Some i \<Rightarrow> let t = profiles mi ! i in
       if revoked t then Inl ProfileRevoked
       else if dev \<notin> set (device_ids t) then Inr (t, None)
       else if length (device_ids t) = 1 then Inl LastDevice
       else let p = t\<lparr>device_ids := filter (\<lambda>d. d \<noteq> dev) (device_ids t)\<rparr>
            in Inr (p, Some (replace_profile i p mi)))"

definition profile_revoke_device :: "string \<Rightarrow> string \<Rightarrow> blob \<Rightarrow> (profile_error + profile) \<times> blob" where
  "profile_revoke_device pid dev b =
     (if strip pid = [] then (Inl (BadArgument ''profile_id''), b)
      else if strip dev = [] then (Inl (BadArgument ''phone_id_to_revoke''), b)
      else with_identity (revoke_device (strip pid) (strip dev)) b)"

definition revoke_profile :: "string \<Rightarrow> master_identity \<Rightarrow> profile_error + (profile \<times> master_identity option)" where
  "revoke_profile pid mi = (case find_index (\<lambda>p. profile_id p = pid) (profiles mi) of
     None \<Rightarrow> Inl UnknownProfile
   | Some i \<Rightarrow> let t = profiles mi ! i in
       if profile_id t = master_profile_id mi
          \<and> filter (\<lambda>p. profile_id p \<noteq> master_profile_id mi \<and> \<not> revoked p) (profiles mi) \<noteq> []
       then Inl MasterHasChildren
       else let p = \<lparr>profile_id = profile_id t, kind = kind t, display_name = display_name t,
                  derivation = derivation t, parent_profile_id = parent_profile_id t,
                  theme_hint = theme_hint t, scim_provider = scim_provider t,
                  deny_actions_inherited = deny_actions_inherited t, created_at_unix = created_at_unix t,
                  revoked = True, derived_pubkey_hex = None, device_ids = [], revoke_quorum_k = 1\<rparr>
            in Inr (p, Some (replace_profile i p mi)))"

definition mark_profile_revoked :: "string \<Rightarrow> blob \<Rightarrow> (profile_error + profile) \<times> blob" where
  "mark_profile_revoked pid b = with_identity (revoke_profile pid) b"

definition list_profiles :: "blob \<Rightarrow> profile_error + profile list" where
  "list_profiles b = (case fst (load_master_identity b) of
     Inl e \<Rightarrow> Inl e | Inr None \<Rightarrow> Inr [] | Inr (Some mi) \<Rightarrow> Inr (sort_key created_at_unix (profiles mi)))"

definition get_profile_by_id :: "string \<Rightarrow> blob \<Rightarrow> profile_error + profile option" where
  "get_profile_by_id pid b = (case fst (load_master_identity b) of
     Inl e \<Rightarrow> Inl e | Inr None \<Rightarrow> Inr None
   | Inr (Some mi) \<Rightarrow> Inr (find (\<lambda>p. profile_id p = pid) (profiles mi)))"

definition get_master_pubkey_hex :: "blob \<Rightarrow> profile_error + string option" where
  "get_master_pubkey_hex b = (case fst (load_master_identity b) of
     Inl e \<Rightarrow> Inl e | Inr None \<Rightarrow> Inr None | Inr (Some mi) \<Rightarrow> Inr (Some (master_pubkey_hex mi)))"

section \<open>The invariant\<close>

definition slot :: "profile \<Rightarrow> int \<times> int" where
  "slot p = (profile_coin_type (derivation p), profile_index (derivation p))"

definition devices_ok :: "string list \<Rightarrow> bool" where
  "devices_ok ds \<longleftrightarrow> distinct ds \<and> (\<forall>d \<in> set ds. strip d = d \<and> d \<noteq> [])"

definition profile_inv :: "master_identity \<Rightarrow> bool" where
  "profile_inv mi \<longleftrightarrow> identity_storable mi \<and> distinct (map profile_id (profiles mi))
     \<and> distinct (map slot (profiles mi)) \<and> (\<forall>p \<in> set (profiles mi). devices_ok (device_ids p))"

definition blob_inv :: "blob \<Rightarrow> bool" where
  "blob_inv b \<longleftrightarrow> (\<forall>mi. fst (load_master_identity b) = Inr (Some mi) \<longrightarrow> profile_inv mi)"

lemma blob_inv_save: "profile_inv mi \<Longrightarrow> blob_inv (save_master_identity mi)"
  using identity_roundtrip[of mi]
  by (simp add: blob_inv_def load_master_identity_def save_master_identity_def profile_inv_def
      del: norm_json.simps)

lemma load_blob_inv: "blob_inv b \<Longrightarrow> blob_inv (snd (load_master_identity b))"
  by (auto simp: blob_inv_def load_master_identity_def split: blob.splits sum.splits)

lemma with_identity_inv:
  assumes "blob_inv b"
    and "\<And>mi p mi'. fst (load_master_identity b) = Inr (Some mi) \<Longrightarrow> profile_inv mi \<Longrightarrow>
      f mi = Inr (p, Some mi') \<Longrightarrow> profile_inv mi'"
  shows "blob_inv (snd (with_identity f b))"
proof -
  obtain r b' where l: "load_master_identity b = (r, b')" by (cases "load_master_identity b")
  have b': "blob_inv b'" using load_blob_inv[OF assms(1)] l by simp
  show ?thesis
  proof (cases "\<exists>mi p mi'. r = Inr (Some mi) \<and> f mi = Inr (p, Some mi')")
    case True
    then obtain mi p mi' where r: "r = Inr (Some mi)" and f: "f mi = Inr (p, Some mi')" by blast
    have "profile_inv mi" using assms(1) l r by (simp add: blob_inv_def)
    then have "profile_inv mi'" using assms(2)[of mi p mi'] l r f by simp
    then show ?thesis using l r f by (simp add: with_identity_def blob_inv_save)
  next
    case False
    then have "snd (with_identity f b) = b'"
      using l by (auto simp: with_identity_def split: sum.splits option.splits prod.splits)
    then show ?thesis using b' by simp
  qed
qed

lemma dedup_props:
  "distinct (dedup seen xs) \<and> set (dedup seen xs) = set xs - seen"
  by (induction seen xs rule: dedup.induct) auto

lemma next_index_fresh:
  "p \<in> set (profiles mi) \<Longrightarrow> slot p \<noteq> (ct, next_profile_index mi ct)"
proof
  assume p: "p \<in> set (profiles mi)" and eq: "slot p = (ct, next_profile_index mi ct)"
  let ?used = "map (\<lambda>p. profile_index (derivation p))
    (filter (\<lambda>p. profile_coin_type (derivation p) = ct) (profiles mi))"
  have "p \<in> set (filter (\<lambda>p. profile_coin_type (derivation p) = ct) (profiles mi))"
    using p eq by (simp add: slot_def)
  then have m: "profile_index (derivation p) \<in> set ?used" by (metis image_eqI set_map)
  then have "?used \<noteq> []" by (metis empty_iff list.set(1))
  then have "next_profile_index mi ct = Max (set ?used) + 1"
    by (simp only: next_profile_index_def Let_def if_False)
  moreover have "profile_index (derivation p) \<le> Max (set ?used)" using m by (intro Max_ge) simp_all
  ultimately show False using eq by (simp add: slot_def)
qed

lemma check_Inr [simp]: "check ok e = Inr u \<longleftrightarrow> ok"
  by (simp add: check_def)

lemma check_child_Inr:
  assumes "check_child r = Inr (key, k, ds)"
  shows "(\<forall>c. key = Some c \<longrightarrow> length c = 128 \<and> fromhex c \<noteq> None) \<and> 1 \<le> k \<and> devices_ok ds"
proof -
  have "\<exists>cs. map_err clean_device (req_devices r) = Inr cs \<and> ds = dedup {} cs \<and> 1 \<le> k \<and> child_key r = Inr key"
    using assms unfolding check_child_def bind_err_Inr check_Inr by (elim exE conjE) simp
  then obtain cs where cs: "map_err clean_device (req_devices r) = Inr cs" "ds = dedup {} cs" "1 \<le> k"
    and key: "child_key r = Inr key" by blast
  have "strip d = d \<and> d \<noteq> []" if d: "d \<in> set cs" for d
  proof -
    obtain v where "clean_device v = Inr d" by (rule map_err_mem[OF cs(1) d])
    then show ?thesis by (auto simp: clean_device_def split: if_splits)
  qed
  then have "devices_ok ds" using dedup_props[of "{}" cs] by (simp add: devices_ok_def cs(2))
  moreover have "length c = 128 \<and> fromhex c \<noteq> None" if "key = Some c" for c
    using key that by (auto simp: child_key_def clean_pubkey_def Let_def split: option.splits if_splits)
  ultimately show ?thesis using cs(3) by blast
qed

lemma add_child_Inr:
  assumes "add_child r c fid now mi = Inr (p, Some mi')"
  obtains ct where "p = new_child r c ct fid now mi" "mi' = mi\<lparr>profiles := profiles mi @ [p]\<rparr>"
    "\<forall>i. req_id r = Some i \<longrightarrow> i \<notin> set (map profile_id (profiles mi))"
proof -
  have none: "find (\<lambda>p. kind p = req_kind r \<and> display_name p = req_name r) (profiles mi) = None"
    using assms by (cases "find (\<lambda>p. kind p = req_kind r \<and> display_name p = req_name r) (profiles mi)")
      (simp_all add: add_child_def)
  have fresh: "\<not> (req_id r \<noteq> None \<and> the (req_id r) \<in> set (map profile_id (profiles mi)))"
    using assms none by (auto simp: add_child_def)
  obtain ct where "resolve_coin_type (req_kind r) = Inr ct"
    using assms none fresh by (auto simp: add_child_def bind_err_Inr)
  then show ?thesis using assms none fresh by (intro that[of ct]) (auto simp: add_child_def Let_def)
qed

lemma add_child_inv:
  assumes "profile_inv mi" "check_child r = Inr c" "add_child r c fid now mi = Inr (p, Some mi')"
    and "req_index r = None" "scalar (req_theme r)" "scalar (req_scim r)"
    and "fid \<notin> set (map profile_id (profiles mi))"
  shows "profile_inv mi'"
proof -
  obtain key k ds where c: "c = (key, k, ds)" by (cases c)
  note chk = check_child_Inr[OF assms(2)[unfolded c]]
  obtain ct where p: "p = new_child r c ct fid now mi" and mi': "mi' = mi\<lparr>profiles := profiles mi @ [p]\<rparr>"
    and over: "\<forall>i. req_id r = Some i \<longrightarrow> i \<notin> set (map profile_id (profiles mi))"
    by (rule add_child_Inr[OF assms(3)])
  have id: "profile_id p \<notin> set (map profile_id (profiles mi))"
    using over assms(7) by (simp add: p new_child_def split: option.split)
  have "slot p = (ct, next_profile_index mi ct)" by (simp add: p new_child_def slot_def assms(4))
  then have sl: "slot p \<notin> set (map slot (profiles mi))" using next_index_fresh[of _ mi ct] by force
  have st: "profile_storable p"
    using chk assms(5,6) by (auto simp: p c new_child_def profile_storable_def devices_ok_def)
  have dv: "devices_ok (device_ids p)" using chk by (simp add: p c new_child_def)
  show ?thesis
    using assms(1) id sl st dv unfolding mi' profile_inv_def identity_storable_def by auto
qed

lemma find_index_Some: "find_index P xs = Some i \<Longrightarrow> i < length xs \<and> P (xs ! i) \<and> (\<forall>j < i. \<not> P (xs ! j))"
proof (induction xs arbitrary: i)
  case (Cons x xs)
  then show ?case by (auto split: if_splits simp: nth_Cons split: nat.splits)
qed simp

lemma replace_profile_inv:
  assumes "profile_inv mi" and "i < length (profiles mi)"
    and "profile_id p = profile_id (profiles mi ! i)" and "slot p = slot (profiles mi ! i)"
    and "profile_storable p" and "devices_ok (device_ids p)"
  shows "profile_inv (replace_profile i p mi)"
proof -
  have same: "map f ((profiles mi)[i := p]) = map f (profiles mi)" if "f p = f (profiles mi ! i)" for f :: "profile \<Rightarrow> 'a"
    using assms(2) that by (metis list_update_id map_update nth_map)
  have "set ((profiles mi)[i := p]) \<subseteq> insert p (set (profiles mi))" by (rule set_update_subset_insert)
  then show ?thesis
    using assms same[of profile_id] same[of slot]
    unfolding profile_inv_def identity_storable_def replace_profile_def by (auto simp del: map_update)
qed

lemma target_inv:
  assumes "profile_inv mi" and "i < length (profiles mi)"
  shows "profile_storable (profiles mi ! i)" "devices_ok (device_ids (profiles mi ! i))"
  using assms nth_mem[OF assms(2)] by (auto simp: profile_inv_def identity_storable_def)

lemma add_device_inv:
  assumes "profile_inv mi" "add_device pid dev mi = Inr (p, Some mi')" "strip dev = dev" "dev \<noteq> []"
  shows "profile_inv mi'"
proof -
  obtain i where i: "find_index (\<lambda>p. profile_id p = pid) (profiles mi) = Some i"
    using assms(2) by (auto simp: add_device_def split: option.splits)
  note lt = find_index_Some[OF i, THEN conjunct1]
  have mi': "mi' = replace_profile i p mi" and p: "profile_id p = profile_id (profiles mi ! i)"
    "slot p = slot (profiles mi ! i)" "device_ids p = device_ids (profiles mi ! i) @ [dev]"
    "dev \<notin> set (device_ids (profiles mi ! i))" "revoke_quorum_k p = 1"
    "derived_pubkey_hex p = derived_pubkey_hex (profiles mi ! i)"
    "parent_profile_id p = parent_profile_id (profiles mi ! i)" "theme_hint p = theme_hint (profiles mi ! i)"
    "scim_provider p = scim_provider (profiles mi ! i)"
    using assms(2) i by (auto simp: add_device_def Let_def slot_def split: if_splits)
  show ?thesis
    unfolding mi' using target_inv[OF assms(1) lt] p assms(3,4)
    by (intro replace_profile_inv[OF assms(1) lt]) (auto simp: profile_storable_def devices_ok_def)
qed

lemma revoke_device_inv:
  assumes "profile_inv mi" "revoke_device pid dev mi = Inr (p, Some mi')"
  shows "profile_inv mi'"
proof -
  obtain i where i: "find_index (\<lambda>p. profile_id p = pid) (profiles mi) = Some i"
    using assms(2) by (auto simp: revoke_device_def split: option.splits)
  note lt = find_index_Some[OF i, THEN conjunct1]
  have "mi' = replace_profile i p mi"
    "p = (profiles mi ! i)\<lparr>device_ids := filter (\<lambda>d. d \<noteq> dev) (device_ids (profiles mi ! i))\<rparr>"
    using assms(2) i by (auto simp: revoke_device_def Let_def split: if_splits)
  then show ?thesis
    using target_inv[OF assms(1) lt]
    by (auto intro!: replace_profile_inv[OF assms(1) lt] simp: slot_def profile_storable_def devices_ok_def)
qed

lemma revoke_profile_inv:
  assumes "profile_inv mi" "revoke_profile pid mi = Inr (p, Some mi')"
  shows "profile_inv mi'"
proof -
  obtain i where i: "find_index (\<lambda>p. profile_id p = pid) (profiles mi) = Some i"
    using assms(2) by (auto simp: revoke_profile_def split: option.splits)
  note lt = find_index_Some[OF i, THEN conjunct1]
  have mi': "mi' = replace_profile i p mi" and p: "profile_id p = profile_id (profiles mi ! i)"
    "slot p = slot (profiles mi ! i)" "device_ids p = []" "revoke_quorum_k p = 1" "derived_pubkey_hex p = None"
    "parent_profile_id p = parent_profile_id (profiles mi ! i)" "theme_hint p = theme_hint (profiles mi ! i)"
    "scim_provider p = scim_provider (profiles mi ! i)"
    using assms(2) i by (auto simp: revoke_profile_def Let_def slot_def split: if_splits)
  show ?thesis
    unfolding mi' using target_inv[OF assms(1) lt] p
    by (intro replace_profile_inv[OF assms(1) lt]) (auto simp: profile_storable_def devices_ok_def)
qed

lemma bootstrap_inv:
  assumes "blob_inv b" "fid \<noteq> []"
  shows "blob_inv (snd (bootstrap_master key name lbl force fid now b))"
proof -
  have "blob_inv (snd (load_master_identity b))" by (rule load_blob_inv[OF assms(1)])
  moreover have "length c = 128" if "clean_pubkey key = Some c" for c
    using that by (auto simp: clean_pubkey_def Let_def split: if_splits)
  ultimately show ?thesis
    using assms by (auto simp: bootstrap_master_def Let_def profile_inv_def identity_storable_def
        profile_storable_def devices_ok_def split: option.split prod.split sum.split
        intro!: blob_inv_save)
qed

text \<open>One mutation of the stored identity, as the program makes them: \<open>uuid4\<close> gives an identifier
  no stored profile has, and production callers give no index.\<close>

inductive profile_step :: "blob \<Rightarrow> blob \<Rightarrow> bool" where
  bootstrap: "fid \<noteq> [] \<Longrightarrow> profile_step b (snd (bootstrap_master key name lbl force fid now b))"
| create: "req_index r = None \<Longrightarrow> scalar (req_theme r) \<Longrightarrow> scalar (req_scim r) \<Longrightarrow>
    (\<And>mi. fst (load_master_identity b) = Inr (Some mi) \<Longrightarrow> fid \<notin> set (map profile_id (profiles mi))) \<Longrightarrow>
    profile_step b (snd (create_child_profile r fid now b))"
| add: "profile_step b (snd (profile_add_device pid dev b))"
| remove: "profile_step b (snd (profile_revoke_device pid dev b))"
| revoke: "profile_step b (snd (mark_profile_revoked pid b))"

inductive reachable :: "blob \<Rightarrow> bool" where
  start: "reachable Absent"
| step: "reachable b \<Longrightarrow> profile_step b b' \<Longrightarrow> reachable b'"

lemma profile_step_inv: "profile_step b b' \<Longrightarrow> blob_inv b \<Longrightarrow> blob_inv b'"
proof (induction rule: profile_step.induct)
  case (bootstrap fid b key name lbl force now)
  then show ?case by (intro bootstrap_inv)
next
  case (create r b fid now)
  then show ?case
    by (auto simp: create_child_profile_def split: sum.split intro!: with_identity_inv intro: add_child_inv)
next
  case (add b pid dev)
  then show ?case
    by (auto simp: profile_add_device_def intro!: with_identity_inv intro: add_device_inv)
next
  case (remove b pid dev)
  then show ?case
    by (auto simp: profile_revoke_device_def intro!: with_identity_inv intro: revoke_device_inv)
next
  case (revoke b pid)
  then show ?case
    by (auto simp: mark_profile_revoked_def intro!: with_identity_inv intro: revoke_profile_inv)
qed

section \<open>Properties of the operations\<close>

text \<open>C8: whatever sequence of bootstraps, creations, device additions and removals and revocations
  is run from an empty state, a stored identity keeps its shape: it has its master row, no two
  profiles share an identifier or a derivation slot (so no two share a key path), every device set
  is free of duplicates and blanks, and every quorum is at least one.\<close>

theorem reachable_profile_inv:
  assumes "reachable b" and "fst (load_master_identity b) = Inr (Some mi)"
  shows "distinct (map profile_id (profiles mi))
    \<and> distinct (map (\<lambda>p. (profile_coin_type (derivation p), profile_index (derivation p))) (profiles mi))
    \<and> master_profile_id mi \<in> set (map profile_id (profiles mi))
    \<and> (\<forall>p \<in> set (profiles mi). distinct (device_ids p) \<and> [] \<notin> set (device_ids p) \<and> 1 \<le> revoke_quorum_k p)"
proof -
  have "blob_inv b" using assms(1)
  proof (induction rule: reachable.induct)
    case start
    then show ?case by (simp add: blob_inv_def load_master_identity_def)
  next
    case (step b b')
    then show ?case using profile_step_inv by blast
  qed
  then have "profile_inv mi" using assms(2) by (simp add: blob_inv_def)
  moreover have "slot = (\<lambda>p. (profile_coin_type (derivation p), profile_index (derivation p)))"
    by (rule ext) (simp add: slot_def)
  ultimately show ?thesis
    by (auto simp: profile_inv_def identity_storable_def profile_storable_def devices_ok_def)
qed

definition sample_key :: string where
  "sample_key = replicate 128 (CHR ''b'')"

definition booted :: blob where
  "booted = snd (bootstrap_master sample_key ''Personal'' None False ''p0'' 5 Absent)"

lemma booted_loads: "\<exists>mi. fst (load_master_identity booted) = Inr (Some mi) \<and> length (profiles mi) = 1"
proof -
  have ck: "clean_pubkey sample_key = Some sample_key" unfolding sample_key_def by code_simp
  let ?p = "\<lparr>profile_id = ''p0'', kind = personal_master, display_name = ''Personal'',
     derivation = \<lparr>bip32_purpose = profile_bip32_purpose, profile_coin_type = 0, profile_index = 0\<rparr>,
     parent_profile_id = PNone, theme_hint = PNone, scim_provider = PNone,
     deny_actions_inherited = [], created_at_unix = 5, revoked = False,
     derived_pubkey_hex = None, device_ids = [], revoke_quorum_k = 1\<rparr>"
  let ?mi = "\<lparr>master_pubkey_hex = sample_key, master_profile_id = ''p0'', profiles = [?p], label = Some ''Personal''\<rparr>"
  have b: "booted = save_master_identity ?mi"
    by (simp add: booted_def bootstrap_master_def ck load_master_identity_def Let_def)
  have "identity_storable ?mi" by (simp add: identity_storable_def profile_storable_def sample_key_def)
  then show ?thesis unfolding b save_master_identity_def load_master_identity_def
    by (simp add: identity_roundtrip del: norm_json.simps)
qed

theorem reachable_profile_inv_witness:
  "\<exists>mi. fst (load_master_identity booted) = Inr (Some mi) \<and> distinct (map profile_id (profiles mi))"
proof -
  have "reachable booted" unfolding booted_def
    by (intro reachable.step[OF reachable.start] profile_step.bootstrap) simp
  then show ?thesis using booted_loads reachable_profile_inv by blast
qed

text \<open>The last device of a profile is never removed. A removal that changes the identity removes
  exactly the named device from exactly the first profile of that identifier, which is not revoked
  and keeps at least one device; every other field and every other profile stays as it was; and the
  removal of a device that is not a member changes nothing.\<close>

theorem revoke_device_last_guard:
  assumes "profile_inv mi" and "revoke_device pid dev mi = Inr (p, r)"
  shows "dev \<notin> set (device_ids p) \<and> \<not> revoked p \<and> profile_id p = pid
    \<and> (case r of
         None \<Rightarrow> p \<in> set (profiles mi)
       | Some mi' \<Rightarrow> device_ids p \<noteq> [] \<and> length (profiles mi') = length (profiles mi)
           \<and> (\<exists>i < length (profiles mi). profiles mi' = (profiles mi)[i := p]
               \<and> p = (profiles mi ! i)\<lparr>device_ids := remove1 dev (device_ids (profiles mi ! i))\<rparr>
               \<and> dev \<in> set (device_ids (profiles mi ! i))))"
proof -
  obtain i where i: "find_index (\<lambda>p. profile_id p = pid) (profiles mi) = Some i"
    using assms(2) by (auto simp: revoke_device_def split: option.splits)
  note fi = find_index_Some[OF i]
  let ?t = "profiles mi ! i"
  have d: "distinct (device_ids ?t)" using target_inv(2)[OF assms(1)] fi by (simp add: devices_ok_def)
  have rv: "\<not> revoked ?t" using assms(2) i by (auto simp: revoke_device_def)
  show ?thesis
  proof (cases "dev \<in> set (device_ids ?t)")
    case False
    then show ?thesis using assms(2) i fi rv by (auto simp: revoke_device_def)
  next
    case True
    have l: "length (device_ids ?t) \<noteq> 1" using assms(2) i rv True by (auto simp: revoke_device_def)
    have rest: "filter (\<lambda>e. e \<noteq> dev) (device_ids ?t) = remove1 dev (device_ids ?t)"
      using d by (simp add: distinct_remove1_removeAll removeAll_filter_not_eq eq_commute)
    have "length (remove1 dev (device_ids ?t)) = length (device_ids ?t) - 1"
      using True by (simp add: length_remove1)
    moreover have "0 < length (device_ids ?t)" using True by (cases "device_ids ?t") auto
    ultimately have "0 < length (remove1 dev (device_ids ?t))" using l by linarith
    then have ne: "remove1 dev (device_ids ?t) \<noteq> []" by (metis length_greater_0_conv)
    have p: "p = ?t\<lparr>device_ids := remove1 dev (device_ids ?t)\<rparr>" and r: "r = Some (replace_profile i p mi)"
      using assms(2) i rv True l by (auto simp: revoke_device_def Let_def rest)
    have "dev \<notin> set (device_ids p)" using d by (simp add: p)
    then show ?thesis using fi rv True ne unfolding r
      by (auto simp: p replace_profile_def)
  qed
qed

theorem revoke_device_last_guard_witness:
  "\<exists>p mi'. revoke_device ''p0'' ''d1'' sample_identity = Inr (p, Some mi') \<and> device_ids p \<noteq> []"
proof -
  have inv: "profile_inv sample_identity"
    using sample_storable
    by (simp add: profile_inv_def sample_identity_def sample_profile_def devices_ok_def strip_def lstrip_def
        rstrip_def py_space_def)
  have "\<exists>p mi'. revoke_device ''p0'' ''d1'' sample_identity = Inr (p, Some mi')"
    by (simp add: revoke_device_def sample_identity_def sample_profile_def Let_def)
  then obtain p mi' where run: "revoke_device ''p0'' ''d1'' sample_identity = Inr (p, Some mi')" by blast
  show ?thesis using revoke_device_last_guard[OF inv run] run by auto
qed

text \<open>Three mutations lose or strand a profile's revocation quorum. Adding a device resets the
  quorum to one, whatever it was; revoking a profile drops its key, its devices and its quorum from
  the row that stays; and removing a device can leave a quorum above the number of devices, which no
  later revocation can meet.\<close>

theorem quorum_not_kept:
  "(\<exists>p mi'. add_device ''p0'' ''d3'' sample_identity = Inr (p, Some mi')
      \<and> revoke_quorum_k sample_profile = 2 \<and> revoke_quorum_k p = 1)
   \<and> (\<exists>p mi'. revoke_profile ''p0'' sample_identity = Inr (p, Some mi')
      \<and> device_ids p = [] \<and> revoke_quorum_k p = 1 \<and> derived_pubkey_hex p = None)
   \<and> (\<exists>p mi'. revoke_device ''p0'' ''d1'' sample_identity = Inr (p, Some mi')
      \<and> revoke_quorum_k p = 2 \<and> length (device_ids p) = 1)"
  by (simp add: add_device_def revoke_profile_def revoke_device_def sample_identity_def sample_profile_def Let_def)

definition work_request :: child_request where
  "work_request = \<lparr>req_kind = ''work'', req_name = ''Acme'', req_theme = PNone, req_scim = PNone, req_deny = [],
     req_index = None, req_id = None, req_pubkey = None, req_devices = [], req_quorum = PInt 1\<rparr>"

text \<open>A profile that was created and then revoked cannot be created again: the second creation
  with the same kind and name answers with the revoked row and stores nothing. And a name with white
  space around it is compared unstripped but stored stripped, so the same request makes a second row
  of the same kind and name each time.\<close>

theorem create_after_revoke:
  "(\<exists>p mi1 q mi2. add_child work_request (None, 1, []) ''w1'' 7 sample_identity = Inr (p, Some mi1)
      \<and> revoke_profile ''w1'' mi1 = Inr (q, Some mi2) \<and> revoked q
      \<and> add_child work_request (None, 1, []) ''w2'' 8 mi2 = Inr (q, None))
   \<and> (\<exists>p mi1 q mi2. add_child (work_request\<lparr>req_name := '' Acme''\<rparr>) (None, 1, []) ''w1'' 7 sample_identity = Inr (p, Some mi1)
      \<and> add_child (work_request\<lparr>req_name := '' Acme''\<rparr>) (None, 1, []) ''w2'' 8 mi1 = Inr (q, Some mi2)
      \<and> kind p = kind q \<and> display_name p = display_name q \<and> profile_id p \<noteq> profile_id q)"
proof -
  have "strip ''Acme'' = ''Acme''" "strip '' Acme'' = ''Acme''" by code_simp+
  then show ?thesis
    by (simp add: add_child_def new_child_def revoke_profile_def work_request_def sample_identity_def
        sample_profile_def personal_master_def resolve_coin_type_def profile_coin_types_def Let_def
        replace_profile_def)
qed

text \<open>The check of a public key counts characters, not digits: 122 digits in a row after two
  pairs and two spaces are 128 characters that decode to 63 bytes, and are stored as the key.\<close>

theorem pubkey_with_spaces:
  "\<exists>k bs. clean_pubkey (''aa aa '' @ replicate 122 (CHR ''a'')) = Some k \<and> fromhex k = Some bs \<and> length bs = 63"
proof -
  let ?s = "''aa aa '' @ replicate 122 (CHR ''a'')"
  have "clean_pubkey ?s = Some ?s" by code_simp
  moreover have "fromhex ?s = Some (replicate 63 170)" by code_simp
  ultimately show ?thesis by simp
qed

end
