(* ===== verification/Secp256k1.thy ===== *)
theory Secp256k1
  imports Codec
begin

text \<open>
  The verify-side secp256k1 arithmetic of \<^verbatim>\<open>src/recto/ethereum.py\<close> and the public-key recovery built
  on it, on unbounded integers as the code computes. A point at infinity is \<open>None\<close>; a modular
  inverse that does not exist is Python's \<open>ValueError\<close>, here \<open>Inl\<close>.
\<close>

datatype ec_error =
    NotInvertible
  | HashLength
  | SignatureLength
  | SignatureHex
  | SignatureRange
  | RecoveryId
  | NotOnCurve
  | InfinityEG
  | InfinityDifference
  | InfinityResult

type_synonym point = "int \<times> int"

definition secp_p :: int where
  "secp_p = 0xFFFFFFFFFFFFFFFFFFFFFFFFFFFFFFFFFFFFFFFFFFFFFFFFFFFFFFFEFFFFFC2F"

definition secp_n :: int where
  "secp_n = 0xFFFFFFFFFFFFFFFFFFFFFFFFFFFFFFFEBAAEDCE6AF48A03BBFD25E8CD0364141"

definition secp_g :: point where
  "secp_g = (0x79BE667EF9DCBBAC55A06295CE870B07029BFCDB2DCE28D959F2815B16F81798,
             0x483ADA7726A3C4655DA4FBFC0E1108A8FD17B448A68554199C47D08FFB10D4B8)"

section \<open>Modular arithmetic\<close>

text \<open>\<open>pow(a, -1, m)\<close>, by the extended Euclidean algorithm.\<close>

function egcd :: "int \<Rightarrow> int \<Rightarrow> int \<times> int \<times> int" where
  "egcd a b = (if b \<le> 0 then (a, 1, 0)
     else (case egcd b (a mod b) of (g, s, t) \<Rightarrow> (g, t, s - (a div b) * t)))"
  by pat_completeness auto
termination by (relation "measure (\<lambda>(a, b). nat b)") auto

declare egcd.simps [simp del]

definition modinv :: "int \<Rightarrow> int \<Rightarrow> ec_error + int" where
  "modinv a m = (case egcd (a mod m) m of (g, s, t) \<Rightarrow>
     if g = 1 then Inr (s mod m) else Inl NotInvertible)"

text \<open>\<open>pow(b, e, m)\<close>, by repeated squaring.\<close>

fun pow_mod :: "int \<Rightarrow> nat \<Rightarrow> int \<Rightarrow> int" where
  "pow_mod b e m = (if e = 0 then 1 mod m
     else let h = pow_mod (b * b mod m) (e div 2) m in if odd e then b * h mod m else h)"

declare pow_mod.simps [simp del]

lemma egcd_bezout:
  "egcd a b = (g, s, t) \<Longrightarrow> g = s * a + t * b"
proof (induction a b arbitrary: g s t rule: egcd.induct)
  case (1 a b)
  show ?case
  proof (cases "b \<le> 0")
    case True
    then show ?thesis using 1(2) by (simp add: egcd.simps)
  next
    case False
    obtain g' s' t' where r: "egcd b (a mod b) = (g', s', t')" by (cases "egcd b (a mod b)")
    have bez: "g' = s' * b + t' * (a mod b)" by (rule "1.IH"[OF False r])
    have "egcd a b = (g', t', s' - (a div b) * t')"
      using False r by (simp add: egcd.simps[of a b])
    then have eqs: "g = g'" "s = t'" "t = s' - (a div b) * t'" using 1(2) by simp_all
    have "a mod b = a - a div b * b" by (simp add: minus_div_mult_eq_mod)
    with bez have "g' = s' * b + t' * (a - a div b * b)" by simp
    then show ?thesis unfolding eqs by (simp add: algebra_simps)
  qed
qed

lemma modinv_inverse:
  assumes "modinv a m = Inr b"
  shows "(a * b) mod m = 1 mod m"
proof -
  obtain g s t where e: "egcd (a mod m) m = (g, s, t)" by (cases "egcd (a mod m) m")
  then have g: "g = 1" and b: "b = s mod m" using assms by (auto simp: modinv_def split: if_splits)
  have "1 = s * (a mod m) + t * m" using egcd_bezout[OF e] g by simp
  then have "1 mod m = (s * (a mod m) + t * m) mod m" by simp
  also have "\<dots> = s * a mod m" by (simp add: mod_mult_right_eq)
  finally show ?thesis by (simp add: b mod_mult_right_eq mult.commute)
qed

lemma pow_mod_power: "0 < m \<Longrightarrow> pow_mod b e m = b ^ e mod m"
proof (induction b e m rule: pow_mod.induct)
  case (1 b e m)
  show ?case
  proof (cases "e = 0")
    case True
    then show ?thesis by (simp add: pow_mod.simps)
  next
    case False
    have h: "pow_mod (b * b mod m) (e div 2) m = (b * b) ^ (e div 2) mod m"
      using 1 False by (simp add: power_mod)
    have "(b * b) ^ (e div 2) = b ^ (2 * (e div 2))" by (simp add: power_mult power2_eq_square)
    moreover have "odd e \<Longrightarrow> e = Suc (2 * (e div 2))" "even e \<Longrightarrow> e = 2 * (e div 2)" by auto
    ultimately have "odd e \<Longrightarrow> b ^ e = b * (b * b) ^ (e div 2)" "even e \<Longrightarrow> b ^ e = (b * b) ^ (e div 2)"
      by (metis power_Suc)+
    then show ?thesis using h False
      by (subst pow_mod.simps) (auto simp: Let_def mod_mult_right_eq)
  qed
qed

section \<open>Points\<close>

definition ec_add :: "point option \<Rightarrow> point option \<Rightarrow> ec_error + point option" where
  "ec_add p q = (case (p, q) of
     (None, _) \<Rightarrow> Inr q
   | (_, None) \<Rightarrow> Inr p
   | (Some (x1, y1), Some (x2, y2)) \<Rightarrow>
       if x1 = x2 \<and> (y1 + y2) mod secp_p = 0 then Inr None
       else (case (if x1 = x2 then modinv (2 * y1 mod secp_p) secp_p
                   else modinv ((x2 - x1) mod secp_p) secp_p) of
           Inl e \<Rightarrow> Inl e
         | Inr d \<Rightarrow>
             let lam = (if x1 = x2 then 3 * x1 * x1 else y2 - y1) * d mod secp_p;
                 x3 = (lam * lam - x1 - x2) mod secp_p;
                 y3 = (lam * (x1 - x3) - y1) mod secp_p
             in Inr (Some (x3, y3))))"

text \<open>The loop of \<open>_ec_mul\<close>: \<open>k\<close> is halved, so it ends.\<close>

fun ec_loop :: "nat \<Rightarrow> point option \<Rightarrow> point option \<Rightarrow> ec_error + point option" where
  "ec_loop k acc addend =
     (if k = 0 then Inr acc
      else (case (if odd k then ec_add acc addend else Inr acc) of
          Inl e \<Rightarrow> Inl e
        | Inr acc' \<Rightarrow> (case ec_add addend addend of
              Inl e \<Rightarrow> Inl e
            | Inr addend' \<Rightarrow> ec_loop (k div 2) acc' addend')))"

declare ec_loop.simps [simp del]

definition ec_mul :: "int \<Rightarrow> point option \<Rightarrow> ec_error + point option" where
  "ec_mul k p = (case p of
     None \<Rightarrow> Inr None
   | Some (x, y) \<Rightarrow>
       if k mod secp_n = 0 then Inr None
       else if k < 0 then ec_loop (nat (- k)) None (Some (x, (- y) mod secp_p))
       else ec_loop (nat k) None (Some (x, y)))"

definition y_from_x :: "int \<Rightarrow> bool \<Rightarrow> int option" where
  "y_from_x x y_is_odd =
     (let rhs = (x * x * x + 7) mod secp_p;
          y = pow_mod rhs (nat ((secp_p + 1) div 4)) secp_p
      in if (y * y) mod secp_p \<noteq> rhs then None
         else Some (if odd y \<noteq> y_is_odd then (- y) mod secp_p else y))"

section \<open>Recovery\<close>

text \<open>A signature is raw bytes or a hexadecimal text.\<close>

datatype signature = SigBytes bytes | SigHex string

definition parse_signature_rsv :: "signature \<Rightarrow> ec_error + int \<times> int \<times> int" where
  "parse_signature_rsv sg =
     (let split = (\<lambda>bs. if length bs \<noteq> 65 then Inl SignatureLength
            else Inr (int (from_bytes (take 32 bs)), int (from_bytes (take 32 (drop 32 bs))), int (nat_of (bs ! 64))))
      in case sg of
           SigBytes bs \<Rightarrow> split bs
         | SigHex s \<Rightarrow>
             let t = (if startswith s ''0x'' \<or> startswith s ''0X'' then drop 2 s else s)
             in if length t \<noteq> 130 then Inl SignatureLength
                else (case fromhex t of None \<Rightarrow> Inl SignatureHex | Some bs \<Rightarrow> split bs))"

text \<open>The last step, \<open>Q = r^-1 * (s*R - e*G)\<close>, and the bytes of its coordinates.\<close>

definition recover_point :: "int \<Rightarrow> point option \<Rightarrow> point option \<Rightarrow> ec_error + bytes" where
  "recover_point r_inv sR eG = (case eG of
     None \<Rightarrow> Inl InfinityEG
   | Some (gx, gy) \<Rightarrow> (case ec_add sR (Some (gx, (- gy) mod secp_p)) of
       Inl err \<Rightarrow> Inl err
     | Inr None \<Rightarrow> Inl InfinityDifference
     | Inr (Some d) \<Rightarrow> (case ec_mul r_inv (Some d) of
         Inl err \<Rightarrow> Inl err
       | Inr None \<Rightarrow> Inl InfinityResult
       | Inr (Some (qx, qy)) \<Rightarrow> Inr (to_bytes_fixed 32 (nat qx) @ to_bytes_fixed 32 (nat qy)))))"

definition recover_rs :: "int \<Rightarrow> int \<Rightarrow> int \<Rightarrow> int \<Rightarrow> ec_error + bytes" where
  "recover_rs e r s rec_id = (case y_from_x r (rec_id = 1) of
     None \<Rightarrow> Inl NotOnCurve
   | Some ry \<Rightarrow> (case modinv r secp_n of
       Inl err \<Rightarrow> Inl err
     | Inr r_inv \<Rightarrow> (case ec_mul s (Some (r, ry)) of
         Inl err \<Rightarrow> Inl err
       | Inr sR \<Rightarrow> (case ec_mul e (Some secp_g) of
           Inl err \<Rightarrow> Inl err
         | Inr eG \<Rightarrow> recover_point r_inv sR eG))))"

definition recover_public_key :: "bytes \<Rightarrow> signature \<Rightarrow> ec_error + bytes" where
  "recover_public_key h sg =
     (if length h \<noteq> 32 then Inl HashLength
      else (case parse_signature_rsv sg of
        Inl e \<Rightarrow> Inl e
      | Inr (r, s, v) \<Rightarrow>
          let rec_id = (if 27 \<le> v then v - 27 else v)
          in if \<not> (1 \<le> r \<and> r < secp_n) \<or> \<not> (1 \<le> s \<and> s < secp_n) then Inl SignatureRange
             else if rec_id \<noteq> 0 \<and> rec_id \<noteq> 1 then Inl RecoveryId
             else recover_rs (int (from_bytes h) mod secp_n) r s rec_id))"

section \<open>Points stay on the curve\<close>

definition on_curve :: "point \<Rightarrow> bool" where
  "on_curve q = (case q of (x, y) \<Rightarrow>
     (x * x * x + 7 - y * y) mod secp_p = 0 \<and> 0 \<le> x \<and> x < secp_p \<and> 0 \<le> y \<and> y < secp_p)"

text \<open>The third intersection of a line with the curve, over the integers modulo any \<open>p\<close>: only the
  inverse the code computed is used, not that \<open>p\<close> is prime.\<close>

lemma third_point:
  fixes p :: int
  assumes c1: "p dvd x1 * x1 * x1 + 7 - y1 * y1" and x3: "x3 = lam * lam - x1 - x2"
    and u: "u = 2 * lam * (lam * x1 - y1) - (x1 * x2 + x1 * x3 + x2 * x3)" and pu: "p dvd u"
  shows "p dvd x3 * x3 * x3 + 7 - (lam * (x1 - x3) - y1) * (lam * (x1 - x3) - y1)"
proof -
  have "x3 * x3 * x3 + 7 - (lam * (x1 - x3) - y1) * (lam * (x1 - x3) - y1)
      = (x1 * x1 * x1 + 7 - y1 * y1) + u * (x3 - x1)"
    unfolding u x3 by algebra
  then show ?thesis using c1 pu by (metis dvd_add dvd_mult2)
qed

lemma chord_slope:
  fixes p :: int
  assumes c1: "p dvd x1 * x1 * x1 + 7 - y1 * y1" and c2: "p dvd x2 * x2 * x2 + 7 - y2 * y2"
    and l: "p dvd lam * (x2 - x1) - (y2 - y1)" and i: "p dvd (x2 - x1) * d - 1"
    and x3: "x3 = lam * lam - x1 - x2"
    and u: "u = 2 * lam * (lam * x1 - y1) - (x1 * x2 + x1 * x3 + x2 * x3)"
  shows "p dvd u"
proof -
  let ?t = "y1 + lam * (x2 - x1)"
  have "x2 * x2 * x2 + 7 - ?t * ?t =
      (x2 * x2 * x2 + 7 - y2 * y2) - (lam * (x2 - x1) - (y2 - y1)) * (y2 + ?t)" by algebra
  then have "p dvd x2 * x2 * x2 + 7 - ?t * ?t" using c2 l by (metis dvd_diff dvd_mult2)
  moreover have "u * (x2 - x1) = (x2 * x2 * x2 + 7 - ?t * ?t) - (x1 * x1 * x1 + 7 - y1 * y1)"
    unfolding u x3 by algebra
  ultimately have "p dvd u * (x2 - x1)" using c1 by (metis dvd_diff)
  moreover have "u = u * (x2 - x1) * d - u * ((x2 - x1) * d - 1)" by algebra
  ultimately show ?thesis using i by (metis dvd_diff dvd_mult dvd_mult2)
qed

lemma tangent_slope:
  fixes p :: int
  assumes l: "p dvd lam * (2 * y1) - 3 * x1 * x1" and x3: "x3 = lam * lam - x1 - x1"
    and u: "u = 2 * lam * (lam * x1 - y1) - (x1 * x1 + x1 * x3 + x1 * x3)"
  shows "p dvd u"
proof -
  have "u = - (lam * (2 * y1) - 3 * x1 * x1)" unfolding u x3 by algebra
  then show ?thesis using l by (metis dvd_minus_iff)
qed

lemma secp_p_pos [simp]: "0 < secp_p"
  by (simp add: secp_p_def)

lemma modinv_dvd:
  assumes "modinv (a mod m) m = Inr d"
  shows "m dvd a * d - 1"
  using modinv_inverse[OF assms] by (simp add: mod_eq_dvd_iff mod_mult_left_eq)

lemma dvd_mod_cancel: "p dvd lam * a - b \<Longrightarrow> p dvd (lam mod p) * a - b" for p :: int
proof -
  assume a: "p dvd lam * a - b"
  have "(lam mod p) * a - b = (lam * a - b) - p * (lam div p) * a"
    by (simp add: minus_mult_div_eq_mod[symmetric] algebra_simps)
  then show ?thesis using a by (metis dvd_diff dvd_mult2 dvd_triv_left)
qed

lemma ec_add_Some:
  assumes "ec_add (Some (x1, y1)) (Some (x2, y2)) = Inr (Some q)"
  obtains d where "modinv ((if x1 = x2 then 2 * y1 else x2 - x1) mod secp_p) secp_p = Inr d"
    and "q = (let lam = (if x1 = x2 then 3 * x1 * x1 else y2 - y1) * d mod secp_p;
        x3 = (lam * lam - x1 - x2) mod secp_p in (x3, (lam * (x1 - x3) - y1) mod secp_p))"
proof (cases "x1 = x2")
  case True
  then have "\<not> (y1 + y2) mod secp_p = 0" using assms by (auto simp: ec_add_def)
  with True assms show ?thesis
    by (cases "modinv (2 * y1 mod secp_p) secp_p") (simp_all add: ec_add_def that Let_def)
next
  case False
  with assms show ?thesis
    by (cases "modinv ((x2 - x1) mod secp_p) secp_p") (simp_all add: ec_add_def that Let_def)
qed

lemma ec_add_on_curve:
  assumes "ec_add (Some q1) (Some q2) = Inr (Some q3)" and "on_curve q1" and "on_curve q2"
  shows "on_curve q3"
proof -
  obtain x1 y1 x2 y2 where q: "q1 = (x1, y1)" "q2 = (x2, y2)" by (cases q1; cases q2)
  define num where "num = (if x1 = x2 then 3 * x1 * x1 else y2 - y1)"
  define den where "den = (if x1 = x2 then 2 * y1 else x2 - x1)"
  obtain d where d: "modinv (den mod secp_p) secp_p = Inr d"
    and q3: "q3 = (let lam = num * d mod secp_p; x3 = (lam * lam - x1 - x2) mod secp_p
        in (x3, (lam * (x1 - x3) - y1) mod secp_p))"
    unfolding num_def den_def by (rule ec_add_Some[OF assms(1)[unfolded q]])
  define lam where "lam = num * d mod secp_p"
  define x where "x = lam * lam - x1 - x2"
  define y where "y = lam * (x1 - x) - y1"
  have inv: "secp_p dvd den * d - 1" by (rule modinv_dvd[OF d])
  have "num * d * den - num = num * (den * d - 1)" by algebra
  then have "secp_p dvd num * d * den - num" using inv by simp
  then have l: "secp_p dvd lam * den - num" unfolding lam_def by (rule dvd_mod_cancel)
  have c: "secp_p dvd x1 * x1 * x1 + 7 - y1 * y1" "secp_p dvd x2 * x2 * x2 + 7 - y2 * y2"
    using assms(2,3) by (auto simp: on_curve_def q mod_eq_0_iff_dvd)
  define u where "u = 2 * lam * (lam * x1 - y1) - (x1 * x2 + x1 * x + x2 * x)"
  have "secp_p dvd u"
  proof (cases "x1 = x2")
    case True
    then show ?thesis using l tangent_slope[of secp_p lam y1 x1 x u]
      by (simp add: num_def den_def x_def u_def)
  next
    case False
    then show ?thesis using c l inv chord_slope[of secp_p x1 y1 x2 y2 lam d x u]
      by (simp add: num_def den_def x_def u_def)
  qed
  then have on: "secp_p dvd x * x * x + 7 - y * y"
    unfolding y_def by (rule third_point[OF c(1) x_def u_def])
  have "(lam * (x1 - x mod secp_p) - y1) mod secp_p = y mod secp_p"
    unfolding y_def by (intro mod_diff_cong mod_mult_cong) simp_all
  then have "q3 = (x mod secp_p, y mod secp_p)"
    unfolding q3 by (simp add: Let_def lam_def[symmetric] x_def[symmetric])
  moreover have "(x mod secp_p * (x mod secp_p) * (x mod secp_p) + 7
      - y mod secp_p * (y mod secp_p)) mod secp_p = (x * x * x + 7 - y * y) mod secp_p"
    by (intro mod_diff_cong mod_add_cong mod_mult_cong) simp_all
  ultimately show ?thesis using on by (simp add: on_curve_def mod_eq_0_iff_dvd)
qed

definition on_curve_opt :: "point option \<Rightarrow> bool" where
  "on_curve_opt q = (case q of None \<Rightarrow> True | Some r \<Rightarrow> on_curve r)"

lemma ec_add_None [simp]: "ec_add None b = Inr b" "ec_add a None = Inr a"
  by (simp_all add: ec_add_def split: option.split)

lemma ec_add_opt:
  assumes "ec_add a b = Inr c" "on_curve_opt a" "on_curve_opt b"
  shows "on_curve_opt c"
proof (cases "a = None \<or> b = None \<or> c = None")
  case True
  then show ?thesis
  proof (elim disjE)
    assume "c = None"
    then show ?thesis by (simp add: on_curve_opt_def)
  qed (use assms in simp_all)
next
  case False
  then obtain p q r where "a = Some p" "b = Some q" "c = Some r" by auto
  then show ?thesis using assms ec_add_on_curve[of p q r] by (simp add: on_curve_opt_def)
qed

lemma ec_loop_opt:
  "ec_loop k acc q = Inr r \<Longrightarrow> on_curve_opt acc \<Longrightarrow> on_curve_opt q \<Longrightarrow> on_curve_opt r"
proof (induction k acc q rule: ec_loop.induct)
  case (1 k acc q)
  show ?case
  proof (cases "k = 0")
    case True
    then show ?thesis using 1 by (simp add: ec_loop.simps)
  next
    case False
    obtain a where a: "(if odd k then ec_add acc q else Inr acc) = Inr a"
      using 1(2) False by (subst (asm) ec_loop.simps) (auto split: sum.splits)
    obtain b where b: "ec_add q q = Inr b"
      using 1(2) False a by (subst (asm) ec_loop.simps) (auto split: sum.splits)
    have "ec_loop (k div 2) a b = Inr r"
      using 1(2) False a b by (subst (asm) ec_loop.simps) simp
    moreover have "on_curve_opt a" using a 1(3,4) ec_add_opt by (auto split: if_splits)
    moreover have "on_curve_opt b" using b 1(4) ec_add_opt by blast
    ultimately show ?thesis using "1.IH"[OF False a b] by blast
  qed
qed

lemma on_curve_neg: "on_curve (x, y) \<Longrightarrow> on_curve (x, (- y) mod secp_p)"
proof -
  have "(x * x * x + 7 - (- y) mod secp_p * ((- y) mod secp_p)) mod secp_p
      = (x * x * x + 7 - (- y) * (- y)) mod secp_p" by (metis mod_diff_right_eq mod_mult_eq)
  then show "on_curve (x, y) \<Longrightarrow> on_curve (x, (- y) mod secp_p)" by (simp add: on_curve_def)
qed

lemma ec_mul_opt:
  assumes "ec_mul k q = Inr r" and "on_curve_opt q"
  shows "on_curve_opt r"
proof (cases q)
  case None
  then show ?thesis using assms by (simp add: ec_mul_def)
next
  case (Some xy)
  obtain x y where q: "q = Some (x, y)" using Some by (cases xy) auto
  then have neg: "on_curve_opt (Some (x, (- y) mod secp_p))"
    using assms(2) on_curve_neg by (simp add: on_curve_opt_def)
  have none: "on_curve_opt None" by (simp add: on_curve_opt_def)
  show ?thesis
  proof (cases "k mod secp_n = 0")
    case True
    then have "r = None" using assms(1) by (simp add: ec_mul_def q)
    then show ?thesis using none by simp
  next
    case nz: False
    show ?thesis
    proof (cases "k < 0")
      case True
      then have "ec_loop (nat (- k)) None (Some (x, (- y) mod secp_p)) = Inr r"
        using assms(1) nz by (simp only: ec_mul_def q option.case prod.case if_False if_True)
      then show ?thesis using ec_loop_opt none neg by blast
    next
      case False
      then have "ec_loop (nat k) None q = Inr r"
        using assms(1) nz by (simp only: ec_mul_def q option.case prod.case if_False if_True)
      then show ?thesis using ec_loop_opt none assms(2) by blast
    qed
  qed
qed

lemma y_from_x_on_curve:
  assumes "y_from_x x b = Some y" and "0 \<le> x" and "x < secp_p"
  shows "on_curve (x, y)"
proof -
  define rhs where "rhs = (x * x * x + 7) mod secp_p"
  define y0 where "y0 = pow_mod rhs (nat ((secp_p + 1) div 4)) secp_p"
  have y0: "y0 * y0 mod secp_p = rhs" and y: "y = (if odd y0 \<noteq> b then (- y0) mod secp_p else y0)"
    using assms(1) by (auto simp: y_from_x_def Let_def rhs_def y0_def split: if_splits)
  have "0 \<le> y0 \<and> y0 < secp_p" by (simp add: y0_def pow_mod_power)
  then have "on_curve (x, y0)"
    using y0 assms(2,3) unfolding on_curve_def rhs_def by (simp add: mod_eq_dvd_iff[symmetric] mod_eq_0_iff_dvd)
  then show ?thesis using on_curve_neg y by auto
qed

lemma secp_g_on_curve: "on_curve secp_g"
proof -
  obtain x y where g: "secp_g = (x, y)" by (cases secp_g)
  have "x * x * x + 7 - y * y = secp_p * 0x1b888e01a06e974017a28a5b4da436169761c9730b7aeedf75fc60f6a33cfc7792fe74711f025d590b10e57f1b3a7ce38ffc4c885c515894b45c19c9f413e5e9"
    using g by (auto simp: secp_g_def secp_p_def)
  then have "secp_p dvd x * x * x + 7 - y * y" by (rule dvdI)
  moreover have "0 \<le> x \<and> x < secp_p \<and> 0 \<le> y \<and> y < secp_p"
    using g by (auto simp: secp_g_def secp_p_def)
  ultimately show ?thesis by (simp add: g on_curve_def mod_eq_0_iff_dvd)
qed

lemma recover_point_on_curve:
  assumes "recover_point r_inv sR eG = Inr pk" and "on_curve_opt sR" and "on_curve_opt eG"
  obtains q where "on_curve q" "pk = to_bytes_fixed 32 (nat (fst q)) @ to_bytes_fixed 32 (nat (snd q))"
proof -
  obtain gx gy where g: "eG = Some (gx, gy)"
    using assms(1) by (cases eG) (auto simp: recover_point_def)
  obtain d where d: "ec_add sR (Some (gx, (- gy) mod secp_p)) = Inr (Some d)"
    using assms(1) g by (auto simp: recover_point_def split: sum.splits option.splits)
  obtain q where q: "ec_mul r_inv (Some d) = Inr (Some q)"
    "pk = to_bytes_fixed 32 (nat (fst q)) @ to_bytes_fixed 32 (nat (snd q))"
    using assms(1) g d by (auto simp: recover_point_def split: sum.splits option.splits)
  have "on_curve_opt (Some (gx, (- gy) mod secp_p))"
    using assms(3) g on_curve_neg by (simp add: on_curve_opt_def)
  then have "on_curve_opt (Some d)" using ec_add_opt[OF d assms(2)] by blast
  then have "on_curve q" using ec_mul_opt[OF q(1)] by (simp add: on_curve_opt_def)
  then show ?thesis using q(2) that by blast
qed

lemma recover_rs_on_curve:
  assumes "recover_rs e r s i = Inr pk" and "0 \<le> r" and "r < secp_p"
  obtains q where "on_curve q" "pk = to_bytes_fixed 32 (nat (fst q)) @ to_bytes_fixed 32 (nat (snd q))"
proof -
  obtain ry where ry: "y_from_x r (i = 1) = Some ry"
    using assms(1) by (auto simp: recover_rs_def split: option.splits)
  obtain r_inv where ri: "modinv r secp_n = Inr r_inv"
    using assms(1) ry by (auto simp: recover_rs_def split: sum.splits)
  obtain sR where sR: "ec_mul s (Some (r, ry)) = Inr sR"
    using assms(1) ry ri by (auto simp: recover_rs_def split: sum.splits)
  obtain eG where eG: "ec_mul e (Some secp_g) = Inr eG"
    using assms(1) ry ri sR by (auto simp: recover_rs_def split: sum.splits)
  have pk: "recover_point r_inv sR eG = Inr pk"
    using assms(1) ry ri sR eG by (simp add: recover_rs_def)
  have "on_curve (r, ry)" by (rule y_from_x_on_curve[OF ry assms(2,3)])
  then have "on_curve_opt sR" using ec_mul_opt[OF sR] by (simp add: on_curve_opt_def)
  moreover have "on_curve_opt eG" using ec_mul_opt[OF eG] secp_g_on_curve by (simp add: on_curve_opt_def)
  ultimately show ?thesis using recover_point_on_curve[OF pk] that by blast
qed

lemma coordinate_bytes: "0 \<le> z \<Longrightarrow> z < secp_p \<Longrightarrow> int (from_bytes (to_bytes_fixed 32 (nat z))) = z"
proof -
  assume z: "0 \<le> z" "z < secp_p"
  have "secp_p < 256 ^ 32" by (simp add: secp_p_def)
  then have "nat z < 256 ^ 32" using z by (simp add: nat_less_iff)
  then have "nat z mod 256 ^ 32 = nat z" by (rule mod_less)
  then show ?thesis using z(1) by (simp only: from_to_bytes_fixed int_nat_eq if_True)
qed

lemma recovered_key:
  assumes "recover_public_key h sg = Inr pk"
  shows "length pk = 64
    \<and> on_curve (int (from_bytes (take 32 pk)), int (from_bytes (drop 32 pk)))
    \<and> (\<exists>r s v. parse_signature_rsv sg = Inr (r, s, v) \<and> 1 \<le> r \<and> r < secp_n \<and> 1 \<le> s \<and> s < secp_n)"
proof -
  have "length h = 32" using assms by (simp add: recover_public_key_def split: if_splits)
  then obtain r s v where rsv: "parse_signature_rsv sg = Inr (r, s, v)"
    using assms by (auto simp: recover_public_key_def split: sum.splits)
  then have b: "1 \<le> r" "r < secp_n" "1 \<le> s" "s < secp_n"
    and rs: "recover_rs (int (from_bytes h) mod secp_n) r s (if 27 \<le> v then v - 27 else v) = Inr pk"
    using assms \<open>length h = 32\<close> by (simp_all add: recover_public_key_def Let_def split: if_splits)
  have "r < secp_p" using b(2) by (simp add: secp_n_def secp_p_def)
  then obtain q where q: "on_curve q"
    "pk = to_bytes_fixed 32 (nat (fst q)) @ to_bytes_fixed 32 (nat (snd q))"
    using recover_rs_on_curve[OF rs] b(1) by auto
  then have "0 \<le> fst q" "fst q < secp_p" "0 \<le> snd q" "snd q < secp_p"
    by (auto simp: on_curve_def split: prod.splits)
  then show ?thesis using q b rsv by (simp add: coordinate_bytes del: from_to_bytes_fixed)
qed

text \<open>A recovered key is a point of the curve. Whatever the hash and the signature, when the
  recovery returns, the 64 bytes are the two coordinates, below the field's prime, of a point that
  satisfies the curve's equation, and the signature's \<open>r\<close> and \<open>s\<close> are in range.\<close>

theorem recover_public_key_on_curve:
  "case recover_public_key h sg of
     Inl e \<Rightarrow> True
   | Inr pk \<Rightarrow> length pk = 64
       \<and> on_curve (int (from_bytes (take 32 pk)), int (from_bytes (drop 32 pk)))
       \<and> (\<exists>r s v. parse_signature_rsv sg = Inr (r, s, v) \<and> 1 \<le> r \<and> r < secp_n \<and> 1 \<le> s \<and> s < secp_n)"
  using recovered_key[of h sg] by (simp split: sum.split)

end
