(* ===== verification/Jwt.thy ===== *)
theory Jwt
  imports Capability Profile Secp256k1
begin

text \<open>
  \<^verbatim>\<open>src/recto/capability/jwt.py\<close>: parsing, minting and verifying a capability JWS. The signature is
  checked by the recovery of \<^verbatim>\<open>src/recto/ethereum.py\<close> over SHA-256, the profile of a delegated claim
  is looked up in the stored identity (\<open>None\<close> when no state directory is given). \<open>fl\<close> is the float
  conversion of the JSON parser. \<open>JwsUnmodelled\<close> is a text with code points above 255 or in another
  encoding than UTF-8; \<open>ClaimsIllTyped\<close> is a claim the typed record cannot hold, which the type check
  before the conversion excludes (\<open>claim_types_suffice\<close>).
\<close>

datatype jws_error =
    JwsMalformed
  | JwsUnmodelled
  | ShapeAlg
  | ShapeTyp
  | SigLength
  | SigMismatch
  | ProfileClaimInvalid
  | ProfileNoState
  | ProfileReadFailed
  | ProfileNoMaster
  | ProfileNotFound
  | ProfileIsRevoked
  | ProfileNoKey
  | ProfileBadKey
  | ClaimType string
  | ClaimMissing string
  | ClaimsIllTyped
  | NotYetValid
  | Expired
  | WrongAudience

section \<open>Encoding\<close>

definition b64url_decode :: "string \<Rightarrow> bytes option" where
  "b64url_decode s = b64_decode (b64_pad s)"

text \<open>The text \<open>json.loads\<close> reads from bytes: UTF-8, unless a byte order mark or a zero byte among
  the first two announces another encoding.\<close>

definition other_encoding :: "bytes \<Rightarrow> bool" where
  "other_encoding b \<longleftrightarrow> take 2 b = [0xFE, 0xFF] \<or> take 2 b = [0xFF, 0xFE] \<or> take 3 b = [0xEF, 0xBB, 0xBF]
     \<or> (length b \<noteq> 1 \<and> length b \<noteq> 3 \<and> 0 \<in> set (take 2 b))"

fun utf8_decode :: "bytes \<Rightarrow> jws_error + string" where
  "utf8_decode [] = Inr []"
| "utf8_decode (b # bs) =
     (if nat_of b < 128 then (case utf8_decode bs of Inl e \<Rightarrow> Inl e | Inr s \<Rightarrow> Inr (char_of (nat_of b) # s))
      else if nat_of b < 194 then Inl JwsMalformed
      else if 196 \<le> nat_of b then Inl JwsUnmodelled
      else (case bs of
          [] \<Rightarrow> Inl JwsMalformed
        | c # cs \<Rightarrow>
            if nat_of c < 128 \<or> 192 \<le> nat_of c then Inl JwsMalformed
            else (case utf8_decode cs of Inl e \<Rightarrow> Inl e
                  | Inr s \<Rightarrow> Inr (char_of ((nat_of b - 192) * 64 + (nat_of c - 128)) # s))))"

definition loads_bytes :: "(string \<Rightarrow> string) \<Rightarrow> bytes \<Rightarrow> jws_error + pyval" where
  "loads_bytes fl b =
     (if other_encoding b then Inl JwsUnmodelled
      else (case utf8_decode b of
          Inl e \<Rightarrow> Inl e
        | Inr s \<Rightarrow> (case json_loads fl s of
            Inl e \<Rightarrow> Inl (if e = JsonUnmodelled then JwsUnmodelled else JwsMalformed)
          | Inr v \<Rightarrow> Inr v)))"

definition canonical_value :: "pyval \<Rightarrow> bytes" where
  "canonical_value v = utf8 (json_dumps v)"

section \<open>Claims and dictionaries\<close>

fun strip_none :: "pyval \<Rightarrow> pyval"
  and strip_list :: "pyval list \<Rightarrow> pyval list"
  and strip_items :: "(string \<times> pyval) list \<Rightarrow> (string \<times> pyval) list" where
  "strip_none (PDict d) = PDict (strip_items d)"
| "strip_none (PList vs) = PList (strip_list vs)"
| "strip_none v = v"
| "strip_list [] = []"
| "strip_list (v # vs) = strip_none v # strip_list vs"
| "strip_items [] = []"
| "strip_items (kv # d) =
     (if snd kv = PNone then strip_items d else (fst kv, strip_none (snd kv)) # strip_items d)"

definition str_list :: "string list \<Rightarrow> pyval" where
  "str_list ss = PList (map PStr ss)"

definition scope_dict :: "capability_scope \<Rightarrow> (string, pyval) dict" where
  "scope_dict s =
     [(''env'', str_list (env s)), (''services'', str_list (services s)), (''repos'', str_list (repos s)),
      (''create_for_owner'', create_for_owner s), (''chat_room_id'', chat_room_id s),
      (''target_user_id'', target_user_id s), (''pairing_code'', pairing_code s),
      (''payload_sha256'', payload_sha256 s)]"

definition limits_dict :: "capability_limits \<Rightarrow> (string, pyval) dict" where
  "limits_dict l = [(''per_hour'', PDict (per_hour l)), (''per_day'', PDict (per_day l)),
     (''per_session'', PDict (per_session l))]"

definition clause_dict :: "capability_clause \<Rightarrow> (string, pyval) dict" where
  "clause_dict c =
     [(''tier'', PInt (tier c)), (''registry_version'', PStr (registry_version c)),
      (''groups'', str_list (groups c)), (''scope'', PDict (scope_dict (scope c))),
      (''allow_actions'', str_list (allow_actions c)), (''deny_actions'', str_list (deny_actions c)),
      (''limits'', PDict (limits_dict (limits c)))]"

definition claims_fields :: "capability_claims \<Rightarrow> (string, pyval) dict" where
  "claims_fields c =
     [(''iss'', PStr (iss c)), (''sub'', PStr (sub c)), (''aud'', str_list (aud c)),
      (''iat'', PInt (iat c)), (''nbf'', PInt (nbf c)), (''exp'', PInt (expiry c)), (''jti'', PStr (jti c)),
      (''cap'', PDict (clause_dict (cap c))), (''purpose'', PStr (purpose c)),
      (''parent_cap'', parent_cap c), (''max_uses'', max_uses c), (''parent_profile'', parent_profile c)]"

definition claims_to_dict :: "capability_claims \<Rightarrow> pyval" where
  "claims_to_dict c = strip_none (PDict (claims_fields c))"

definition as_str :: "pyval \<Rightarrow> jws_error + string" where
  "as_str v = (if is_str v then Inr (the_str v) else Inl ClaimsIllTyped)"

definition as_int :: "pyval \<Rightarrow> jws_error + int" where
  "as_int v = (if is_int v then Inr (the_int v) else Inl ClaimsIllTyped)"

definition as_str_list :: "pyval \<Rightarrow> jws_error + string list" where
  "as_str_list v = (if is_list v then map_err as_str (the_list v) else Inl ClaimsIllTyped)"

definition as_dict :: "pyval \<Rightarrow> jws_error + (string, pyval) dict" where
  "as_dict v = (if is_dict v then Inr (the_dict v) else Inl ClaimsIllTyped)"

definition scope_from_dict :: "(string, pyval) dict \<Rightarrow> jws_error + capability_scope" where
  "scope_from_dict s =
     bind_err (as_str_list (get_or s ''env'' (PList []))) (\<lambda>e.
     bind_err (as_str_list (get_or s ''services'' (PList []))) (\<lambda>sv.
     bind_err (as_str_list (get_or s ''repos'' (PList []))) (\<lambda>r.
     Inr \<lparr>env = e, services = sv, repos = r, create_for_owner = get s ''create_for_owner'',
          chat_room_id = get s ''chat_room_id'', target_user_id = get s ''target_user_id'',
          pairing_code = get s ''pairing_code'', payload_sha256 = get s ''payload_sha256''\<rparr>)))"

definition limits_from_dict :: "(string, pyval) dict \<Rightarrow> jws_error + capability_limits" where
  "limits_from_dict l =
     bind_err (as_dict (get_or l ''per_hour'' (PDict []))) (\<lambda>h.
     bind_err (as_dict (get_or l ''per_day'' (PDict []))) (\<lambda>d.
     bind_err (as_dict (get_or l ''per_session'' (PDict []))) (\<lambda>s.
     Inr \<lparr>per_hour = h, per_day = d, per_session = s\<rparr>)))"

definition clause_from_dict :: "(string, pyval) dict \<Rightarrow> jws_error + capability_clause" where
  "clause_from_dict c =
     bind_err (as_int (get c ''tier'')) (\<lambda>t.
     bind_err (as_str (get c ''registry_version'')) (\<lambda>v.
     bind_err (as_str_list (get_or c ''groups'' (PList []))) (\<lambda>g.
     bind_err (as_dict (get_or c ''scope'' (PDict []))) (\<lambda>sd.
     bind_err (scope_from_dict sd) (\<lambda>s.
     bind_err (as_str_list (get_or c ''allow_actions'' (PList []))) (\<lambda>a.
     bind_err (as_str_list (get_or c ''deny_actions'' (PList []))) (\<lambda>dn.
     bind_err (as_dict (get_or c ''limits'' (PDict []))) (\<lambda>ld.
     bind_err (limits_from_dict ld) (\<lambda>l.
     Inr \<lparr>tier = t, registry_version = v, groups = g, scope = s, allow_actions = a,
          deny_actions = dn, limits = l\<rparr>)))))))))"

definition required_claims :: "string list" where
  "required_claims = [''iss'', ''sub'', ''aud'', ''iat'', ''nbf'', ''exp'', ''jti'', ''cap'', ''purpose'']"

definition dict_to_claims :: "(string, pyval) dict \<Rightarrow> jws_error + capability_claims" where
  "dict_to_claims d =
     (case filter (\<lambda>k. \<not> has_key d k) required_claims of
        k # _ \<Rightarrow> Inl (ClaimMissing k)
      | [] \<Rightarrow>
          bind_err (as_dict (get d ''cap'')) (\<lambda>cd.
          bind_err (clause_from_dict cd) (\<lambda>c.
          bind_err (as_str (get d ''iss'')) (\<lambda>is.
          bind_err (as_str (get d ''sub'')) (\<lambda>sb.
          bind_err (as_str_list (get d ''aud'')) (\<lambda>au.
          bind_err (as_int (get d ''iat'')) (\<lambda>ia.
          bind_err (as_int (get d ''nbf'')) (\<lambda>nb.
          bind_err (as_int (get d ''exp'')) (\<lambda>ex.
          bind_err (as_str (get d ''jti'')) (\<lambda>jt.
          bind_err (as_str (get d ''purpose'')) (\<lambda>pu.
          Inr \<lparr>iss = is, sub = sb, aud = au, iat = ia, nbf = nb, expiry = ex, jti = jt, cap = c,
               purpose = pu, parent_cap = get d ''parent_cap'', max_uses = get d ''max_uses'',
               parent_profile = get d ''parent_profile''\<rparr>)))))))))))"

section \<open>Claim types\<close>

definition whole_int :: "pyval \<Rightarrow> bool" where
  "whole_int v \<longleftrightarrow> is_int v \<and> \<not> is_bool v"

definition is_str_list :: "pyval \<Rightarrow> bool" where
  "is_str_list v \<longleftrightarrow> is_list v \<and> list_all is_str (the_list v)"

text \<open>The first name of a list that fails a test, as the claim to refuse.\<close>

definition first_bad :: "(string \<Rightarrow> bool) \<Rightarrow> string list \<Rightarrow> jws_error + unit" where
  "first_bad ok ks = (case filter (\<lambda>k. \<not> ok k) ks of [] \<Rightarrow> Inr () | k # _ \<Rightarrow> Inl (ClaimType k))"

definition require_claim_types :: "(string, pyval) dict \<Rightarrow> jws_error + unit" where
  "require_claim_types p =
     (let c = the_dict (get p ''cap''); sc = get_or c ''scope'' (PDict []); lm = get_or c ''limits'' (PDict [])
      in bind_err (first_bad (\<lambda>k. is_str (get p k)) [''iss'', ''sub'', ''jti'', ''purpose'']) (\<lambda>_.
         bind_err (first_bad (\<lambda>k. is_str_list (get p k)) [''aud'']) (\<lambda>_.
         bind_err (first_bad (\<lambda>k. whole_int (get p k)) [''iat'', ''nbf'', ''exp'']) (\<lambda>_.
         bind_err (first_bad (\<lambda>k. is_dict (get p k)) [''cap'']) (\<lambda>_.
         bind_err (first_bad (\<lambda>k. whole_int (get c ''tier'') \<and> is_str (get c ''registry_version'')) [''cap'']) (\<lambda>_.
         bind_err (first_bad (\<lambda>k. \<not> has_key c k \<or> is_str_list (get c k)) [''groups'', ''allow_actions'', ''deny_actions'']) (\<lambda>_.
         bind_err (first_bad (\<lambda>k. is_dict sc) [''scope'']) (\<lambda>_.
         bind_err (first_bad (\<lambda>k. \<not> has_key (the_dict sc) k \<or> is_str_list (get (the_dict sc) k)) [''env'', ''services'', ''repos'']) (\<lambda>_.
         bind_err (first_bad (\<lambda>k. is_dict lm) [''limits'']) (\<lambda>_.
         first_bad (\<lambda>k. is_dict (get_or (the_dict lm) k (PDict []))) [''per_hour'', ''per_day'', ''per_session'']))))))))))"

section \<open>Parsing, minting, verifying\<close>

definition parse_jws ::
  "(string \<Rightarrow> string) \<Rightarrow> string
     \<Rightarrow> jws_error + (string, pyval) dict \<times> (string, pyval) dict \<times> bytes \<times> bytes" where
  "parse_jws fl token = (case split_on (CHR ''.'') token of
     [h, p, s] \<Rightarrow>
       (case b64url_decode h of None \<Rightarrow> Inl JwsMalformed
        | Some hb \<Rightarrow> bind_err (loads_bytes fl hb) (\<lambda>header.
       (case b64url_decode p of None \<Rightarrow> Inl JwsMalformed
        | Some pb \<Rightarrow> bind_err (loads_bytes fl pb) (\<lambda>payload.
       (case b64url_decode s of None \<Rightarrow> Inl JwsMalformed
        | Some sig \<Rightarrow>
            if \<not> is_dict header \<or> \<not> is_dict payload then Inl JwsMalformed
            else Inr (the_dict header, the_dict payload, sig,
                      map (\<lambda>c. byte_of (code c)) (h @ CHR ''.'' # p)))))))
   | _ \<Rightarrow> Inl JwsMalformed)"

definition profile_target :: "pyval \<Rightarrow> blob option \<Rightarrow> jws_error + bytes" where
  "profile_target v sd =
     (if \<not> is_str v \<or> the_str v = [] then Inl ProfileClaimInvalid
      else (case sd of None \<Rightarrow> Inl ProfileNoState
        | Some b \<Rightarrow> (case fst (load_master_identity b) of
            Inl e \<Rightarrow> Inl ProfileReadFailed
          | Inr None \<Rightarrow> Inl ProfileNoMaster
          | Inr (Some mi) \<Rightarrow> (case find (\<lambda>p. profile_id p = the_str v) (profiles mi) of
              None \<Rightarrow> Inl ProfileNotFound
            | Some p \<Rightarrow>
                if revoked p then Inl ProfileIsRevoked
                else (case derived_pubkey_hex p of None \<Rightarrow> Inl ProfileNoKey
                  | Some k \<Rightarrow> (case fromhex k of None \<Rightarrow> Inl ProfileBadKey | Some t \<Rightarrow> Inr t))))))"

definition recovers :: "bytes \<Rightarrow> bytes \<Rightarrow> bytes \<Rightarrow> nat \<Rightarrow> bool" where
  "recovers digest sig target rid \<longleftrightarrow>
     recover_public_key digest (SigBytes (sig @ [byte_of (27 + rid)])) = Inr target"

text \<open>The steps after the signature: the claim types, the time bounds, the audience, the conversion.\<close>

definition accept_payload ::
  "(string, pyval) dict \<Rightarrow> string option \<Rightarrow> int \<Rightarrow> jws_error + capability_claims" where
  "accept_payload payload expected_aud now =
     bind_err (require_claim_types payload) (\<lambda>_.
       if now < the_int (get payload ''nbf'') then Inl NotYetValid
       else if the_int (get payload ''exp'') \<le> now then Inl Expired
       else if expected_aud \<noteq> None
            \<and> PStr (the expected_aud) \<notin> set (the_list (get payload ''aud'')) then Inl WrongAudience
       else dict_to_claims payload)"

definition verify_jws ::
  "(string \<Rightarrow> string) \<Rightarrow> string \<Rightarrow> bytes \<Rightarrow> string option \<Rightarrow> int \<Rightarrow> blob option \<Rightarrow> jws_error + capability_claims" where
  "verify_jws fl token expected_pubkey expected_aud now sd =
     bind_err (parse_jws fl token) (\<lambda>(header, payload, sig, input).
       let pp = get payload ''parent_profile''
       in if get header ''alg'' \<noteq> PStr ''ES256K'' then Inl ShapeAlg
          else if get header ''typ'' \<noteq> PStr ''JWT'' \<and> get header ''typ'' \<noteq> PNone then Inl ShapeTyp
          else if length sig \<noteq> 64 then Inl SigLength
          else bind_err (if pp = PNone then Inr expected_pubkey else profile_target pp sd) (\<lambda>target.
               if \<not> recovers (sha256 input) sig target 0 \<and> \<not> recovers (sha256 input) sig target 1
               then Inl SigMismatch
               else accept_payload payload expected_aud now))"

definition build_signing_input :: "capability_claims \<Rightarrow> bytes \<times> string \<times> string" where
  "build_signing_input c =
     (let h = b64_encode (canonical_value (PDict [(''alg'', PStr ''ES256K''), (''typ'', PStr ''JWT'')]));
          p = b64_encode (canonical_value (claims_to_dict c))
      in (sha256 (map (\<lambda>c. byte_of (code c)) (h @ CHR ''.'' # p)), h, p))"

definition assemble_jws :: "string \<Rightarrow> string \<Rightarrow> bytes \<Rightarrow> string option" where
  "assemble_jws h p sig = (if length sig \<noteq> 64 then None
     else Some (h @ CHR ''.'' # p @ CHR ''.'' # b64_encode sig))"

section \<open>The type check suffices\<close>

lemma first_bad_Inr: "first_bad ok ks = Inr u \<longleftrightarrow> list_all ok ks"
proof -
  have "filter (\<lambda>k. \<not> ok k) ks = [] \<longleftrightarrow> list_all ok ks" by (simp add: filter_empty_conv list_all_iff)
  then show ?thesis by (cases "filter (\<lambda>k. \<not> ok k) ks") (simp_all add: first_bad_def)
qed

lemma as_str_PStr [simp]: "as_str (PStr t) = Inr t"
  by (simp add: as_str_def)

lemma as_str_list_Nil [simp]: "as_str_list (PList []) = Inr []"
  by (simp add: as_str_list_def)

lemma as_str_list_PStr [simp]: "as_str_list (PList (map PStr ss)) = Inr ss"
  by (simp add: as_str_list_def map_err_Inr_iff list.rel_map list_all2_same)

lemma as_str_list_ok: "is_str_list v \<Longrightarrow> \<exists>ss. as_str_list v = Inr ss \<and> the_list v = map PStr ss"
proof -
  assume v: "is_str_list v"
  have "\<exists>ss. map_err as_str vs = Inr ss \<and> vs = map PStr ss" if "list_all is_str vs" for vs
    using that
  proof (induction vs)
    case (Cons a vs)
    then obtain ss where "map_err as_str vs = Inr ss" "vs = map PStr ss" by auto
    moreover obtain t where "a = PStr t" using Cons.prems by (auto simp: is_str_iff)
    ultimately show ?case by (intro exI[of _ "t # ss"]) simp
  qed simp
  then show ?thesis using v by (auto simp: is_str_list_def as_str_list_def)
qed

lemma as_str_list_or:
  "\<not> has_key d k \<or> is_str_list (get d k) \<Longrightarrow> \<exists>ss. as_str_list (get_or d k (PList [])) = Inr ss"
  using as_str_list_ok[of "get d k"]
  by (cases "dict_get d k") (auto simp: has_key_def get_def get_or_def)

lemma scope_ok:
  assumes "\<forall>k \<in> {''env'', ''services'', ''repos''}. \<not> has_key s k \<or> is_str_list (get s k)"
  shows "\<exists>x. scope_from_dict s = Inr x"
proof -
  have "\<forall>k \<in> {''env'', ''services'', ''repos''}. \<exists>ss. as_str_list (get_or s k (PList [])) = Inr ss"
    using assms as_str_list_or by blast
  then show ?thesis by (auto simp: scope_from_dict_def)
qed

lemma limits_ok:
  assumes "\<forall>k \<in> {''per_hour'', ''per_day'', ''per_session''}. is_dict (get_or l k (PDict []))"
  shows "\<exists>x. limits_from_dict l = Inr x"
  using assms by (simp add: limits_from_dict_def as_dict_def)

lemma clause_ok:
  assumes "whole_int (get c ''tier'')" "is_str (get c ''registry_version'')"
    and "\<forall>k \<in> {''groups'', ''allow_actions'', ''deny_actions''}. \<not> has_key c k \<or> is_str_list (get c k)"
    and "is_dict (get_or c ''scope'' (PDict []))" "is_dict (get_or c ''limits'' (PDict []))"
    and "\<exists>x. scope_from_dict (the_dict (get_or c ''scope'' (PDict []))) = Inr x"
    and "\<exists>x. limits_from_dict (the_dict (get_or c ''limits'' (PDict []))) = Inr x"
  shows "\<exists>x. clause_from_dict c = Inr x"
proof -
  have "\<forall>k \<in> {''groups'', ''allow_actions'', ''deny_actions''}. \<exists>ss. as_str_list (get_or c k (PList [])) = Inr ss"
    using assms(3) as_str_list_or by blast
  then show ?thesis
    using assms(1,2,4-) by (auto simp: clause_from_dict_def as_int_def as_str_def as_dict_def whole_int_def)
qed

lemma require_claim_types_Inr:
  assumes "require_claim_types p = Inr u"
  shows "\<forall>k \<in> {''iss'', ''sub'', ''jti'', ''purpose''}. is_str (get p k)"
    and "is_str_list (get p ''aud'')"
    and "\<forall>k \<in> {''iat'', ''nbf'', ''exp''}. whole_int (get p k)"
    and "is_dict (get p ''cap'')"
    and "\<exists>x. clause_from_dict (the_dict (get p ''cap'')) = Inr x"
proof -
  note r = assms[unfolded require_claim_types_def Let_def bind_err_Inr first_bad_Inr]
  let ?c = "the_dict (get p ''cap'')"
  let ?sc = "get_or ?c ''scope'' (PDict [])" and ?lm = "get_or ?c ''limits'' (PDict [])"
  show "\<forall>k \<in> {''iss'', ''sub'', ''jti'', ''purpose''}. is_str (get p k)"
    "is_str_list (get p ''aud'')" "\<forall>k \<in> {''iat'', ''nbf'', ''exp''}. whole_int (get p k)"
    "is_dict (get p ''cap'')" using r by simp_all
  have sc: "is_dict ?sc" "is_dict ?lm" using r by simp_all
  have "\<exists>x. scope_from_dict (the_dict ?sc) = Inr x" using r by (intro scope_ok) simp
  moreover have "\<exists>x. limits_from_dict (the_dict ?lm) = Inr x" using r by (intro limits_ok) simp
  ultimately show "\<exists>x. clause_from_dict ?c = Inr x"
    using r sc by (intro clause_ok) simp_all
qed

lemma has_key_get: "get d k \<noteq> PNone \<Longrightarrow> has_key d k"
  by (auto simp: get_def has_key_def split: option.splits)

lemma dict_to_claims_fields:
  assumes "filter (\<lambda>k. \<not> has_key d k) required_claims = []"
    and "is_dict (get d ''cap'')" "clause_from_dict (the_dict (get d ''cap'')) = Inr c"
    and "is_str (get d ''iss'')" "is_str (get d ''sub'')" "as_str_list (get d ''aud'') = Inr au"
    and "is_int (get d ''iat'')" "is_int (get d ''nbf'')" "is_int (get d ''exp'')"
    and "is_str (get d ''jti'')" "is_str (get d ''purpose'')"
  shows "dict_to_claims d = Inr \<lparr>iss = the_str (get d ''iss''), sub = the_str (get d ''sub''), aud = au,
     iat = the_int (get d ''iat''), nbf = the_int (get d ''nbf''), expiry = the_int (get d ''exp''),
     jti = the_str (get d ''jti''), cap = c, purpose = the_str (get d ''purpose''),
     parent_cap = get d ''parent_cap'', max_uses = get d ''max_uses'', parent_profile = get d ''parent_profile''\<rparr>"
  using assms by (simp add: dict_to_claims_def as_dict_def as_str_def as_int_def)

lemma claim_types_suffice:
  assumes "require_claim_types p = Inr u"
  obtains c where "dict_to_claims p = Inr c" "nbf c = the_int (get p ''nbf'')"
    "expiry c = the_int (get p ''exp'')" "map PStr (aud c) = the_list (get p ''aud'')"
    "parent_profile c = get p ''parent_profile''"
proof -
  note t = require_claim_types_Inr[OF assms]
  obtain cl where cl: "clause_from_dict (the_dict (get p ''cap'')) = Inr cl" using t(5) by blast
  obtain au where au: "as_str_list (get p ''aud'') = Inr au" "the_list (get p ''aud'') = map PStr au"
    using as_str_list_ok[OF t(2)] by blast
  have "\<forall>k \<in> set required_claims. get p k \<noteq> PNone"
    using t(1-4) by (auto simp: required_claims_def whole_int_def is_str_list_def)
  then have req: "filter (\<lambda>k. \<not> has_key p k) required_claims = []"
    using has_key_get by (auto simp: filter_empty_conv)
  from t(1,3) have "is_str (get p ''iss'')" "is_str (get p ''sub'')" "is_int (get p ''iat'')"
    "is_int (get p ''nbf'')" "is_int (get p ''exp'')" "is_str (get p ''jti'')" "is_str (get p ''purpose'')"
    by (simp_all add: whole_int_def)
  note d = dict_to_claims_fields[OF req t(4) cl this(1,2) au(1) this(3-7)]
  show ?thesis by (rule that[OF d]) (simp_all add: au(2))
qed

text \<open>The type check makes every accepted payload readable: whatever payload passes it, the
  conversion to typed claims returns, and the claims it returns carry the payload's time bounds,
  audience and delegating profile as they were signed.\<close>

theorem checked_payload_converts:
  "case require_claim_types p of
     Inl e \<Rightarrow> True
   | Inr u \<Rightarrow> (case dict_to_claims p of
       Inl e \<Rightarrow> False
     | Inr c \<Rightarrow> nbf c = the_int (get p ''nbf'') \<and> expiry c = the_int (get p ''exp'')
         \<and> map PStr (aud c) = the_list (get p ''aud'') \<and> parent_profile c = get p ''parent_profile'')"
proof (cases "require_claim_types p")
  case (Inr u)
  obtain c where "dict_to_claims p = Inr c" "nbf c = the_int (get p ''nbf'')"
    "expiry c = the_int (get p ''exp'')" "map PStr (aud c) = the_list (get p ''aud'')"
    "parent_profile c = get p ''parent_profile''" by (rule claim_types_suffice[OF Inr])
  then show ?thesis by (simp add: Inr)
qed simp

lemma profile_target_Inr:
  assumes "profile_target v sd = Inr t"
  shows "\<exists>b mi p k. sd = Some b \<and> fst (load_master_identity b) = Inr (Some mi) \<and> p \<in> set (profiles mi)
    \<and> v = PStr (profile_id p) \<and> \<not> revoked p \<and> derived_pubkey_hex p = Some k \<and> fromhex k = Some t"
proof -
  obtain i where v: "v = PStr i" using assms by (cases v) (auto simp: profile_target_def)
  obtain b where sd: "sd = Some b" using assms v by (cases sd) (auto simp: profile_target_def split: if_splits)
  obtain mi where mi: "fst (load_master_identity b) = Inr (Some mi)"
    using assms v sd by (auto simp: profile_target_def split: if_splits sum.splits option.splits)
  obtain p where p: "find (\<lambda>p. profile_id p = i) (profiles mi) = Some p"
    using assms v sd mi by (auto simp: profile_target_def split: if_splits option.splits)
  have rv: "\<not> revoked p" using assms v sd mi p by (auto simp: profile_target_def split: if_splits)
  obtain k where k: "derived_pubkey_hex p = Some k"
    using assms v sd mi p rv by (auto simp: profile_target_def split: if_splits option.splits)
  have "fromhex k = Some t" using assms v sd mi p rv k
    by (auto simp: profile_target_def split: if_splits option.splits)
  moreover have "p \<in> set (profiles mi)" "profile_id p = i" using p by (auto simp: find_Some_iff)
  ultimately show ?thesis using v sd mi rv k by blast
qed

text \<open>C2: what an accepted token has shown. Its header names ES256K, its 64-byte signature recovers,
  over the SHA-256 of exactly the signed text, to the operator's key, or, when the claims name a
  delegating profile, to the stored key of a profile of that identifier that is not revoked; the
  claims are inside their time bounds and name the audience; and the claims returned are the ones
  of the signed payload.\<close>

theorem verify_jws_sound:
  "case verify_jws fl token pk expected_aud now sd of
     Inl e \<Rightarrow> True
   | Inr c \<Rightarrow> \<exists>header payload sig input target.
       parse_jws fl token = Inr (header, payload, sig, input)
       \<and> get header ''alg'' = PStr ''ES256K'' \<and> length sig = 64
       \<and> (recovers (sha256 input) sig target 0 \<or> recovers (sha256 input) sig target 1)
       \<and> (if parent_profile c = PNone then target = pk
          else \<exists>b mi p k. sd = Some b \<and> fst (load_master_identity b) = Inr (Some mi) \<and> p \<in> set (profiles mi)
            \<and> parent_profile c = PStr (profile_id p) \<and> \<not> revoked p
            \<and> derived_pubkey_hex p = Some k \<and> fromhex k = Some target)
       \<and> nbf c \<le> now \<and> now < expiry c
       \<and> set (case expected_aud of None \<Rightarrow> [] | Some a \<Rightarrow> [a]) \<subseteq> set (aud c)
       \<and> dict_to_claims payload = Inr c"
proof (cases "verify_jws fl token pk expected_aud now sd")
  case (Inr c)
  then obtain header payload sig input where parse: "parse_jws fl token = Inr (header, payload, sig, input)"
    by (auto simp: verify_jws_def bind_err_Inr)
  note v = Inr[unfolded verify_jws_def parse bind_err_simps prod.case Let_def]
  let ?pp = "get payload ''parent_profile''"
  have h: "get header ''alg'' = PStr ''ES256K''" "length sig = 64" using v by (simp_all split: if_splits)
  have hdr: "\<not> (get header ''typ'' \<noteq> PStr ''JWT'' \<and> get header ''typ'' \<noteq> PNone)"
    using v by (simp split: if_splits)
  have rest: "bind_err (if ?pp = PNone then Inr pk else profile_target ?pp sd) (\<lambda>target.
               if \<not> recovers (sha256 input) sig target 0 \<and> \<not> recovers (sha256 input) sig target 1
               then Inl SigMismatch else accept_payload payload expected_aud now) = Inr c"
    using v h hdr by (simp split del: if_split)
  then obtain target where t: "(if ?pp = PNone then Inr pk else profile_target ?pp sd) = Inr target"
    and r: "(if \<not> recovers (sha256 input) sig target 0 \<and> \<not> recovers (sha256 input) sig target 1
               then Inl SigMismatch else accept_payload payload expected_aud now) = Inr c"
    unfolding bind_err_Inr by blast
  have rec: "recovers (sha256 input) sig target 0 \<or> recovers (sha256 input) sig target 1"
    and tail: "accept_payload payload expected_aud now = Inr c"
    using r by (auto split: if_splits)
  obtain u where u: "require_claim_types payload = Inr u"
    using tail unfolding accept_payload_def bind_err_Inr by blast
  have fin: "\<not> now < the_int (get payload ''nbf'')" "\<not> the_int (get payload ''exp'') \<le> now"
    "expected_aud = None \<or> PStr (the expected_aud) \<in> set (the_list (get payload ''aud''))"
    "dict_to_claims payload = Inr c"
    using tail unfolding accept_payload_def u bind_err_simps by (simp_all split: if_splits)
  obtain c' where c': "dict_to_claims payload = Inr c'" "nbf c' = the_int (get payload ''nbf'')"
    "expiry c' = the_int (get payload ''exp'')" "map PStr (aud c') = the_list (get payload ''aud'')"
    "parent_profile c' = ?pp" by (rule claim_types_suffice[OF u])
  then have c: "c' = c" using fin(4) by simp
  have au: "set (case expected_aud of None \<Rightarrow> [] | Some a \<Rightarrow> [a]) \<subseteq> set (aud c)"
    using fin(3) c'(4)[symmetric] c by (auto split: option.splits)
  have tg: "if parent_profile c = PNone then target = pk
          else \<exists>b mi p k. sd = Some b \<and> fst (load_master_identity b) = Inr (Some mi) \<and> p \<in> set (profiles mi)
            \<and> parent_profile c = PStr (profile_id p) \<and> \<not> revoked p
            \<and> derived_pubkey_hex p = Some k \<and> fromhex k = Some target"
  proof (cases "?pp = PNone")
    case True
    then show ?thesis using t c' c by simp
  next
    case False
    then have "profile_target ?pp sd = Inr target" using t by simp
    from profile_target_Inr[OF this] show ?thesis using False c' c by simp
  qed
  have bounds: "nbf c \<le> now" "now < expiry c" using fin c' c by auto
  show ?thesis unfolding Inr sum.case
    by (intro exI conjI) (rule parse h rec tg bounds au fin(4))+
qed simp

section \<open>A minted token reads back\<close>

lemma utf8_decode_utf8 [simp]: "utf8_decode (utf8 s) = Inr s"
proof (induction s)
  case (Cons c s)
  have c: "code c < 256" by simp
  show ?case
  proof (cases "code c < 128")
    case True
    then show ?thesis using Cons by (simp add: utf8_Cons utf8_char_def)
  next
    case False
    then have d: "2 \<le> code c div 64 \<and> code c div 64 < 4" using c by (auto simp: less_mult_imp_div_less)
    then have "nat_of (byte_of (192 + code c div 64)) = 192 + code c div 64"
      "nat_of (byte_of (128 + code c mod 64)) = 128 + code c mod 64" by simp_all
    moreover have "char_of (code c div 64 * 64 + code c mod 64) = c" by simp
    ultimately show ?thesis using Cons False d by (auto simp: utf8_Cons utf8_char_def)
  qed
qed simp

lemma other_encoding_open:
  assumes "c = CHR ''}'' \<or> c = CHR 0x22"
  shows "\<not> other_encoding (utf8 (CHR ''{'' # c # r))"
proof -
  have "utf8 (CHR ''{'' # c # r) = 123 # (if c = CHR 0x22 then 34 else 125) # utf8 r"
    using assms by (auto simp: utf8_Cons utf8_char_def byte_of_def)
  then show ?thesis by (simp add: other_encoding_def)
qed

lemma other_encoding_dict: "\<not> other_encoding (utf8 (json_dumps (PDict d)))"
proof -
  obtain c r where j: "json_dumps (PDict d) = CHR ''{'' # c # r" and c: "c = CHR ''}'' \<or> c = CHR 0x22"
  proof (cases "map json_member (sort_key fst (dumps_items d))")
    case Nil
    then show ?thesis using that[of "CHR ''}''" "[]"] by simp
  next
    case (Cons m ms)
    obtain t where "m = CHR 0x22 # t" using Cons by (cases "sort_key fst (dumps_items d)")
      (auto simp: json_member_def json_str_def)
    then obtain t' where "join_with '','' (m # ms) = CHR 0x22 # t'" by (cases ms) auto
    then show ?thesis using that[of "CHR 0x22" "t' @ ''}''"] Cons by simp
  qed
  show ?thesis unfolding j by (rule other_encoding_open[OF c])
qed

lemma loads_canonical: "json_plain (PDict d) \<Longrightarrow> loads_bytes fl (canonical_value (PDict d)) = Inr (norm_json (PDict d))"
  using other_encoding_dict[of d] json_loads_dumps[of "PDict d" fl]
  by (simp add: loads_bytes_def canonical_value_def del: json_dumps.simps norm_json.simps json_plain.simps)

lemma b64_char_no_dot: "v < 64 \<Longrightarrow> b64_char v \<noteq> CHR ''.''"
proof
  assume "v < 64" "b64_char v = CHR ''.''"
  then have "b64_val (CHR ''.'') = Some v" using b64_val_char[of v] by simp
  then show False by (simp add: b64_val_def ascii_upper_def ascii_lower_def ascii_digit_def)
qed

lemma b64_no_dot: "CHR ''.'' \<notin> set (b64_encode bs)"
  by (induction bs rule: b64_encode.induct) (auto dest: b64_char_no_dot[symmetric, rotated] simp: b64_char_no_dot[symmetric])

lemma parse_assembled:
  assumes "json_plain (PDict hdr)" "json_plain (PDict pl)"
    and "h = b64_encode (canonical_value (PDict hdr))" "p = b64_encode (canonical_value (PDict pl))"
  shows "parse_jws fl (h @ CHR ''.'' # p @ CHR ''.'' # b64_encode sig) =
    Inr (the_dict (norm_json (PDict hdr)), the_dict (norm_json (PDict pl)), sig,
         map (\<lambda>c. byte_of (code c)) (h @ CHR ''.'' # p))"
proof -
  have "split_on (CHR ''.'') (h @ CHR ''.'' # p @ CHR ''.'' # b64_encode sig) = [h, p, b64_encode sig]"
    using b64_no_dot by (simp add: assms(3,4) split_on_append split_on_no_sep)
  moreover have "b64url_decode (b64_encode bs) = Some bs" for bs
    by (simp add: b64url_decode_def b64_decode_encode)
  ultimately show ?thesis
    using loads_canonical[OF assms(1), of fl] loads_canonical[OF assms(2), of fl]
    by (simp add: parse_jws_def assms(3,4))
qed

lemma strip_scalar: "scalar v \<Longrightarrow> strip_none v = v"
  by (cases v) auto

lemma dict_get_strip:
  "distinct (map fst d) \<Longrightarrow> dict_get (strip_items d) k =
     (case dict_get d k of None \<Rightarrow> None | Some v \<Rightarrow> if v = PNone then None else Some (strip_none v))"
proof (induction d)
  case (Cons kv d)
  have "dict_get (strip_items d) k = None" if "fst kv = k"
    using Cons that by (auto simp: map_of_eq_None_iff[symmetric] split: option.splits)
  then show ?case using Cons by auto
qed simp

lemma strip_keys: "set (map fst (strip_items d)) \<subseteq> set (map fst d)"
  by (induction d) auto

lemma strip_distinct: "distinct (map fst d) \<Longrightarrow> distinct (map fst (strip_items d))"
  using strip_keys by (induction d) auto

text \<open>Reading a field of a printed and parsed dictionary.\<close>

lemma get_printed:
  assumes "distinct (map fst d)"
  shows "get (sort_key fst (norm_items (strip_items d))) k = norm_json (strip_none (get d k))"
  using dict_get_norm[OF strip_distinct[OF assms]] dict_get_strip[OF assms]
  by (auto simp: get_def split: option.splits)

lemma get_or_printed:
  assumes "distinct (map fst d)" and "get d k \<noteq> PNone"
  shows "get_or (sort_key fst (norm_items (strip_items d))) k v0 = norm_json (strip_none (get d k))"
proof -
  obtain v where v: "dict_get d k = Some v" "v \<noteq> PNone"
    using assms(2) by (cases "dict_get d k") (auto simp: get_def)
  then have "dict_get (sort_key fst (norm_items (strip_items d))) k = Some (norm_json (strip_none v))"
    by (simp add: dict_get_norm[OF strip_distinct[OF assms(1)]] dict_get_strip[OF assms(1)])
  then show ?thesis using v by (simp add: get_or_def get_def)
qed

definition flat_ok :: "(string, pyval) dict \<Rightarrow> bool" where
  "flat_ok d \<longleftrightarrow> sorted (map fst d) \<and> distinct (map fst d)
     \<and> (\<forall>kv \<in> set d. scalar (snd kv) \<and> snd kv \<noteq> PNone)"

lemma strip_items_flat: "\<forall>kv \<in> set d. scalar (snd kv) \<and> snd kv \<noteq> PNone \<Longrightarrow> strip_items d = d"
  by (induction d) (auto simp: strip_scalar)

lemma printed_flat: "flat_ok d \<Longrightarrow> norm_json (strip_none (PDict d)) = PDict d"
  by (simp add: flat_ok_def strip_items_flat norm_items_scalar sort_key_id_if_sorted)

lemma printed_str_list [simp]: "norm_json (strip_none (str_list ss)) = str_list ss"
proof -
  have "strip_list (map PStr ss) = map PStr ss" by (induction ss) auto
  then show ?thesis by (simp add: str_list_def)
qed

text \<open>Claims as the program mints them: optional claims that are absent, texts or numbers, limits
  that are flat, and numbers the interpreter prints.\<close>

definition claims_plain :: "capability_claims \<Rightarrow> bool" where
  "claims_plain c \<longleftrightarrow>
     (let s = scope (cap c); l = limits (cap c)
      in scalar (create_for_owner s) \<and> scalar (chat_room_id s) \<and> scalar (target_user_id s)
       \<and> scalar (pairing_code s) \<and> scalar (payload_sha256 s)
       \<and> flat_ok (per_hour l) \<and> flat_ok (per_day l) \<and> flat_ok (per_session l)
       \<and> scalar (parent_cap c) \<and> scalar (max_uses c) \<and> scalar (parent_profile c)
       \<and> int_prints (tier (cap c)) \<and> int_prints (iat c) \<and> int_prints (nbf c) \<and> int_prints (expiry c))"

text \<open>The printed and parsed form of a dictionary of claims.\<close>

abbreviation printed :: "(string, pyval) dict \<Rightarrow> (string, pyval) dict" where
  "printed d \<equiv> sort_key fst (norm_items (strip_items d))"

lemma printed_dict: "norm_json (strip_none (PDict d)) = PDict (printed d)"
  by simp

lemma str_list_not_None [simp]: "str_list ss \<noteq> PNone" "is_str_list (str_list ss)" "is_list (str_list ss)"
  by (simp_all add: str_list_def is_str_list_def list_all_iff)

lemma as_str_list_str_list [simp]: "as_str_list (str_list ss) = Inr ss"
  by (simp add: str_list_def)

lemma scalar_printed: "scalar v \<Longrightarrow> norm_json (strip_none v) = v"
  by (simp add: strip_scalar scalar_plain)

lemma scope_back:
  assumes "scalar (create_for_owner s)" "scalar (chat_room_id s)" "scalar (target_user_id s)"
    "scalar (pairing_code s)" "scalar (payload_sha256 s)"
  shows "scope_from_dict (printed (scope_dict s)) = Inr s"
    and "\<forall>k \<in> {''env'', ''services'', ''repos''}. is_str_list (get (printed (scope_dict s)) k)"
proof -
  have d: "distinct (map fst (scope_dict s))" by (simp add: scope_dict_def)
  have f: "get (scope_dict s) ''env'' = str_list (env s)" "get (scope_dict s) ''services'' = str_list (services s)"
    "get (scope_dict s) ''repos'' = str_list (repos s)" "get (scope_dict s) ''create_for_owner'' = create_for_owner s"
    "get (scope_dict s) ''chat_room_id'' = chat_room_id s" "get (scope_dict s) ''target_user_id'' = target_user_id s"
    "get (scope_dict s) ''pairing_code'' = pairing_code s" "get (scope_dict s) ''payload_sha256'' = payload_sha256 s"
    by (simp_all add: get_def scope_dict_def)
  show "scope_from_dict (printed (scope_dict s)) = Inr s"
    using assms by (simp add: scope_from_dict_def get_printed[OF d] get_or_printed[OF d] f scalar_printed)
  show "\<forall>k \<in> {''env'', ''services'', ''repos''}. is_str_list (get (printed (scope_dict s)) k)"
    by (simp add: get_printed[OF d] f)
qed

lemma limits_back:
  assumes "flat_ok (per_hour l)" "flat_ok (per_day l)" "flat_ok (per_session l)"
  shows "limits_from_dict (printed (limits_dict l)) = Inr l"
    and "\<forall>k \<in> {''per_hour'', ''per_day'', ''per_session''}. is_dict (get_or (printed (limits_dict l)) k (PDict []))"
proof -
  have d: "distinct (map fst (limits_dict l))" by (simp add: limits_dict_def)
  have f: "get (limits_dict l) ''per_hour'' = PDict (per_hour l)" "get (limits_dict l) ''per_day'' = PDict (per_day l)"
    "get (limits_dict l) ''per_session'' = PDict (per_session l)"
    by (simp_all add: get_def limits_dict_def)
  note p = printed_flat[OF assms(1)] printed_flat[OF assms(2)] printed_flat[OF assms(3)]
  have g: "get_or (printed (limits_dict l)) ''per_hour'' (PDict []) = PDict (per_hour l)"
    "get_or (printed (limits_dict l)) ''per_day'' (PDict []) = PDict (per_day l)"
    "get_or (printed (limits_dict l)) ''per_session'' (PDict []) = PDict (per_session l)"
    using p by (simp_all only: get_or_printed[OF d] f pyval.distinct not_False_eq_True)
  show "limits_from_dict (printed (limits_dict l)) = Inr l"
    by (simp add: limits_from_dict_def g as_dict_def)
  show "\<forall>k \<in> {''per_hour'', ''per_day'', ''per_session''}. is_dict (get_or (printed (limits_dict l)) k (PDict []))"
    by (simp add: g)
qed

lemma clause_back:
  assumes "scope_from_dict (printed (scope_dict (scope c))) = Inr (scope c)"
    and "limits_from_dict (printed (limits_dict (limits c))) = Inr (limits c)"
  shows "clause_from_dict (printed (clause_dict c)) = Inr c"
    and "get_or (printed (clause_dict c)) ''scope'' (PDict []) = PDict (printed (scope_dict (scope c)))"
    and "get_or (printed (clause_dict c)) ''limits'' (PDict []) = PDict (printed (limits_dict (limits c)))"
    and "get (printed (clause_dict c)) ''tier'' = PInt (tier c)"
    and "get (printed (clause_dict c)) ''registry_version'' = PStr (registry_version c)"
    and "\<forall>k \<in> {''groups'', ''allow_actions'', ''deny_actions''}. is_str_list (get (printed (clause_dict c)) k)"
proof -
  have d: "distinct (map fst (clause_dict c))" by (simp add: clause_dict_def)
  have f: "get (clause_dict c) ''tier'' = PInt (tier c)" "get (clause_dict c) ''registry_version'' = PStr (registry_version c)"
    "get (clause_dict c) ''groups'' = str_list (groups c)" "get (clause_dict c) ''scope'' = PDict (scope_dict (scope c))"
    "get (clause_dict c) ''allow_actions'' = str_list (allow_actions c)"
    "get (clause_dict c) ''deny_actions'' = str_list (deny_actions c)"
    "get (clause_dict c) ''limits'' = PDict (limits_dict (limits c))"
    by (simp_all add: get_def clause_dict_def)
  show sc: "get_or (printed (clause_dict c)) ''scope'' (PDict []) = PDict (printed (scope_dict (scope c)))"
    and lm: "get_or (printed (clause_dict c)) ''limits'' (PDict []) = PDict (printed (limits_dict (limits c)))"
    and ti: "get (printed (clause_dict c)) ''tier'' = PInt (tier c)"
    and rv: "get (printed (clause_dict c)) ''registry_version'' = PStr (registry_version c)"
    and "\<forall>k \<in> {''groups'', ''allow_actions'', ''deny_actions''}. is_str_list (get (printed (clause_dict c)) k)"
    by (simp_all add: get_printed[OF d] get_or_printed[OF d] f)
  have ls: "get_or (printed (clause_dict c)) ''groups'' (PList []) = str_list (groups c)"
    "get_or (printed (clause_dict c)) ''allow_actions'' (PList []) = str_list (allow_actions c)"
    "get_or (printed (clause_dict c)) ''deny_actions'' (PList []) = str_list (deny_actions c)"
    by (simp_all add: get_or_printed[OF d] f)
  show "clause_from_dict (printed (clause_dict c)) = Inr c"
    using assms by (simp add: clause_from_dict_def sc lm ti rv ls as_int_def as_str_def as_dict_def)
qed

lemma claims_back:
  assumes "claims_plain c"
  shows "dict_to_claims (printed (claims_fields c)) = Inr c"
    and "require_claim_types (printed (claims_fields c)) = Inr ()"
    and "get (printed (claims_fields c)) ''parent_profile'' = parent_profile c"
    and "get (printed (claims_fields c)) ''nbf'' = PInt (nbf c)"
    and "get (printed (claims_fields c)) ''exp'' = PInt (expiry c)"
    and "get (printed (claims_fields c)) ''aud'' = str_list (aud c)"
proof -
  let ?p = "printed (claims_fields c)" and ?cd = "printed (clause_dict (cap c))"
  have d: "distinct (map fst (claims_fields c))" by (simp add: claims_fields_def)
  have f: "get (claims_fields c) ''iss'' = PStr (iss c)" "get (claims_fields c) ''sub'' = PStr (sub c)"
    "get (claims_fields c) ''aud'' = str_list (aud c)" "get (claims_fields c) ''iat'' = PInt (iat c)"
    "get (claims_fields c) ''nbf'' = PInt (nbf c)" "get (claims_fields c) ''exp'' = PInt (expiry c)"
    "get (claims_fields c) ''jti'' = PStr (jti c)" "get (claims_fields c) ''cap'' = PDict (clause_dict (cap c))"
    "get (claims_fields c) ''purpose'' = PStr (purpose c)" "get (claims_fields c) ''parent_cap'' = parent_cap c"
    "get (claims_fields c) ''max_uses'' = max_uses c" "get (claims_fields c) ''parent_profile'' = parent_profile c"
    by (simp_all add: get_def claims_fields_def)
  note pl = assms[unfolded claims_plain_def Let_def]
  have sb: "scope_from_dict (printed (scope_dict (scope (cap c)))) = Inr (scope (cap c))"
    "\<forall>k \<in> {''env'', ''services'', ''repos''}. is_str_list (get (printed (scope_dict (scope (cap c)))) k)"
    using scope_back[of "scope (cap c)"] pl by simp_all
  have lb: "limits_from_dict (printed (limits_dict (limits (cap c)))) = Inr (limits (cap c))"
    "\<forall>k \<in> {''per_hour'', ''per_day'', ''per_session''}.
       is_dict (get_or (printed (limits_dict (limits (cap c)))) k (PDict []))"
    using limits_back[of "limits (cap c)"] pl by simp_all
  note cb = clause_back[OF sb(1) lb(1)]
  have g: "get ?p ''iss'' = PStr (iss c)" "get ?p ''sub'' = PStr (sub c)" "get ?p ''aud'' = str_list (aud c)"
    "get ?p ''iat'' = PInt (iat c)" "get ?p ''nbf'' = PInt (nbf c)" "get ?p ''exp'' = PInt (expiry c)"
    "get ?p ''jti'' = PStr (jti c)" "get ?p ''cap'' = PDict ?cd" "get ?p ''purpose'' = PStr (purpose c)"
    "get ?p ''parent_cap'' = parent_cap c" "get ?p ''max_uses'' = max_uses c" "get ?p ''parent_profile'' = parent_profile c"
    using pl by (simp_all add: get_printed[OF d] f scalar_printed)
  show "get ?p ''parent_profile'' = parent_profile c" "get ?p ''nbf'' = PInt (nbf c)"
    "get ?p ''exp'' = PInt (expiry c)" "get ?p ''aud'' = str_list (aud c)" using g by simp_all
  have "\<forall>k \<in> set required_claims. get ?p k \<noteq> PNone" using g by (auto simp: required_claims_def)
  then have req: "filter (\<lambda>k. \<not> has_key ?p k) required_claims = []"
    using has_key_get by (auto simp: filter_empty_conv)
  have "dict_to_claims ?p = Inr \<lparr>iss = the_str (get ?p ''iss''), sub = the_str (get ?p ''sub''), aud = aud c,
     iat = the_int (get ?p ''iat''), nbf = the_int (get ?p ''nbf''), expiry = the_int (get ?p ''exp''),
     jti = the_str (get ?p ''jti''), cap = cap c, purpose = the_str (get ?p ''purpose''),
     parent_cap = get ?p ''parent_cap'', max_uses = get ?p ''max_uses'', parent_profile = get ?p ''parent_profile''\<rparr>"
    by (rule dict_to_claims_fields[OF req]) (simp_all add: g cb(1))
  then show "dict_to_claims ?p = Inr c" by (simp add: g)
  have fb: "first_bad ok ks = Inr ()" if "list_all ok ks" for ok ks
    using that first_bad_Inr[of ok ks "()"] by blast
  show "require_claim_types ?p = Inr ()"
    unfolding require_claim_types_def Let_def bind_err_Inr first_bad_Inr
    using cb(2-6) sb(2) lb(2) by (simp add: g whole_int_def)
qed

lemma plain_strip:
  assumes "distinct (map fst d)" and "\<forall>kv \<in> set d. snd kv \<noteq> PNone \<longrightarrow> json_plain (strip_none (snd kv))"
  shows "json_plain (strip_none (PDict d))"
proof -
  have "plain_items (strip_items d)" using assms(2) by (induction d) auto
  then show ?thesis using strip_distinct[OF assms(1)] by simp
qed

lemma plain_str_list [simp]: "json_plain (strip_none (str_list ss))"
proof -
  have "strip_list (map PStr ss) = map PStr ss" by (induction ss) auto
  then show ?thesis by (simp add: str_list_def plain_list_iff)
qed

lemma plain_flat: "flat_ok d \<Longrightarrow> json_plain (strip_none (PDict d))"
  by (intro plain_strip) (auto simp: flat_ok_def strip_scalar scalar_plain)

lemma claims_json_plain:
  assumes "claims_plain c"
  shows "json_plain (strip_none (PDict (claims_fields c)))"
proof -
  note pl = assms[unfolded claims_plain_def Let_def]
  have sc: "json_plain (strip_none (PDict (scope_dict (scope (cap c)))))"
    using pl by (intro plain_strip) (auto simp: scope_dict_def strip_scalar scalar_plain simp del: strip_none.simps(1))
  have lm: "json_plain (strip_none (PDict (limits_dict (limits (cap c)))))"
    using pl plain_flat by (intro plain_strip) (auto simp: limits_dict_def simp del: strip_none.simps(1))
  have cl: "json_plain (strip_none (PDict (clause_dict (cap c))))"
    using pl sc lm by (intro plain_strip)
      (auto simp: clause_dict_def int_prints_def simp del: strip_none.simps(1))
  show ?thesis
    using pl cl by (intro plain_strip)
      (auto simp: claims_fields_def int_prints_def strip_scalar scalar_plain simp del: strip_none.simps(1))
qed

definition jws_header :: "(string, pyval) dict" where
  "jws_header = [(''alg'', PStr ''ES256K''), (''typ'', PStr ''JWT'')]"

text \<open>C5: minting and verifying agree. The token assembled from the signing input of plain claims
  and a 64-byte signature is decided by the signature, the clock and the audience alone: it is
  refused when the signature does not recover the expected key over the minted digest, when the
  clock is outside the claims' bounds or the audience is another, and otherwise the verifier returns
  exactly the claims that were minted, every field.\<close>

theorem verify_minted:
  assumes "claims_plain c" and "parent_profile c = PNone"
    and "build_signing_input c = (digest, h, p)" and "assemble_jws h p sig = Some token"
  shows "verify_jws fl token pk expected_aud now sd =
    (if \<not> recovers digest sig pk 0 \<and> \<not> recovers digest sig pk 1 then Inl SigMismatch
     else if now < nbf c then Inl NotYetValid
     else if expiry c \<le> now then Inl Expired
     else if expected_aud \<noteq> None \<and> the expected_aud \<notin> set (aud c) then Inl WrongAudience
     else Inr c)"
proof -
  have hp: "h = b64_encode (canonical_value (PDict jws_header))"
    "p = b64_encode (canonical_value (PDict (strip_items (claims_fields c))))"
    and digest: "digest = sha256 (map (\<lambda>c. byte_of (code c)) (h @ CHR ''.'' # p))"
    using assms(3) by (auto simp: build_signing_input_def Let_def jws_header_def claims_to_dict_def)
  have sig: "length sig = 64" and tok: "token = h @ CHR ''.'' # p @ CHR ''.'' # b64_encode sig"
    using assms(4) by (auto simp: assemble_jws_def split: if_splits)
  have ph: "json_plain (PDict jws_header)" by (simp add: jws_header_def)
  have pp: "json_plain (PDict (strip_items (claims_fields c)))"
    using claims_json_plain[OF assms(1)] by (simp only: strip_none.simps(1))
  have nh: "the_dict (norm_json (PDict jws_header)) = jws_header" by (simp add: jws_header_def)
  have np: "the_dict (norm_json (PDict (strip_items (claims_fields c)))) = printed (claims_fields c)" by simp
  have parse: "parse_jws fl token = Inr (jws_header, printed (claims_fields c), sig,
      map (\<lambda>c. byte_of (code c)) (h @ CHR ''.'' # p))"
    unfolding tok parse_assembled[OF ph pp hp] nh np ..
  note cb = claims_back[OF assms(1)]
  have acc: "accept_payload (printed (claims_fields c)) expected_aud now =
     (if now < nbf c then Inl NotYetValid else if expiry c \<le> now then Inl Expired
      else if expected_aud \<noteq> None \<and> the expected_aud \<notin> set (aud c) then Inl WrongAudience else Inr c)"
    by (auto simp: accept_payload_def cb str_list_def)
  have hd: "get jws_header ''alg'' = PStr ''ES256K''" "get jws_header ''typ'' = PStr ''JWT''"
    by (simp_all add: jws_header_def get_def)
  show ?thesis
    unfolding verify_jws_def parse bind_err_simps prod.case Let_def acc digest[symmetric] cb(3) assms(2)
    using hd sig by simp
qed

definition minted_claims :: capability_claims where
  "minted_claims = \<lparr>iss = ''phone'', sub = ''agent'', aud = [''vault''], iat = 1000, nbf = 1000, expiry = 1100,
     jti = ''j1'', cap = \<lparr>tier = 1, registry_version = ''v1'', groups = [''docs''],
       scope = empty_scope\<lparr>env := [''staging''], payload_sha256 := PStr ''ab''\<rparr>,
       allow_actions = [''doc:edit''], deny_actions = [], limits = empty_limits\<lparr>per_hour := [(''doc:edit'', PInt 5)]\<rparr>\<rparr>,
     purpose = ''edit'', parent_cap = PNone, max_uses = PInt 1, parent_profile = PNone\<rparr>"

theorem verify_minted_witness:
  "\<exists>token. assemble_jws (fst (snd (build_signing_input minted_claims))) (snd (snd (build_signing_input minted_claims)))
      (replicate 64 7) = Some token
    \<and> verify_jws id token [] None 1050 None \<in> {Inl SigMismatch, Inr minted_claims}"
proof -
  have pl: "claims_plain minted_claims"
    by (simp add: claims_plain_def minted_claims_def empty_scope_def empty_limits_def flat_ok_def int_prints_def
        str_int_def str_nat.simps Let_def)
  have pp: "parent_profile minted_claims = PNone" by (simp add: minted_claims_def)
  obtain d h p where b: "build_signing_input minted_claims = (d, h, p)" by (cases "build_signing_input minted_claims")
  then obtain token where t: "assemble_jws h p (replicate 64 7) = Some token" by (simp add: assemble_jws_def)
  have "\<not> (1050 :: int) < nbf minted_claims" "\<not> expiry minted_claims \<le> 1050" by (simp_all add: minted_claims_def)
  then have "verify_jws id token [] None 1050 None \<in> {Inl SigMismatch, Inr minted_claims}"
    using verify_minted[OF pl pp b t, of id "[]" None 1050 None] by auto
  then show ?thesis using t by (auto simp: b)
qed

end
