(* ===== verification/PairRecord.thy ===== *)
theory PairRecord
  imports Records Capability
begin

text \<open>
  \<^verbatim>\<open>src/recto/capability/pair_record.py\<close>: the pairing record a phone signs, and the verifier that
  admits a grant for exactly that record. A refusal is one of the code's names; \<open>PairAttributeError\<close>
  and \<open>PairValueError\<close> are the two exceptions the code lets out unnamed.
\<close>

datatype pair_refusal =
    RecordPubkeyMalformed
  | RecordFieldEmpty string
  | RecordNotAfterMalformed
  | RecordExpired
  | GrantActionNotPair
  | GrantScopeMissingFingerprint
  | GrantScopeFingerprintMismatch
  | GrantCodeMismatch
  | GrantSignerNotRecordPhone
  | GrantWindowExceedsCeiling
  | GrantAudienceNotBootloader
  | PairAttributeError
  | PairValueError

definition pair_action :: string where
  "pair_action = ''devices:pair''"

definition pair_window_ceiling_seconds :: int where
  "pair_window_ceiling_seconds = 3600"

record pair_record =
  bootloader_id :: string
  subject :: string
  phone_pubkey :: string
  pair_code :: string
  not_after :: int

text \<open>\<open>_PUBKEY_HEX.match\<close>: the pattern ends in \<open>$\<close>, so one line feed may follow.\<close>

definition pubkey_hex_matches :: "string \<Rightarrow> bool" where
  "pubkey_hex_matches = match_dollar_class hex_lower 128 128"

definition nonblank :: "pyval \<Rightarrow> bool" where
  "nonblank v \<longleftrightarrow> is_str v \<and> strip (the_str v) \<noteq> []"

text \<open>The constructor, with the checks of \<open>__post_init__\<close>.\<close>

definition pair_record_init ::
  "pyval \<Rightarrow> pyval \<Rightarrow> pyval \<Rightarrow> pyval \<Rightarrow> pyval \<Rightarrow> pair_refusal + pair_record" where
  "pair_record_init bid subj pubkey cod na =
     (if \<not> nonblank bid then Inl (RecordFieldEmpty ''bootloader_id'')
      else if \<not> nonblank subj then Inl (RecordFieldEmpty ''subject'')
      else if \<not> nonblank cod then Inl (RecordFieldEmpty ''code'')
      else if \<not> is_str pubkey \<or> \<not> pubkey_hex_matches (the_str pubkey) then Inl RecordPubkeyMalformed
      else if is_bool na \<or> \<not> is_int na \<or> the_int na \<le> 0 then Inl RecordNotAfterMalformed
      else Inr \<lparr>bootloader_id = the_str bid, subject = the_str subj, phone_pubkey = the_str pubkey,
             pair_code = the_str cod, not_after = the_int na\<rparr>)"

definition pair_to_dict :: "pair_record \<Rightarrow> (string, pyval) dict" where
  "pair_to_dict r =
     [(''bootloader_id'', PStr (bootloader_id r)), (''code'', PStr (pair_code r)),
      (''not_after'', PInt (not_after r)), (''phone_pubkey'', PStr (phone_pubkey r)),
      (''subject'', PStr (subject r))]"

definition pair_canonical_bytes :: "pair_record \<Rightarrow> bytes" where
  "pair_canonical_bytes r = canonical_json (pair_to_dict r)"

definition pair_fingerprint :: "pair_record \<Rightarrow> string" where
  "pair_fingerprint r = hexlify (sha256 (pair_canonical_bytes r))"

text \<open>\<open>int(s)\<close> of a string of \<open>isdigit\<close> characters: the superscript digits and more than 4300
  digits raise \<open>ValueError\<close>.\<close>

definition int_of_isdigit :: "string \<Rightarrow> int option" where
  "int_of_isdigit s = (if list_all ascii_digit s \<and> length s \<le> 4300
     then Some (int (nat_of_digits s)) else None)"

definition pair_from_dict :: "(string, pyval) dict \<Rightarrow> pair_refusal + pair_record" where
  "pair_from_dict d =
     (let p = get d ''phone_pubkey''; na = get d ''not_after'';
          p' = (if is_str p then PStr (normalize_pubkey (the_str p)) else p)
      in if is_str na \<and> py_isdigit (the_str na) then
           (case int_of_isdigit (the_str na) of
              None \<Rightarrow> Inl PairValueError
            | Some i \<Rightarrow> pair_record_init (get d ''bootloader_id'') (get d ''subject'') p' (get d ''code'') (PInt i))
         else pair_record_init (get d ''bootloader_id'') (get d ''subject'') p' (get d ''code'') na)"

definition verify_pair_grant ::
  "capability_claims \<Rightarrow> pair_record \<Rightarrow> string \<Rightarrow> string \<Rightarrow> int \<Rightarrow> string \<Rightarrow> pair_refusal + string" where
  "verify_pair_grant claims r signer bid now action =
     (let sc = scope (cap claims); pinned = payload_sha256 sc; expected = pair_fingerprint r;
          alias = pairing_code sc
      in if action \<notin> set (allow_actions (cap claims)) then Inl GrantActionNotPair
         else if bid \<notin> set (aud claims) then Inl GrantAudienceNotBootloader
         else if normalize_pubkey signer \<noteq> phone_pubkey r then Inl GrantSignerNotRecordPhone
         else if now \<ge> not_after r then Inl RecordExpired
         else if expiry claims - nbf claims > pair_window_ceiling_seconds then Inl GrantWindowExceedsCeiling
         else if \<not> truthy pinned then Inl GrantScopeMissingFingerprint
         else if \<not> is_str pinned then Inl PairAttributeError
         else if py_lower (strip (the_str pinned)) \<noteq> expected then Inl GrantScopeFingerprintMismatch
         else if alias \<noteq> PNone \<and> alias \<noteq> PStr (pair_code r) then Inl GrantCodeMismatch
         else Inr expected)"

section \<open>The canonical form\<close>

lemma pair_canonical_inj:
  assumes "int_prints (not_after r)" "int_prints (not_after s)"
    and "pair_canonical_bytes r = pair_canonical_bytes s"
  shows "r = s"
proof -
  have sorted: "sorted (map fst (pair_to_dict x)) \<and> distinct (map fst (pair_to_dict x))" for x
    by (simp add: pair_to_dict_def)
  have sc: "\<forall>kv \<in> set (pair_to_dict x). scalar (snd kv)" if "int_prints (not_after x)" for x
    using that by (simp add: pair_to_dict_def)
  have "pair_to_dict r = pair_to_dict s"
    using assms(3) sorted sc[OF assms(1)] sc[OF assms(2)] unfolding pair_canonical_bytes_def
    by (intro canonical_json_inj) auto
  then show ?thesis by (cases r; cases s) (simp add: pair_to_dict_def)
qed

interpretation pair: canonical_record sha256 pair_canonical_bytes "\<lambda>r. int_prints (not_after r)"
  by unfold_locales (rule pair_canonical_inj)

lemma pair_fp: "pair.fp = pair_fingerprint"
  by (rule ext) (simp add: pair.fp_def pair_fingerprint_def)

lemma verify_pair_grant_Inr:
  "verify_pair_grant claims r signer bid now action = Inr fp \<longleftrightarrow>
     action \<in> set (allow_actions (cap claims)) \<and> bid \<in> set (aud claims) \<and>
     normalize_pubkey signer = phone_pubkey r \<and> now < not_after r \<and>
     expiry claims - nbf claims \<le> pair_window_ceiling_seconds \<and>
     fp = pair_fingerprint r \<and>
     (\<exists>p. payload_sha256 (scope (cap claims)) = PStr p \<and> p \<noteq> [] \<and> py_lower (strip p) = fp) \<and>
     (pairing_code (scope (cap claims)) = PNone \<or> pairing_code (scope (cap claims)) = PStr (pair_code r))"
  by (cases "payload_sha256 (scope (cap claims))") (auto simp: verify_pair_grant_def Let_def)

section \<open>Properties\<close>

text \<open>C7: one grant admits one pairing record. If the same claims are admitted for two records (at
  whatever times, for whatever signers, actions and bootloaders), the records are equal in every
  field, or their canonical bytes are an explicit SHA-256 collision.\<close>

theorem pair_grant_binds_record:
  assumes "verify_pair_grant claims r signer bid now action = Inr fp"
    and "verify_pair_grant claims s signer' bid' now' action' = Inr fp'"
    and "int_prints (not_after r)" and "int_prints (not_after s)"
  shows "r = s \<or> sha_collision (pair_canonical_bytes r) (pair_canonical_bytes s)"
proof -
  obtain p where p: "py_lower (strip p) = pair_fingerprint r" "py_lower (strip p) = pair_fingerprint s"
    using assms(1,2) by (auto simp: verify_pair_grant_Inr)
  then show ?thesis
    using pair.fp_binds[OF assms(3,4)] by (simp add: pair_fp sha_collision_def)
qed

definition sample_pair :: pair_record where
  "sample_pair = \<lparr>bootloader_id = ''vault'', subject = ''handle'', phone_pubkey = ''ab'',
     pair_code = ''CODE'', not_after = 2000\<rparr>"

definition sample_grant :: capability_claims where
  "sample_grant = \<lparr>iss = ''phone'', sub = ''user'', aud = [''vault''], iat = 1000, nbf = 1000, expiry = 1100,
     jti = ''j1'', cap = \<lparr>tier = 0, registry_version = ''v1'', groups = [],
       scope = empty_scope\<lparr>payload_sha256 := PStr (pair_fingerprint sample_pair)\<rparr>,
       allow_actions = [''devices:pair''], deny_actions = [], limits = empty_limits\<rparr>,
     purpose = ''pair'', parent_cap = PNone, max_uses = PInt 1, parent_profile = PNone\<rparr>"

lemma sample_grant_admitted:
  "verify_pair_grant sample_grant sample_pair ''AB '' ''vault'' 1500 ''devices:pair'' =
     Inr (pair_fingerprint sample_pair)"
proof -
  have "normalize_pubkey ''AB '' = ''ab''" by code_simp
  moreover have "pair_fingerprint sample_pair \<noteq> []"
    using length_hexlify[of "sha256 (pair_canonical_bytes sample_pair)"]
    by (auto simp: pair_fingerprint_def simp del: length_hexlify)
  ultimately show ?thesis
    unfolding verify_pair_grant_Inr
    by (simp add: sample_grant_def sample_pair_def pair_window_ceiling_seconds_def empty_scope_def
        pair_fingerprint_def)
qed

theorem pair_grant_binds_record_witness:
  "sample_pair = sample_pair \<or> sha_collision (pair_canonical_bytes sample_pair) (pair_canonical_bytes sample_pair)"
proof -
  have "int_prints (not_after sample_pair)" by (simp add: sample_pair_def int_prints_def) code_simp
  from pair_grant_binds_record[OF sample_grant_admitted sample_grant_admitted this this] show ?thesis .
qed

text \<open>What an admitted pairing grant has shown: it carries the action, names this bootloader,
  was signed by the record's phone, is inside the record's life and the signed window, pins the
  record's fingerprint, and carries no other pairing code; every other outcome is a refusal.\<close>

theorem pair_grant_admission:
  "(\<exists>fp. verify_pair_grant claims r signer bid now action = Inr fp) \<longleftrightarrow>
     action \<in> set (allow_actions (cap claims)) \<and> bid \<in> set (aud claims)
     \<and> normalize_pubkey signer = phone_pubkey r \<and> now < not_after r
     \<and> expiry claims - nbf claims \<le> 3600
     \<and> (\<exists>p. payload_sha256 (scope (cap claims)) = PStr p
           \<and> py_lower (strip p) = hexlify (sha256 (pair_canonical_bytes r)))
     \<and> pairing_code (scope (cap claims)) \<in> {PNone, PStr (pair_code r)}"
proof -
  have "p \<noteq> []" if "py_lower (strip p) = hexlify (sha256 (pair_canonical_bytes r))" for p
  proof
    assume "p = []"
    then have "length (hexlify (sha256 (pair_canonical_bytes r))) = 0" using that by (simp add: py_lower_def)
    then show False by simp
  qed
  then show ?thesis
    by (auto simp: verify_pair_grant_Inr pair_window_ceiling_seconds_def pair_fingerprint_def)
qed

text \<open>A record read from the wire is well formed: its key is exactly 128 lowercase hexadecimal
  digits, its time is positive and none of its names is blank.\<close>

theorem pair_from_dict_wf:
  assumes "pair_from_dict d = Inr r"
  shows "fullmatch_class hex_lower 128 128 (phone_pubkey r) \<and> 0 < not_after r
    \<and> strip (bootloader_id r) \<noteq> [] \<and> strip (subject r) \<noteq> [] \<and> strip (pair_code r) \<noteq> []"
proof -
  let ?p = "get d ''phone_pubkey''"
  let ?p' = "if is_str ?p then PStr (normalize_pubkey (the_str ?p)) else ?p"
  obtain na where init: "pair_record_init (get d ''bootloader_id'') (get d ''subject'') ?p' (get d ''code'') na = Inr r"
    using assms by (auto simp: pair_from_dict_def Let_def split: if_splits option.splits)
  then have str: "is_str ?p'" and m: "pubkey_hex_matches (phone_pubkey r)" and key: "phone_pubkey r = the_str ?p'"
    by (auto simp: pair_record_init_def split: if_splits)
  then have "phone_pubkey r = normalize_pubkey (the_str ?p)" by (auto split: if_splits)
  then have "phone_pubkey r = [] \<or> last (phone_pubkey r) \<noteq> char_of (10 :: nat)"
    using last_normalize_pubkey by metis
  then have "fullmatch_class hex_lower 128 128 (phone_pubkey r)"
    using m by (auto simp: pubkey_hex_matches_def match_dollar_class_def fullmatch_class_def)
  then show ?thesis using init by (auto simp: pair_record_init_def nonblank_def split: if_splits)
qed

definition sample_wire :: "(string, pyval) dict" where
  "sample_wire = [(''bootloader_id'', PStr ''vault''), (''subject'', PStr ''handle''), (''code'', PStr ''CODE''),
     (''phone_pubkey'', PStr (''0x04'' @ replicate 128 (CHR ''A''))), (''not_after'', PStr ''2000'')]"

theorem pair_from_dict_wf_witness:
  "fullmatch_class hex_lower 128 128 (replicate 128 (CHR ''a''))"
proof -
  have "pair_from_dict sample_wire = Inr \<lparr>bootloader_id = ''vault'', subject = ''handle'',
     phone_pubkey = replicate 128 (CHR ''a''), pair_code = ''CODE'', not_after = 2000\<rparr>"
    by code_simp
  from pair_from_dict_wf[OF this] show ?thesis by simp
qed

text \<open>Two refusals of the wire record and of the grant are not the named ones. A \<open>not_after\<close>
  text of superscript digits passes \<open>isdigit\<close> and then fails in \<open>int\<close>, and a fingerprint claim that
  is not a text fails in \<open>strip\<close>: both leave as another exception than the named refusal. And the
  constructor, unlike the wire reader, takes a key followed by a line feed.\<close>

theorem pair_unnamed_refusals:
  "pair_from_dict [(''not_after'', PStr [char_of (178 :: nat)])] = Inl PairValueError
   \<and> verify_pair_grant
       (sample_grant\<lparr>cap := (cap sample_grant)\<lparr>scope := empty_scope\<lparr>payload_sha256 := PInt 5\<rparr>\<rparr>\<rparr>)
       sample_pair ''AB '' ''vault'' 1500 ''devices:pair'' = Inl PairAttributeError
   \<and> (\<exists>r. pair_record_init (PStr ''b'') (PStr ''s'') (PStr (replicate 128 (CHR ''a'') @ [char_of (10 :: nat)]))
        (PStr ''c'') (PInt 1) = Inr r \<and> length (phone_pubkey r) = 129)"
proof (intro conjI)
  show "pair_from_dict [(''not_after'', PStr [char_of (178 :: nat)])] = Inl PairValueError"
    by (simp add: pair_from_dict_def get_def py_isdigit_def char_isdigit_def int_of_isdigit_def ascii_digit_def)
  have "normalize_pubkey ''AB '' = ''ab''" by code_simp
  then show "verify_pair_grant
       (sample_grant\<lparr>cap := (cap sample_grant)\<lparr>scope := empty_scope\<lparr>payload_sha256 := PInt 5\<rparr>\<rparr>\<rparr>)
       sample_pair ''AB '' ''vault'' 1500 ''devices:pair'' = Inl PairAttributeError"
    by (simp add: verify_pair_grant_def sample_grant_def sample_pair_def pair_window_ceiling_seconds_def)
  show "\<exists>r. pair_record_init (PStr ''b'') (PStr ''s'') (PStr (replicate 128 (CHR ''a'') @ [char_of (10 :: nat)]))
        (PStr ''c'') (PInt 1) = Inr r \<and> length (phone_pubkey r) = 129"
    by (simp add: pair_record_init_def nonblank_def strip_def lstrip_def rstrip_def py_space_def
        pubkey_hex_matches_def match_dollar_class_def fullmatch_class_def hex_lower_def list_all_iff)
qed

end
