(* ===== verification/SubjectHandle.thy ===== *)
theory SubjectHandle
  imports Loading
begin

text \<open>
  \<^verbatim>\<open>src/recto/subject_handle.py\<close>: the opaque handle a platform gives one of its users, its grammar
  (the canonical base64url spelling of 32 bytes) and its storage form. The only exception is
  \<open>ValueError\<close>, here \<open>ConvValue\<close>.
\<close>

definition subject_char :: "char \<Rightarrow> bool" where
  "subject_char c \<longleftrightarrow> ascii_lower c \<or> ascii_upper c \<or> ascii_digit c \<or> c = CHR ''_'' \<or> c = CHR ''-''"

definition normalize_subject :: "pyval \<Rightarrow> conv_error + string" where
  "normalize_subject v =
     (if \<not> is_str v then Inl ConvValue else let s = strip (the_str v) in
      if \<not> match_dollar_class subject_char 43 43 s then Inl ConvValue
      else case b64_decode (s @ ''='') of
        None \<Rightarrow> Inl ConvValue
      | Some raw \<Rightarrow> if length raw \<noteq> 32 then Inl ConvValue
                    else if b64_encode raw \<noteq> s then Inl ConvValue else Inr s)"

definition subject_storage_id :: "string \<Rightarrow> conv_error + string" where
  "subject_storage_id subject = bind_err (normalize_subject (PStr subject)) (\<lambda>s.
     case b64_decode (s @ ''='') of None \<Rightarrow> Inl ConvValue | Some raw \<Rightarrow> Inr (hexlify raw))"

section \<open>Handles are the canonical spellings of 32 bytes\<close>

lemma subject_char_b64: "v < 64 \<Longrightarrow> subject_char (b64_char v)"
  unfolding subject_char_def ascii_lower_def ascii_upper_def ascii_digit_def b64_char_def
  by auto

lemma subject_char_plain: "subject_char c \<Longrightarrow> \<not> py_space c"
  by (auto simp: subject_char_def ascii_lower_def ascii_upper_def ascii_digit_def py_space_def)

lemma b64_encode_chars: "list_all subject_char (b64_encode bs)"
  by (induction bs rule: b64_encode.induct) (auto intro!: subject_char_b64)

lemma length_b64_encode: "length (b64_encode bs) = (4 * length bs + 2) div 3"
  by (induction bs rule: b64_encode.induct) auto

lemma handle_decode:
  assumes "length raw = 32"
  shows "b64_decode (b64_encode raw @ ''='') = Some raw"
  using b64_decode_encode[of raw] assms by (simp add: b64_pad_def length_b64_encode)

definition subject_handle :: "bytes \<Rightarrow> string" where
  "subject_handle raw = b64_encode raw"

lemma normalize_subject_handle:
  assumes "length raw = 32"
  shows "normalize_subject (PStr (subject_handle raw)) = Inr (subject_handle raw)"
proof -
  let ?h = "b64_encode raw"
  have "list_all (\<lambda>c. \<not> py_space c) ?h"
    using b64_encode_chars[of raw] subject_char_plain by (auto simp: list_all_iff)
  then have "strip ?h = ?h" by (rule strip_id)
  moreover have "match_dollar_class subject_char 43 43 ?h"
    using assms b64_encode_chars by (intro fullmatch_match) (simp add: fullmatch_class_def length_b64_encode)
  ultimately show ?thesis
    using assms handle_decode[OF assms] by (simp add: normalize_subject_def subject_handle_def)
qed

lemma normalize_subject_Inr:
  "normalize_subject v = Inr s \<longleftrightarrow>
     (\<exists>t raw. v = PStr t \<and> strip t = s \<and> length raw = 32 \<and> s = subject_handle raw)"
proof
  assume n: "normalize_subject v = Inr s"
  then show "\<exists>t raw. v = PStr t \<and> strip t = s \<and> length raw = 32 \<and> s = subject_handle raw"
    by (cases v) (auto simp: normalize_subject_def Let_def subject_handle_def split: option.splits if_splits)
next
  assume "\<exists>t raw. v = PStr t \<and> strip t = s \<and> length raw = 32 \<and> s = subject_handle raw"
  then obtain t raw where v: "v = PStr t" "strip t = s" "length raw = 32" "s = subject_handle raw" by blast
  then have "strip s = s" by (metis strip_strip)
  then have "normalize_subject v = normalize_subject (PStr s)" using v by (simp add: normalize_subject_def)
  then show "normalize_subject v = Inr s" using normalize_subject_handle[OF v(3)] v(4) by simp
qed

lemma subject_handle_inj:
  assumes "length a = 32" "length b = 32" "subject_handle a = subject_handle b"
  shows "a = b"
proof -
  have "Some a = Some b"
    using handle_decode[OF assms(1)] handle_decode[OF assms(2)] assms(3) unfolding subject_handle_def by metis
  then show ?thesis by simp
qed

lemma storage_id_Inr:
  "subject_storage_id s = Inr i \<longleftrightarrow>
     (\<exists>raw. length raw = 32 \<and> strip s = subject_handle raw \<and> i = hexlify raw)"
proof
  assume "subject_storage_id s = Inr i"
  then obtain h where h: "normalize_subject (PStr s) = Inr h"
    and d: "(case b64_decode (h @ ''='') of None \<Rightarrow> Inl ConvValue | Some raw \<Rightarrow> Inr (hexlify raw)) = Inr i"
    by (auto simp: subject_storage_id_def bind_err_Inr)
  then obtain raw where "length raw = 32" "strip s = subject_handle raw" "h = subject_handle raw"
    by (auto simp: normalize_subject_Inr)
  then show "\<exists>raw. length raw = 32 \<and> strip s = subject_handle raw \<and> i = hexlify raw"
    using d handle_decode[of raw] by (auto simp: subject_handle_def)
next
  assume "\<exists>raw. length raw = 32 \<and> strip s = subject_handle raw \<and> i = hexlify raw"
  then obtain raw where r: "length raw = 32" "strip s = subject_handle raw" "i = hexlify raw" by blast
  then have "normalize_subject (PStr s) = Inr (subject_handle raw)" by (auto simp: normalize_subject_Inr)
  then show "subject_storage_id s = Inr i"
    using r handle_decode[OF r(1)] by (simp add: subject_storage_id_def subject_handle_def)
qed

section \<open>Properties\<close>

text \<open>C20: the handles accepted are exactly the canonical base64url spellings of 32 bytes, with white
  space around them; and the storage form of a handle is 64 lowercase hexadecimal digits, the same
  for two accepted texts only if they are the same handle, so two users never share a file even
  where file names fold case.\<close>

theorem subject_storage_one_to_one:
  "((\<exists>h. normalize_subject v = Inr h) \<longleftrightarrow>
      (\<exists>raw t. v = PStr t \<and> length raw = 32 \<and> strip t = subject_handle raw))
   \<and> (case subject_storage_id s of
        Inl e \<Rightarrow> e = ConvValue
      | Inr i \<Rightarrow> fullmatch_class hex_lower 64 64 i
          \<and> (\<forall>t. (subject_storage_id t = Inr i) = (normalize_subject (PStr t) = normalize_subject (PStr s))))"
proof -
  have a: "(\<exists>h. normalize_subject v = Inr h) \<longleftrightarrow>
      (\<exists>raw t. v = PStr t \<and> length raw = 32 \<and> strip t = subject_handle raw)"
    by (auto simp: normalize_subject_Inr)
  show ?thesis
  proof (cases "subject_storage_id s")
    case (Inl e)
    have "e = ConvValue"
      using Inl by (auto simp: subject_storage_id_def bind_err_def normalize_subject_def Let_def
          split: sum.splits option.splits if_splits)
    then show ?thesis using a Inl by simp
  next
    case (Inr i)
    then obtain raw where raw: "length raw = 32" "strip s = subject_handle raw" "i = hexlify raw"
      by (auto simp: storage_id_Inr)
    have s: "normalize_subject (PStr s) = Inr (subject_handle raw)"
      using raw by (auto simp: normalize_subject_Inr)
    have "(subject_storage_id t = Inr i) = (normalize_subject (PStr t) = Inr (subject_handle raw))" for t
      using raw subject_handle_inj by (auto simp: storage_id_Inr normalize_subject_Inr hexlify_inj)
    then show ?thesis using a raw(1,3) s unfolding Inr by (simp add: hexlify_fullmatch)
  qed
qed

end
