(* ===== verification/SecretStore.thy ===== *)
theory SecretStore
  imports Loading
begin

text \<open>
  \<^verbatim>\<open>src/recto/secrets/file_backed.py\<close> and the contract of a writable secret source that the
  connections and the user vault are written against (\<^verbatim>\<open>src/recto/connections/manage.py\<close>,
  \<open>WritableSecretSource\<close>). The file system is a dictionary from (service, secret name) to the state of
  the file at that path: the two components hold no separator, so distinct pairs are distinct paths.
  An I/O error of a write or of a delete, the permissions and the temporary file are not modelled.
\<close>

text \<open>\<open>SecretDecodeError\<close> is the \<open>UnicodeDecodeError\<close> that \<open>fetch\<close> does not catch.\<close>

datatype secret_error =
    SecretNotFound
  | InvalidComponent string
  | SecretReadFailed
  | SecretCorrupt
  | SecretNotString
  | SecretDecodeError

type_synonym secret_files = "(string \<times> string, blob) dict"

section \<open>The file-backed source\<close>

definition safe_component :: "string \<Rightarrow> secret_error + string" where
  "safe_component name = (if name = [] \<or> name = ''.'' \<or> name = ''..''
       \<or> CHR ''/'' \<in> set name \<or> CHR 0x5C \<in> set name \<or> CHR 0x00 \<in> set name
     then Inl (InvalidComponent name) else Inr name)"

definition secret_path :: "string \<Rightarrow> string \<Rightarrow> secret_error + string \<times> string" where
  "secret_path service name =
     bind_err (safe_component service) (\<lambda>s. bind_err (safe_component name) (\<lambda>n. Inr (s, n)))"

definition secret_value :: "pyval \<Rightarrow> secret_error + string" where
  "secret_value payload =
     (case dict_get (the_dict payload) ''value'' of
        None \<Rightarrow> Inl SecretCorrupt
      | Some v \<Rightarrow> if is_str v then Inr (the_str v) else Inl SecretNotString)"

definition fetch_secret :: "secret_files \<Rightarrow> string \<Rightarrow> string \<Rightarrow> bool \<Rightarrow> secret_error + string" where
  "fetch_secret fs service name required =
     bind_err (secret_path service name) (\<lambda>p.
       case (case dict_get fs p of None \<Rightarrow> Absent | Some b \<Rightarrow> b) of
         Absent \<Rightarrow> if required then Inl SecretNotFound else Inr []
       | Unreadable \<Rightarrow> Inl SecretReadFailed
       | NotUtf8 \<Rightarrow> Inl SecretDecodeError
       | NotJson \<Rightarrow> Inl SecretCorrupt
       | Stored payload \<Rightarrow> secret_value payload)"

definition write_secret ::
  "int \<Rightarrow> secret_files \<Rightarrow> string \<Rightarrow> string \<Rightarrow> string \<Rightarrow> secret_error + secret_files" where
  "write_secret now fs service name value =
     bind_err (secret_path service name) (\<lambda>p.
       Inr (dict_set p (Stored (PDict [(''value'', PStr value), (''comment'', PStr []),
                                       (''updated_at_unix'', PInt now)])) fs))"

definition delete_secret :: "secret_files \<Rightarrow> string \<Rightarrow> string \<Rightarrow> secret_error + secret_files" where
  "delete_secret fs service name = bind_err (secret_path service name) (\<lambda>p. Inr (dict_pop p fs))"

section \<open>The contract\<close>

text \<open>The operations a client calls, for one backend: the factory's service is their first argument.\<close>

record 'v writable_source =
  fetch_op :: "'v \<Rightarrow> string \<Rightarrow> string \<Rightarrow> bool \<Rightarrow> secret_error + string"
  write_op :: "int \<Rightarrow> 'v \<Rightarrow> string \<Rightarrow> string \<Rightarrow> string \<Rightarrow> secret_error + 'v"
  delete_op :: "'v \<Rightarrow> string \<Rightarrow> string \<Rightarrow> secret_error + 'v"

text \<open>What a client relies on: a write is read back, a deleted secret reads as empty when it is not
  required, neither touches another secret, and a secret reported missing reads as empty.\<close>

locale secret_source =
  fixes src :: "'v writable_source" and named :: "string \<Rightarrow> string \<Rightarrow> bool"
  assumes write_defined: "named s n \<Longrightarrow> \<exists>v'. write_op src now v s n x = Inr v'"
    and delete_defined: "named s n \<Longrightarrow> \<exists>v'. delete_op src v s n = Inr v'"
    and fetch_written: "write_op src now v s n x = Inr v' \<Longrightarrow>
          fetch_op src v' s' n' req = (if s' = s \<and> n' = n then Inr x else fetch_op src v s' n' req)"
    and fetch_deleted: "delete_op src v s n = Inr v' \<Longrightarrow>
          fetch_op src v' s' n' False = (if s' = s \<and> n' = n then Inr [] else fetch_op src v s' n' False)"
    and delete_missing: "delete_op src v s n = Inl SecretNotFound \<Longrightarrow> fetch_op src v s n False = Inr []"
begin

lemma rewritten:
  assumes "write_op src now v s n x = Inr v1" and "write_op src now' v1 s n y = Inr v2"
  shows "fetch_op src v2 s n req = Inr y"
  using fetch_written[OF assms(2)] by simp

lemma written_then_deleted:
  assumes "write_op src now v s n x = Inr v1" and "delete_op src v1 s n = Inr v2"
  shows "fetch_op src v2 s n False = Inr []" and "s' \<noteq> s \<or> n' \<noteq> n \<Longrightarrow>
    fetch_op src v2 s' n' False = fetch_op src v s' n' False"
  using fetch_written[OF assms(1)] fetch_deleted[OF assms(2)] by auto

end

definition file_backed :: "secret_files writable_source" where
  "file_backed = \<lparr>fetch_op = fetch_secret, write_op = write_secret, delete_op = delete_secret\<rparr>"

definition storable_name :: "string \<Rightarrow> string \<Rightarrow> bool" where
  "storable_name service name \<longleftrightarrow> (\<exists>p. secret_path service name = Inr p)"

lemma safe_component_Inr: "safe_component name = Inr n \<Longrightarrow> n = name"
  unfolding safe_component_def by (drule guard_Inr) simp

lemma safe_component_Inl: "safe_component name = Inl e \<Longrightarrow> e = InvalidComponent name"
  unfolding safe_component_def by (drule guard_Inl) simp

lemma secret_path_Inr: "secret_path service name = Inr p \<Longrightarrow> p = (service, name)"
  unfolding secret_path_def bind_err_Inr by (auto dest: safe_component_Inr)

interpretation files: secret_source file_backed storable_name
proof
  fix s n now v x
  assume "storable_name s n"
  then obtain p where "secret_path s n = Inr p" by (auto simp: storable_name_def)
  then show "\<exists>v'. write_op file_backed now v s n x = Inr v'"
    and "\<exists>v'. delete_op file_backed v s n = Inr v'"
    by (simp_all add: file_backed_def write_secret_def delete_secret_def)
next
  fix now v s n x v' s' n' req
  assume w: "write_op file_backed now v s n x = Inr v'"
  then obtain p where p: "secret_path s n = Inr p" and v': "v' = dict_set p (Stored (PDict
      [(''value'', PStr x), (''comment'', PStr []), (''updated_at_unix'', PInt now)])) v"
    by (auto simp: file_backed_def write_secret_def bind_err_Inr)
  show "fetch_op file_backed v' s' n' req = (if s' = s \<and> n' = n then Inr x else fetch_op file_backed v s' n' req)"
  proof (cases "secret_path s' n'")
    case (Inl e)
    then show ?thesis using p by (auto simp: file_backed_def fetch_secret_def)
  next
    case (Inr p')
    then have "p' = p \<longleftrightarrow> s' = s \<and> n' = n" using secret_path_Inr[OF p] secret_path_Inr[OF Inr] by simp
    then show ?thesis using Inr v'
      by (simp add: file_backed_def fetch_secret_def dict_facts secret_value_def)
  qed
next
  fix v s n v' s' n'
  assume d: "delete_op file_backed v s n = Inr v'"
  then obtain p where p: "secret_path s n = Inr p" and v': "v' = dict_pop p v"
    by (auto simp: file_backed_def delete_secret_def bind_err_Inr)
  show "fetch_op file_backed v' s' n' False = (if s' = s \<and> n' = n then Inr [] else fetch_op file_backed v s' n' False)"
  proof (cases "secret_path s' n'")
    case (Inl e)
    then show ?thesis using p by (auto simp: file_backed_def fetch_secret_def)
  next
    case (Inr p')
    then have "p' = p \<longleftrightarrow> s' = s \<and> n' = n" using secret_path_Inr[OF p] secret_path_Inr[OF Inr] by simp
    then show ?thesis using Inr v'
      by (simp add: file_backed_def fetch_secret_def dict_facts)
  qed
next
  fix v s n
  assume "delete_op file_backed v s n = Inl SecretNotFound"
  then have "secret_path s n = Inl SecretNotFound"
    by (cases "secret_path s n") (simp_all add: file_backed_def delete_secret_def)
  moreover have "secret_path s n \<noteq> Inl SecretNotFound"
    using safe_component_Inl unfolding secret_path_def bind_err_def by (auto split: sum.splits)
  ultimately show "fetch_op file_backed v s n False = Inr []" by simp
qed

end
