(* ===== verification/Connections.thy ===== *)
theory Connections
  imports SecretStore
begin

text \<open>
  \<^verbatim>\<open>src/recto/connections/types.py\<close> and \<^verbatim>\<open>src/recto/connections/manage.py\<close>: the metadata of the
  external connections, its sidecar file, and the operations that keep it in step with the secret
  store. The state is the pair of the sidecar's \<open>blob\<close> and the backend's secrets. A row whose
  service or category is no text is outside the model (\<open>ConvOutside\<close>).
\<close>

section \<open>Keys and rows\<close>

definition key_first :: "char \<Rightarrow> bool" where
  "key_first c \<longleftrightarrow> ascii_lower c \<or> ascii_digit c"

definition key_char :: "char \<Rightarrow> bool" where
  "key_char c \<longleftrightarrow> ascii_lower c \<or> ascii_digit c \<or> c = CHR ''_'' \<or> c = CHR ''-''"

definition connection_key_matches :: "string \<Rightarrow> bool" where
  "connection_key_matches s =
     (case s of [] \<Rightarrow> False | c # cs \<Rightarrow> key_first c \<and> match_dollar_class key_char 0 63 cs)"

definition normalize_connection_key :: "pyval \<Rightarrow> conv_error + string" where
  "normalize_connection_key k =
     (if \<not> is_str k then Inl ConvValue
      else let s = py_lower (strip (the_str k))
           in if connection_key_matches s then Inr s else Inl ConvValue)"

definition vault_secret_name :: "string \<Rightarrow> string" where
  "vault_secret_name k = ''conn.'' @ k"

record connection_meta =
  conn_service :: string
  conn_key :: string
  conn_display_name :: pyval
  conn_category :: string
  conn_enabled :: bool
  conn_config :: "(string, pyval) dict"
  conn_health_url :: pyval
  conn_has_secret :: bool
  conn_created_at :: int
  conn_updated_at :: int
  conn_rotated_at :: int

definition connection_to_dict :: "connection_meta \<Rightarrow> (string, pyval) dict" where
  "connection_to_dict m =
     [(''service'', PStr (conn_service m)), (''key'', PStr (conn_key m)),
      (''display_name'', conn_display_name m), (''category'', PStr (conn_category m)),
      (''enabled'', PBool (conn_enabled m)), (''config'', PDict (conn_config m)),
      (''health_url'', conn_health_url m), (''has_secret'', PBool (conn_has_secret m)),
      (''created_at_unix'', PInt (conn_created_at m)), (''updated_at_unix'', PInt (conn_updated_at m)),
      (''rotated_at_unix'', PInt (conn_rotated_at m))]"

definition connection_from_dict :: "pyval \<Rightarrow> conv_error + connection_meta" where
  "connection_from_dict raw =
     (if \<not> is_dict raw then Inl ConvType else let d = the_dict raw in
      bind_err (item d ''service'') (\<lambda>svc.
      bind_err (item d ''key'') (\<lambda>rawkey.
      bind_err (normalize_connection_key rawkey) (\<lambda>k.
      bind_err (dict_of (get d ''config'')) (\<lambda>cfg.
      bind_err (int_of (get_or d ''created_at_unix'' (PInt 0))) (\<lambda>created.
      bind_err (int_of (get_or d ''updated_at_unix'' (PInt 0))) (\<lambda>updated.
      bind_err (int_of (get_or d ''rotated_at_unix'' (PInt 0))) (\<lambda>rotated.
      bind_err (text_of svc) (\<lambda>service.
      bind_err (text_of (get_or d ''category'' (PStr ''uncategorized''))) (\<lambda>category.
      Inr \<lparr>conn_service = service, conn_key = k, conn_display_name = get_or d ''display_name'' rawkey,
           conn_category = category, conn_enabled = truthy (get_or d ''enabled'' (PBool True)),
           conn_config = cfg, conn_health_url = get d ''health_url'',
           conn_has_secret = truthy (get_or d ''has_secret'' (PBool False)),
           conn_created_at = created, conn_updated_at = updated, conn_rotated_at = rotated\<rparr>))))))))))"

section \<open>The store and its sidecar\<close>

type_synonym connection_store = "(string \<times> string, connection_meta) dict"

definition connection_id :: "connection_meta \<Rightarrow> string \<times> string" where
  "connection_id m = (conn_service m, conn_key m)"

definition store_list :: "connection_store \<Rightarrow> string option \<Rightarrow> connection_meta list" where
  "store_list s service = sort_key (\<lambda>m. [conn_service m, conn_category m, conn_key m])
     (filter (\<lambda>m. case service of None \<Rightarrow> True | Some svc \<Rightarrow> conn_service m = svc) (dict_values s))"

definition store_get :: "connection_store \<Rightarrow> string \<Rightarrow> pyval \<Rightarrow> conv_error + connection_meta option" where
  "store_get s service key = bind_err (normalize_connection_key key) (\<lambda>k. Inr (dict_get s (service, k)))"

definition store_upsert :: "connection_meta \<Rightarrow> connection_store \<Rightarrow> connection_store" where
  "store_upsert m s = dict_set (connection_id m) m s"

definition store_remove ::
  "connection_store \<Rightarrow> string \<Rightarrow> pyval \<Rightarrow> conv_error + connection_meta option \<times> connection_store" where
  "store_remove s service key = bind_err (normalize_connection_key key)
     (\<lambda>k. Inr (dict_get s (service, k), dict_pop (service, k) s))"

definition load_connections :: "blob \<Rightarrow> conv_error + connection_store" where
  "load_connections = load_sidecar connection_from_dict connection_id ''connections''"

definition save_connections :: "int \<Rightarrow> connection_store \<Rightarrow> blob" where
  "save_connections now s = Stored (norm_json (PDict
     [(''schema_version'', PInt 1), (''saved_at_unix'', PInt now),
      (''connections'', PList (map (PDict \<circ> connection_to_dict) (store_list s None)))]))"

section \<open>Operations\<close>

datatype conn_error = ConnConv conv_error | ConnSecret secret_error | ServiceEmpty

text \<open>The arguments of \<open>set_connection\<close>; \<open>None\<close> is the default of each.\<close>

record connection_request =
  rq_service :: string
  rq_key :: string
  rq_display_name :: "string option"
  rq_category :: "string option"
  rq_secret :: "string option"
  rq_config :: "(string, pyval) dict option"
  rq_enabled :: "bool option"
  rq_health_url :: "string option"

definition keep_or :: "'a option \<Rightarrow> ('m \<Rightarrow> 'a) \<Rightarrow> 'm option \<Rightarrow> 'a \<Rightarrow> 'a" where
  "keep_or new field old dflt =
     (case new of Some x \<Rightarrow> x | None \<Rightarrow> (case old of Some m \<Rightarrow> field m | None \<Rightarrow> dflt))"

definition new_secret :: "string option \<Rightarrow> string option" where
  "new_secret s = (if s = None \<or> s = Some [] then None else s)"

definition merge_connection ::
  "int \<Rightarrow> connection_request \<Rightarrow> string \<Rightarrow> connection_meta option \<Rightarrow> connection_meta" where
  "merge_connection now r k old =
     (let wrote = new_secret (rq_secret r) \<noteq> None in
      \<lparr>conn_service = rq_service r, conn_key = k,
       conn_display_name = keep_or (map_option PStr (rq_display_name r)) conn_display_name old (PStr k),
       conn_category = keep_or (rq_category r) conn_category old ''uncategorized'',
       conn_enabled = keep_or (rq_enabled r) conn_enabled old True,
       conn_config = keep_or (rq_config r) conn_config old [],
       conn_health_url = keep_or (map_option PStr (rq_health_url r)) conn_health_url old PNone,
       conn_has_secret = (keep_or None conn_has_secret old False \<or> wrote),
       conn_created_at = keep_or None conn_created_at old now,
       conn_updated_at = now,
       conn_rotated_at = (if wrote then now else keep_or None conn_rotated_at old 0)\<rparr>)"

definition set_connection ::
  "'v writable_source \<Rightarrow> int \<Rightarrow> connection_request \<Rightarrow> blob \<times> 'v \<Rightarrow> conn_error + connection_meta \<times> blob \<times> 'v" where
  "set_connection src now r st =
     (if rq_service r = [] then Inl ServiceEmpty else
      bind_err (map_sum ConnConv id (normalize_connection_key (PStr (rq_key r)))) (\<lambda>k.
      bind_err (map_sum ConnConv id (load_connections (fst st))) (\<lambda>s.
      bind_err (map_sum ConnConv id (store_get s (rq_service r) (PStr k))) (\<lambda>old.
      bind_err (case new_secret (rq_secret r) of None \<Rightarrow> Inr (snd st)
                | Some x \<Rightarrow> map_sum ConnSecret id (write_op src now (snd st) (rq_service r) (vault_secret_name k) x)) (\<lambda>v.
      let m = merge_connection now r k old
      in Inr (m, save_connections now (store_upsert m s), v))))))"

definition set_enabled ::
  "'v writable_source \<Rightarrow> int \<Rightarrow> string \<Rightarrow> string \<Rightarrow> bool \<Rightarrow> blob \<times> 'v \<Rightarrow> conn_error + connection_meta \<times> blob \<times> 'v" where
  "set_enabled src now service key enabled =
     set_connection src now \<lparr>rq_service = service, rq_key = key, rq_display_name = None, rq_category = None,
       rq_secret = None, rq_config = None, rq_enabled = Some enabled, rq_health_url = None\<rparr>"

definition delete_connection ::
  "'v writable_source \<Rightarrow> int \<Rightarrow> string \<Rightarrow> string \<Rightarrow> blob \<times> 'v \<Rightarrow> conn_error + connection_meta option \<times> blob \<times> 'v" where
  "delete_connection src now service key st =
     bind_err (map_sum ConnConv id (normalize_connection_key (PStr key))) (\<lambda>k.
     bind_err (map_sum ConnConv id (load_connections (fst st))) (\<lambda>s.
     bind_err (map_sum ConnConv id (store_remove s service (PStr k))) (\<lambda>(removed, s').
     if removed = None then Inr (None, st)
     else case delete_op src (snd st) service (vault_secret_name k) of
       Inr v \<Rightarrow> Inr (removed, save_connections now s', v)
     | Inl e \<Rightarrow> if e = SecretNotFound then Inr (removed, save_connections now s', snd st) else Inl (ConnSecret e))))"

definition get_connection_secret ::
  "'v writable_source \<Rightarrow> 'v \<Rightarrow> string \<Rightarrow> string \<Rightarrow> conn_error + string option" where
  "get_connection_secret src v service key =
     bind_err (map_sum ConnConv id (normalize_connection_key (PStr key))) (\<lambda>k.
     bind_err (map_sum ConnSecret id (fetch_op src v service (vault_secret_name k) False)) (\<lambda>x.
     Inr (if x = [] then None else Some x)))"

definition list_connections :: "blob \<Rightarrow> string option \<Rightarrow> conv_error + connection_meta list" where
  "list_connections b service = bind_err (load_connections b) (\<lambda>s. Inr (store_list s service))"

definition get_connection_meta :: "blob \<Rightarrow> string \<Rightarrow> string \<Rightarrow> conv_error + connection_meta option" where
  "get_connection_meta b service key = bind_err (load_connections b) (\<lambda>s. store_get s service (PStr key))"

section \<open>Keys\<close>

lemma key_char_plain: "key_char c \<Longrightarrow> \<not> py_space c \<and> char_lower c = c"
  by (auto simp: key_char_def ascii_lower_def ascii_digit_def py_space_def char_lower_def ascii_upper_def)

lemma key_first_char: "key_first c \<Longrightarrow> key_char c"
  by (auto simp: key_first_def key_char_def)

definition connection_key :: "string \<Rightarrow> bool" where
  "connection_key s \<longleftrightarrow> s \<noteq> [] \<and> key_first (hd s) \<and> length s \<le> 64 \<and> list_all key_char s"

lemma normalize_shape:
  assumes "normalize_connection_key k = Inr s"
  shows "connection_key s"
proof -
  have s: "s = py_lower (strip (the_str k))" and m: "connection_key_matches s"
    using assms by (auto simp: normalize_connection_key_def Let_def split: if_splits)
  then obtain c cs where c: "s = c # cs" "key_first c" "match_dollar_class key_char 0 63 cs"
    by (auto simp: connection_key_matches_def split: list.splits)
  have cs: "cs = drop 1 (py_lower (strip (the_str k)))" using s c(1) by (metis drop_Suc_Cons drop0 One_nat_def)
  have "fullmatch_class key_char 0 63 cs"
    using match_dollar_lower_strip[of key_char 0 63 1 "the_str k"] c(3) unfolding cs .
  then show ?thesis using c(1,2) key_first_char by (simp add: connection_key_def fullmatch_class_def)
qed

lemma normalize_connection_key_iff:
  "normalize_connection_key (PStr s) = Inr s \<longleftrightarrow> connection_key s"
proof
  assume "connection_key s"
  then have a: "list_all key_char s" and m: "connection_key_matches s"
    by (auto simp: connection_key_def connection_key_matches_def match_dollar_class_def fullmatch_class_def
        split: list.splits)
  have "strip s = s" using a by (intro strip_id) (auto simp: list_all_iff key_char_plain)
  moreover have "py_lower s = s" using a by (auto simp: py_lower_def list_all_iff key_char_plain intro: map_idI)
  ultimately show "normalize_connection_key (PStr s) = Inr s"
    using m by (simp add: normalize_connection_key_def)
qed (rule normalize_shape)

lemma normalize_idem [simp]:
  "normalize_connection_key k = Inr s \<Longrightarrow> normalize_connection_key (PStr s) = Inr s"
  by (simp add: normalize_connection_key_iff normalize_shape)

section \<open>The sidecar round trip\<close>

interpretation conns: keyed_store "[]" dict_get store_upsert dict_pop connection_id
  using dict_keyed_store[of connection_id] by (simp add: store_upsert_def[abs_def])

definition norm_meta :: "connection_meta \<Rightarrow> connection_meta" where
  "norm_meta m = m\<lparr>conn_config := the_dict (norm_json (PDict (conn_config m))),
     conn_display_name := norm_json (conn_display_name m), conn_health_url := norm_json (conn_health_url m)\<rparr>"

definition store_ok :: "connection_store \<Rightarrow> bool" where
  "store_ok s \<longleftrightarrow> dict_wf s \<and> (\<forall>(i, m) \<in> set s. i = connection_id m \<and> connection_key (conn_key m))"

lemma connection_id_norm [simp]: "connection_id (norm_meta m) = connection_id m"
  by (simp add: connection_id_def norm_meta_def)

lemma norm_meta_key [simp]: "conn_key (norm_meta m) = conn_key m"
  by (simp add: norm_meta_def)

lemma norm_meta_idem [simp]: "norm_meta (norm_meta m) = norm_meta m"
proof -
  have "norm_json (norm_json (PDict d)) = norm_json (PDict d)" for d by (rule norm_json_idem(1))
  then show ?thesis by (simp add: norm_meta_def norm_json_idem(1))
qed

lemma dict_of_norm: "dict_of (norm_json (PDict d)) = Inr (the_dict (norm_json (PDict d)))"
  by (simp add: dict_of_def)

lemma connection_row_back:
  assumes "connection_key (conn_key m)"
  shows "connection_from_dict (norm_json (PDict (connection_to_dict m))) = Inr (norm_meta m)"
proof -
  let ?d = "connection_to_dict m"
  have d: "distinct (map fst ?d)" by (simp add: connection_to_dict_def)
  have look: "dict_get (sort_key fst (norm_items ?d)) k = map_option norm_json (dict_get ?d k)" for k
    by (rule dict_get_norm[OF d])
  have key: "normalize_connection_key (PStr (conn_key m)) = Inr (conn_key m)"
    using assms by (simp add: normalize_connection_key_iff)
  show ?thesis
    unfolding connection_from_dict_def
    by (simp add: Let_def item_def get_def get_or_def look,
        simp add: connection_to_dict_def key dict_of_norm[simplified] text_of_def norm_meta_def)
qed

lemma connection_row_ok:
  "connection_from_dict r = Inr m \<Longrightarrow> connection_key (conn_key m)"
  by (auto simp: connection_from_dict_def bind_err_Inr Let_def dest: normalize_shape split: if_splits)

lemma load_connections_ok:
  assumes "load_connections b = Inr s"
  shows "store_ok s"
proof -
  consider "s = []" | rows where "load_rows connection_from_dict connection_id rows [] = Inr s"
    using load_sidecar_Inr[OF assms[unfolded load_connections_def]] by blast
  then show ?thesis
  proof cases
    case 2
    have "i = connection_id m \<and> connection_key (conn_key m)" if "(i, m) \<in> set s" for i m
      by (rule load_rows_invariant[OF 2 _ _ that]) (auto dest: connection_row_ok)
    then show ?thesis using load_rows_wf[OF 2] by (auto simp: store_ok_def)
  qed (simp add: store_ok_def)
qed

lemma store_ok_upsert: "store_ok s \<Longrightarrow> connection_key (conn_key m) \<Longrightarrow> store_ok (store_upsert m s)"
  using dict_set_members[of "connection_id m" m s] by (force simp: store_ok_def store_upsert_def)

lemma store_ok_pop: "store_ok s \<Longrightarrow> store_ok (dict_pop i s)"
  by (auto simp: store_ok_def dict_pop_members)

lemma store_list_ids:
  assumes "store_ok s"
  shows "distinct (map connection_id (store_list s None))"
    and "set (store_list s None) = set (dict_values s)"
proof -
  have "map connection_id (dict_values s) = dict_keys s"
    using assms by (auto simp: store_ok_def)
  then have "distinct (map connection_id (dict_values s))"
    using assms by (simp only: store_ok_def dict_wf_def)
  then show "distinct (map connection_id (store_list s None))"
    unfolding store_list_def by (intro distinct_map_sort) simp
  show "set (store_list s None) = set (dict_values s)" by (simp add: store_list_def)
qed

lemma load_save:
  assumes "store_ok s"
  obtains s' where "load_connections (save_connections now s) = Inr s'"
    and "\<And>i. dict_get s' i = map_option norm_meta (dict_get s i)"
proof -
  let ?f = "\<lambda>m. norm_json (PDict (connection_to_dict m))"
  have row: "connection_from_dict (?f m) = Inr (norm_meta m) \<and> connection_id (norm_meta m) = connection_id m"
    if "m \<in> set (store_list s None)" for m
    using that assms store_list_ids(2)[OF assms] connection_row_back by (auto simp: store_ok_def)
  have ok: "dict_wf s" "\<forall>(i, m) \<in> set s. i = connection_id m" using assms by (auto simp: store_ok_def)
  have "load_connections (save_connections now s) =
      load_rows connection_from_dict connection_id (map norm_json (map (PDict \<circ> connection_to_dict) (store_list s None))) []"
    unfolding load_connections_def save_connections_def
    by (rule load_written) simp_all
  also have "map norm_json (map (PDict \<circ> connection_to_dict) (store_list s None)) = map ?f (store_list s None)"
    by (simp only: map_map comp_def)
  finally have "load_connections (save_connections now s) =
      load_rows connection_from_dict connection_id (map ?f (store_list s None)) []" .
  moreover obtain s' where "load_rows connection_from_dict connection_id (map ?f (store_list s None)) [] = Inr s'"
    and "\<And>i. dict_get s' i = map_option norm_meta (dict_get s i)"
    by (rule load_rows_keyed[of "store_list s None" connection_from_dict ?f norm_meta connection_id s])
      (use row store_list_ids[OF assms] ok in auto)
  ultimately show thesis using that by simp
qed

section \<open>The operations against the contract\<close>

lemma map_sum_Inr: "map_sum f id x = Inr y \<longleftrightarrow> x = Inr y"
  by (cases x) auto

lemma set_connection_Inr:
  "set_connection src now r (b, v) = Inr (m, b', v') \<longleftrightarrow>
     rq_service r \<noteq> [] \<and> (\<exists>k s. normalize_connection_key (PStr (rq_key r)) = Inr k \<and> load_connections b = Inr s
       \<and> m = merge_connection now r k (dict_get s (rq_service r, k)) \<and> b' = save_connections now (store_upsert m s)
       \<and> (case new_secret (rq_secret r) of None \<Rightarrow> v' = v
          | Some x \<Rightarrow> write_op src now v (rq_service r) (vault_secret_name k) x = Inr v'))"
proof -
  have get: "store_get s svc (PStr k) = Inr (dict_get s (svc, k))"
    if "normalize_connection_key (PStr (rq_key r)) = Inr k" for s svc k
    using normalize_idem[OF that] by (simp add: store_get_def)
  show ?thesis
  proof (cases "normalize_connection_key (PStr (rq_key r))")
    case (Inr k)
    show ?thesis
    proof (cases "load_connections b")
      case l: (Inr s)
      show ?thesis
        by (cases "new_secret (rq_secret r)")
          (auto simp: set_connection_def Inr l get[OF Inr] bind_err_Inr map_sum_Inr Let_def)
    qed (simp add: set_connection_def Inr)
  qed (simp add: set_connection_def)
qed

lemma delete_connection_Inr:
  "delete_connection src now service key (b, v) = Inr (rm, b', v') \<longleftrightarrow>
     (\<exists>k s. normalize_connection_key (PStr key) = Inr k \<and> load_connections b = Inr s \<and> rm = dict_get s (service, k)
       \<and> (if rm = None then b' = b \<and> v' = v
          else b' = save_connections now (dict_pop (service, k) s)
            \<and> (delete_op src v service (vault_secret_name k) = Inr v'
               \<or> delete_op src v service (vault_secret_name k) = Inl SecretNotFound \<and> v' = v)))"
proof -
  have rem: "store_remove s service (PStr k) = Inr (dict_get s (service, k), dict_pop (service, k) s)"
    if "normalize_connection_key (PStr key) = Inr k" for s k
    using normalize_idem[OF that] by (simp add: store_remove_def)
  show ?thesis
  proof (cases "normalize_connection_key (PStr key)")
    case (Inr k)
    show ?thesis
    proof (cases "load_connections b")
      case l: (Inr s)
      show ?thesis
        by (cases "delete_op src v service (vault_secret_name k)")
          (auto simp: delete_connection_def Inr l rem[OF Inr])
    qed (simp add: delete_connection_def Inr)
  qed (simp add: delete_connection_def)
qed

lemma get_secret_Inr:
  "get_connection_secret src v service key = Inr y \<longleftrightarrow>
     (\<exists>k x. normalize_connection_key (PStr key) = Inr k
        \<and> fetch_op src v service (vault_secret_name k) False = Inr x \<and> y = new_secret (Some x))"
  by (auto simp: get_connection_secret_def bind_err_Inr map_sum_Inr new_secret_def)

lemma vault_secret_name_inj [simp]: "vault_secret_name k = vault_secret_name k' \<longleftrightarrow> k = k'"
  by (simp add: vault_secret_name_def)

lemma merge_connection_id [simp]:
  "connection_id (merge_connection now r k old) = (rq_service r, k)"
  "conn_key (merge_connection now r k old) = k" "conn_service (merge_connection now r k old) = rq_service r"
  by (simp_all add: merge_connection_def Let_def connection_id_def)

lemma set_connection_store:
  assumes "set_connection src now r (b, v) = Inr (m, b', v')"
  obtains s s' where "load_connections b = Inr s" "load_connections b' = Inr s'"
    and "\<And>i. dict_get s' i = (if i = (rq_service r, conn_key m) then Some (norm_meta m)
                            else map_option norm_meta (dict_get s i))"
proof -
  obtain k s where k: "normalize_connection_key (PStr (rq_key r)) = Inr k" and s: "load_connections b = Inr s"
    and m: "m = merge_connection now r k (dict_get s (rq_service r, k))"
    and b': "b' = save_connections now (store_upsert m s)"
    using assms unfolding set_connection_Inr by blast
  have "store_ok (store_upsert m s)"
    using load_connections_ok[OF s] normalize_shape[OF k] by (simp add: m store_ok_upsert)
  then obtain s' where s': "load_connections b' = Inr s'"
    and look: "\<And>i. dict_get s' i = map_option norm_meta (dict_get (store_upsert m s) i)"
    using load_save unfolding b' by metis
  show thesis by (rule that[OF s s']) (simp add: look conns.lookup_upsert m)
qed

lemma delete_connection_store:
  assumes "delete_connection src now service key (b, v) = Inr (rm, b', v')"
  obtains k s s' where "normalize_connection_key (PStr key) = Inr k"
    and "load_connections b = Inr s" "load_connections b' = Inr s'" "rm = dict_get s (service, k)"
    and "\<And>i. dict_get s' i = (if i = (service, k) then None
               else if rm = None then dict_get s i else map_option norm_meta (dict_get s i))"
proof -
  obtain k s where k: "normalize_connection_key (PStr key) = Inr k" and s: "load_connections b = Inr s"
    and rm: "rm = dict_get s (service, k)"
    and b': "b' = (if rm = None then b else save_connections now (dict_pop (service, k) s))"
    using assms unfolding delete_connection_Inr by metis
  show thesis
  proof (cases "rm = None")
    case True
    then show thesis using that[OF k s _ rm, of s] s rm b' by auto
  next
    case False
    obtain s' where s': "load_connections b' = Inr s'"
      and look: "\<And>i. dict_get s' i = map_option norm_meta (dict_get (dict_pop (service, k) s) i)"
      using load_save[OF store_ok_pop[OF load_connections_ok[OF s]]] False b' by metis
    show thesis by (rule that[OF k s s' rm]) (use False in \<open>auto simp: look dict_facts\<close>)
  qed
qed

text \<open>Every row that says it has a secret has one, and every secret is a row that says so.\<close>

definition flags_match :: "'v writable_source \<Rightarrow> blob \<times> 'v \<Rightarrow> bool" where
  "flags_match src st \<longleftrightarrow> (\<exists>s. load_connections (fst st) = Inr s \<and>
     (\<forall>service k. connection_key k \<longrightarrow>
        (\<exists>x. x \<noteq> [] \<and> fetch_op src (snd st) service (vault_secret_name k) False = Inr x) =
        (\<exists>m. dict_get s (service, k) = Some m \<and> conn_has_secret m)))"

inductive conn_step :: "'v writable_source \<Rightarrow> blob \<times> 'v \<Rightarrow> blob \<times> 'v \<Rightarrow> bool" for src where
  conn_set: "set_connection src now r st = Inr (m, st') \<Longrightarrow> conn_step src st st'"
| conn_enable: "set_enabled src now service key on st = Inr (m, st') \<Longrightarrow> conn_step src st st'"
| conn_delete: "delete_connection src now service key st = Inr (rm, st') \<Longrightarrow> conn_step src st st'"

inductive conn_reachable :: "'v writable_source \<Rightarrow> 'v \<Rightarrow> blob \<times> 'v \<Rightarrow> bool" for src v0 where
  conn_start: "conn_reachable src v0 (Absent, v0)"
| conn_next: "conn_reachable src v0 st \<Longrightarrow> conn_step src st st' \<Longrightarrow> conn_reachable src v0 st'"

context secret_source
begin

lemma set_connection_secret:
  assumes "set_connection src now r (b, v) = Inr (m, b', v')"
  shows "get_connection_secret src v' service key =
    (if service = rq_service r \<and> normalize_connection_key (PStr key) = Inr (conn_key m)
        \<and> new_secret (rq_secret r) \<noteq> None
     then Inr (new_secret (rq_secret r)) else get_connection_secret src v service key)"
proof (cases "new_secret (rq_secret r)")
  case None
  then show ?thesis using assms unfolding set_connection_Inr by auto
next
  case (Some x)
  then have x: "rq_secret r = Some x" "x \<noteq> []" by (auto simp: new_secret_def split: if_splits)
  obtain k where "normalize_connection_key (PStr (rq_key r)) = Inr k" and "conn_key m = k"
    and w: "write_op src now v (rq_service r) (vault_secret_name k) x = Inr v'"
    using assms Some unfolding set_connection_Inr by auto
  then show ?thesis using x Some
    by (cases "normalize_connection_key (PStr key)")
      (auto simp: get_connection_secret_def fetch_written[OF w])
qed

lemma set_connection_flags:
  assumes "set_connection src now r (b, v) = Inr (m, b', v')" and "flags_match src (b, v)"
  shows "flags_match src (b', v')"
proof -
  obtain s s' where s: "load_connections b = Inr s" and s': "load_connections b' = Inr s'"
    and look: "\<And>i. dict_get s' i = (if i = (rq_service r, conn_key m) then Some (norm_meta m)
                                else map_option norm_meta (dict_get s i))"
    by (rule set_connection_store[OF assms(1)]) blast
  obtain k where m: "m = merge_connection now r k (dict_get s (rq_service r, k))"
    and w: "case new_secret (rq_secret r) of None \<Rightarrow> v' = v
            | Some x \<Rightarrow> write_op src now v (rq_service r) (vault_secret_name k) x = Inr v'"
    using assms(1) s unfolding set_connection_Inr by auto
  have old: "(\<exists>x. x \<noteq> [] \<and> fetch_op src v service (vault_secret_name j) False = Inr x) =
      (\<exists>m. dict_get s (service, j) = Some m \<and> conn_has_secret m)" if "connection_key j" for service j
    using assms(2) s that by (simp add: flags_match_def)
  have flag: "conn_has_secret m = (new_secret (rq_secret r) \<noteq> None
      \<or> (\<exists>o'. dict_get s (rq_service r, k) = Some o' \<and> conn_has_secret o'))"
    unfolding m by (cases "dict_get s (rq_service r, k)") (auto simp: merge_connection_def keep_or_def Let_def)
  have norm_flag: "conn_has_secret (norm_meta x) = conn_has_secret x" for x by (simp add: norm_meta_def)
  have ck: "conn_key m = k" by (simp add: m)
  have "(\<exists>x. x \<noteq> [] \<and> fetch_op src v' service (vault_secret_name j) False = Inr x) =
      (\<exists>m. dict_get s' (service, j) = Some m \<and> conn_has_secret m)" if j: "connection_key j" for service j
  proof (cases "new_secret (rq_secret r)")
    case None
    then show ?thesis using w old[OF j, of service] flag by (auto simp: look ck norm_flag)
  next
    case (Some x)
    then have "x \<noteq> []" by (auto simp: new_secret_def split: if_splits)
    moreover have "write_op src now v (rq_service r) (vault_secret_name k) x = Inr v'" using w Some by simp
    ultimately show ?thesis using Some old[OF j, of service] flag
      by (auto simp: look ck norm_flag fetch_written)
  qed
  then show ?thesis using s' by (auto simp: flags_match_def)
qed

lemma delete_connection_fetch:
  assumes "delete_connection src now service key (b, v) = Inr (Some m, b', v')"
    and "normalize_connection_key (PStr key) = Inr k"
  shows "fetch_op src v' s n False = (if s = service \<and> n = vault_secret_name k then Inr []
           else fetch_op src v s n False)"
proof -
  consider "delete_op src v service (vault_secret_name k) = Inr v'"
    | "delete_op src v service (vault_secret_name k) = Inl SecretNotFound" "v' = v"
    using assms unfolding delete_connection_Inr by (auto split: if_splits)
  then show ?thesis by cases (use fetch_deleted delete_missing in auto)
qed

lemma delete_connection_flags:
  assumes "delete_connection src now service key (b, v) = Inr (rm, b', v')" and "flags_match src (b, v)"
  shows "flags_match src (b', v')"
proof (cases rm)
  case None
  then show ?thesis using assms unfolding delete_connection_Inr by (auto split: if_splits)
next
  case (Some m)
  obtain k s s' where k: "normalize_connection_key (PStr key) = Inr k" and s: "load_connections b = Inr s"
    and s': "load_connections b' = Inr s'"
    and look: "\<And>i. dict_get s' i = (if i = (service, k) then None
               else if rm = None then dict_get s i else map_option norm_meta (dict_get s i))"
    by (rule delete_connection_store[OF assms(1)]) blast
  note fetch = delete_connection_fetch[OF assms(1)[unfolded Some] k]
  have norm_flag: "conn_has_secret (norm_meta x) = conn_has_secret x" for x by (simp add: norm_meta_def)
  have "(\<exists>x. x \<noteq> [] \<and> fetch_op src v' svc (vault_secret_name j) False = Inr x) =
      (\<exists>m. dict_get s' (svc, j) = Some m \<and> conn_has_secret m)" if j: "connection_key j" for svc j
    using assms(2) s j Some by (auto simp: flags_match_def look fetch norm_flag)
  then show ?thesis using s' by (auto simp: flags_match_def)
qed

lemma reachable_flags:
  assumes "conn_reachable src v0 st" and "\<And>s n. \<exists>x. fetch_op src v0 s n False = Inr x \<Longrightarrow> fetch_op src v0 s n False = Inr []"
  shows "flags_match src st"
  using assms(1)
proof induction
  case conn_start
  have "load_connections Absent = Inr []" by (simp add: load_connections_def load_sidecar_def)
  then show ?case using assms(2) by (fastforce simp: flags_match_def)
next
  case (conn_next st st')
  obtain b v b' v' where st: "st = (b, v)" "st' = (b', v')" by (cases st; cases st')
  from conn_next.hyps(2) show ?case
    using conn_next.IH set_connection_flags delete_connection_flags
    unfolding st by cases (auto simp: set_enabled_def)
qed

end

section \<open>Properties\<close>

text \<open>C17: setting a connection. In the sidecar's rows exactly the row of this service and normalised
  key is new, and every other is as it was (values in the order JSON gives them); the secret read
  for it is the one given, or, when none or an empty one was given, the one it had; every other
  secret of every service is as it was. The creation time is kept, the rotation time moves only
  with a new secret, and a row once marked as holding a secret stays so.\<close>

theorem set_connection_refines:
  assumes "set_connection file_backed now r (b, v) = Inr (m, b', v')"
  shows "\<exists>s s'. load_connections b = Inr s \<and> load_connections b' = Inr s'
    \<and> (\<forall>i. dict_get s' i = (if i = (rq_service r, conn_key m) then Some (norm_meta m)
                             else map_option norm_meta (dict_get s i)))
    \<and> (\<forall>service key. get_connection_secret file_backed v' service key =
         (if service = rq_service r \<and> normalize_connection_key (PStr key) = Inr (conn_key m)
             \<and> new_secret (rq_secret r) \<noteq> None
          then Inr (new_secret (rq_secret r)) else get_connection_secret file_backed v service key))
    \<and> (case dict_get s (rq_service r, conn_key m) of
         None \<Rightarrow> conn_created_at m = now \<and> conn_has_secret m = (new_secret (rq_secret r) \<noteq> None)
       | Some old \<Rightarrow> conn_created_at m = conn_created_at old
           \<and> conn_has_secret m = (conn_has_secret old \<or> new_secret (rq_secret r) \<noteq> None)
           \<and> conn_rotated_at m = (if new_secret (rq_secret r) = None then conn_rotated_at old else now))
    \<and> conn_updated_at m = now"
proof -
  obtain s s' where s: "load_connections b = Inr s" "load_connections b' = Inr s'"
    and look: "\<forall>i. dict_get s' i = (if i = (rq_service r, conn_key m) then Some (norm_meta m)
                             else map_option norm_meta (dict_get s i))"
    by (rule set_connection_store[OF assms]) blast
  obtain k where m: "m = merge_connection now r k (dict_get s (rq_service r, k))"
    using assms s(1) unfolding set_connection_Inr by auto
  have fields: "conn_updated_at m = now"
    "case dict_get s (rq_service r, conn_key m) of
       None \<Rightarrow> conn_created_at m = now \<and> conn_has_secret m = (new_secret (rq_secret r) \<noteq> None)
     | Some old \<Rightarrow> conn_created_at m = conn_created_at old
         \<and> conn_has_secret m = (conn_has_secret old \<or> new_secret (rq_secret r) \<noteq> None)
         \<and> conn_rotated_at m = (if new_secret (rq_secret r) = None then conn_rotated_at old else now)"
    unfolding m by (cases "dict_get s (rq_service r, k)"; simp add: merge_connection_def keep_or_def Let_def)+
  show ?thesis using s look fields files.set_connection_secret[OF assms] by blast
qed

text \<open>In every state the operations reach from an empty sidecar and an empty store, a row is marked
  as holding a secret exactly when reading the secret of its service and key gives one: no secret
  is left without a row, and no row promises a secret that is not there.\<close>

theorem reachable_flags_match:
  assumes "conn_reachable file_backed [] (b, v)"
  shows "\<exists>s. load_connections b = Inr s \<and> (\<forall>service k. connection_key k \<longrightarrow>
    ((\<exists>x. get_connection_secret file_backed v service k = Inr (Some x)) \<longleftrightarrow>
     (\<exists>m. dict_get s (service, k) = Some m \<and> conn_has_secret m)))"
proof -
  have "fetch_op file_backed [] s n False = Inr []" if "\<exists>x. fetch_op file_backed [] s n False = Inr x" for s n
    using that by (auto simp: file_backed_def fetch_secret_def bind_err_Inr)
  then have "flags_match file_backed (b, v)" by (rule files.reachable_flags[OF assms])
  moreover have "(\<exists>x. get_connection_secret file_backed v service k = Inr (Some x)) \<longleftrightarrow>
      (\<exists>x. x \<noteq> [] \<and> fetch_op file_backed v service (vault_secret_name k) False = Inr x)"
    if "connection_key k" for service k
    using that by (auto simp: get_secret_Inr normalize_connection_key_iff new_secret_def
        dest!: iffD2[OF normalize_connection_key_iff])
  ultimately show ?thesis by (auto simp: flags_match_def)
qed

text \<open>Deleting a connection removes its row and its secret and nothing else. A key with no row
  changes nothing; otherwise the row is gone from the sidecar, its secret reads as absent, every
  other row is as it was and so is every other secret; and deleting it again changes nothing.\<close>

theorem delete_connection_removes:
  assumes "delete_connection file_backed now service key (b, v) = Inr (rm, b', v')"
  shows "\<exists>k s s'. normalize_connection_key (PStr key) = Inr k \<and> load_connections b = Inr s
    \<and> load_connections b' = Inr s' \<and> rm = dict_get s (service, k)
    \<and> (if rm = None then b' = b \<and> v' = v
       else (\<forall>i. dict_get s' i = (if i = (service, k) then None else map_option norm_meta (dict_get s i)))
         \<and> (\<forall>svc n. fetch_op file_backed v' svc n False =
              (if svc = service \<and> n = vault_secret_name k then Inr [] else fetch_op file_backed v svc n False)))
    \<and> delete_connection file_backed now' service key (b', v') = Inr (None, b', v')"
proof -
  obtain k s s' where k: "normalize_connection_key (PStr key) = Inr k"
    and s: "load_connections b = Inr s" "load_connections b' = Inr s'" "rm = dict_get s (service, k)"
    and look: "\<And>i. dict_get s' i = (if i = (service, k) then None
               else if rm = None then dict_get s i else map_option norm_meta (dict_get s i))"
    by (rule delete_connection_store[OF assms]) blast
  have same: "rm = None \<Longrightarrow> b' = b \<and> v' = v"
    using assms unfolding delete_connection_Inr by auto
  have fetch: "rm \<noteq> None \<Longrightarrow> fetch_op file_backed v' svc n False =
      (if svc = service \<and> n = vault_secret_name k then Inr [] else fetch_op file_backed v svc n False)" for svc n
    using files.delete_connection_fetch[of now service key b v _ b' v' k] assms k by auto
  have again: "delete_connection file_backed now' service key (b', v') = Inr (None, b', v')"
    unfolding delete_connection_Inr using k s(2) look[of "(service, k)"] by auto
  have body: "if rm = None then b' = b \<and> v' = v
     else (\<forall>i. dict_get s' i = (if i = (service, k) then None else map_option norm_meta (dict_get s i)))
       \<and> (\<forall>svc n. fetch_op file_backed v' svc n False =
            (if svc = service \<and> n = vault_secret_name k then Inr [] else fetch_op file_backed v svc n False))"
    using same fetch look by (cases rm) simp_all
  show ?thesis using k s body again by blast
qed

section \<open>Examples\<close>

definition sample_request :: connection_request where
  "sample_request = \<lparr>rq_service = ''App'', rq_key = '' Podcasts '', rq_display_name = None, rq_category = None,
     rq_secret = Some ''s3cret'', rq_config = None, rq_enabled = None, rq_health_url = None\<rparr>"

definition sample_meta :: connection_meta where
  "sample_meta = \<lparr>conn_service = ''App'', conn_key = ''podcasts'', conn_display_name = PStr ''podcasts'',
     conn_category = ''uncategorized'', conn_enabled = True, conn_config = [], conn_health_url = PNone,
     conn_has_secret = True, conn_created_at = 5, conn_updated_at = 5, conn_rotated_at = 5\<rparr>"

definition sample_files :: secret_files where
  "sample_files = [((''App'', ''conn.podcasts''), Stored (PDict [(''value'', PStr ''s3cret''),
     (''comment'', PStr []), (''updated_at_unix'', PInt 5)]))]"

lemma sample_set:
  "set_connection file_backed 5 sample_request (Absent, []) =
     Inr (sample_meta, save_connections 5 [((''App'', ''podcasts''), sample_meta)], sample_files)"
  by code_simp

theorem set_connection_refines_witness:
  "get_connection_secret file_backed sample_files ''App'' ''PODCASTS'' = Inr (Some ''s3cret'')"
proof -
  have "normalize_connection_key (PStr ''PODCASTS'') = Inr ''podcasts''" by code_simp
  moreover have "conn_key sample_meta = ''podcasts''" "rq_service sample_request = ''App''"
    "new_secret (rq_secret sample_request) = Some ''s3cret''"
    by (simp_all add: sample_meta_def sample_request_def new_secret_def)
  ultimately show ?thesis using set_connection_refines[OF sample_set] by auto
qed

lemma sample_reachable:
  "conn_reachable file_backed [] (save_connections 5 [((''App'', ''podcasts''), sample_meta)], sample_files)"
  by (rule conn_next[OF conn_start conn_set[OF sample_set]])

theorem reachable_flags_match_witness:
  "\<exists>s. load_connections (save_connections 5 [((''App'', ''podcasts''), sample_meta)]) = Inr s
    \<and> (\<exists>m. dict_get s (''App'', ''podcasts'') = Some m \<and> conn_has_secret m)"
proof -
  have "connection_key ''podcasts''" by code_simp
  moreover have "get_connection_secret file_backed sample_files ''App'' ''podcasts'' = Inr (Some ''s3cret'')"
    by code_simp
  ultimately show ?thesis using reachable_flags_match[OF sample_reachable] by blast
qed

lemma sample_delete:
  "delete_connection file_backed 6 ''App'' ''podcasts''
     (save_connections 5 [((''App'', ''podcasts''), sample_meta)], sample_files) =
   Inr (Some sample_meta, save_connections 6 [], [])"
  by code_simp

theorem delete_connection_removes_witness:
  "delete_connection file_backed 6 ''App'' ''podcasts''
     (save_connections 5 [((''App'', ''podcasts''), sample_meta)], sample_files) =
       Inr (Some sample_meta, save_connections 6 [], [])
   \<and> delete_connection file_backed 7 ''App'' ''podcasts'' (save_connections 6 [], []) =
       Inr (None, save_connections 6 [], [])"
  using sample_delete delete_connection_removes[OF sample_delete, of 7] by blast

definition slash_request :: connection_request where
  "slash_request = sample_request\<lparr>rq_service := ''a/b'', rq_secret := None\<rparr>"

definition slash_meta :: connection_meta where
  "slash_meta = sample_meta\<lparr>conn_service := ''a/b'', conn_has_secret := False, conn_rotated_at := 0\<rparr>"

text \<open>What the sidecar's load does not tolerate, although it starts empty on a corrupt file: bytes
  that are no UTF-8, a JSON value that is no object, a list of connections that is no list, and a
  row whose time is \<open>null\<close> all raise, and with them every operation, set and delete included. And a
  service whose name no path can hold gets a row without a secret that no delete removes.\<close>

theorem connections_load_raises:
  "load_connections NotUtf8 = Inl ConvValue
   \<and> load_connections (Stored (PList [])) = Inl ConvAttribute
   \<and> load_connections (Stored (PDict [(''connections'', PNone)])) = Inl ConvType
   \<and> load_connections (Stored (PDict [(''connections'', PList [PDict
        [(''service'', PStr ''App''), (''key'', PStr ''a''), (''created_at_unix'', PNone)]])])) = Inl ConvType
   \<and> set_connection file_backed 5 sample_request (NotUtf8, []) = Inl (ConnConv ConvValue)
   \<and> delete_connection file_backed 5 ''App'' ''podcasts'' (NotUtf8, []) = Inl (ConnConv ConvValue)
   \<and> set_connection file_backed 5 slash_request (Absent, []) =
       Inr (slash_meta, save_connections 5 [((''a/b'', ''podcasts''), slash_meta)], [])
   \<and> delete_connection file_backed 6 ''a/b'' ''podcasts'' (save_connections 5 [((''a/b'', ''podcasts''), slash_meta)], []) =
       Inl (ConnSecret (InvalidComponent ''a/b''))"
  by (intro conjI; code_simp)

end
