(* ===== verification/UserVault.thy ===== *)
theory UserVault
  imports SubjectHandle Connections
begin

text \<open>
  \<^verbatim>\<open>src/recto/user_vault/types.py\<close> and \<^verbatim>\<open>src/recto/user_vault/manage.py\<close>: the metadata of the keys
  users keep with a platform, its sidecar, and the operations over it and the secret source. The
  state is the pair of the sidecar's \<open>blob\<close> and the backend's secrets, the one the connections use.
\<close>

section \<open>Rows and the sidecar\<close>

definition normalize_user_vault_key :: "pyval \<Rightarrow> conv_error + string" where
  "normalize_user_vault_key = normalize_connection_key"

definition user_vault_secret_name :: "string \<Rightarrow> string \<Rightarrow> conv_error + string" where
  "user_vault_secret_name subject key =
     bind_err (subject_storage_id subject) (\<lambda>i. Inr (''uv.'' @ i @ ''.'' @ key))"

record user_vault_meta =
  uv_platform :: string
  uv_subject :: string
  uv_key :: string
  uv_display_name :: pyval
  uv_category :: string
  uv_has_secret :: bool
  uv_created_at :: int
  uv_updated_at :: int
  uv_rotated_at :: int

definition user_vault_to_dict :: "user_vault_meta \<Rightarrow> (string, pyval) dict" where
  "user_vault_to_dict m =
     [(''platform'', PStr (uv_platform m)), (''subject'', PStr (uv_subject m)), (''key'', PStr (uv_key m)),
      (''display_name'', uv_display_name m), (''category'', PStr (uv_category m)),
      (''has_secret'', PBool (uv_has_secret m)), (''created_at_unix'', PInt (uv_created_at m)),
      (''updated_at_unix'', PInt (uv_updated_at m)), (''rotated_at_unix'', PInt (uv_rotated_at m))]"

definition user_vault_from_dict :: "pyval \<Rightarrow> conv_error + user_vault_meta" where
  "user_vault_from_dict raw =
     (if \<not> is_dict raw then Inl ConvType else let d = the_dict raw in
      bind_err (item d ''platform'') (\<lambda>plat.
      bind_err (item d ''subject'') (\<lambda>rawsubject.
      bind_err (normalize_subject rawsubject) (\<lambda>subject.
      bind_err (item d ''key'') (\<lambda>rawkey.
      bind_err (normalize_user_vault_key rawkey) (\<lambda>k.
      bind_err (int_of (get_or d ''created_at_unix'' (PInt 0))) (\<lambda>created.
      bind_err (int_of (get_or d ''updated_at_unix'' (PInt 0))) (\<lambda>updated.
      bind_err (int_of (get_or d ''rotated_at_unix'' (PInt 0))) (\<lambda>rotated.
      bind_err (text_of plat) (\<lambda>platform.
      bind_err (text_of (get_or d ''category'' (PStr ''uncategorized''))) (\<lambda>category.
      Inr \<lparr>uv_platform = platform, uv_subject = subject, uv_key = k,
           uv_display_name = get_or d ''display_name'' rawkey, uv_category = category,
           uv_has_secret = truthy (get_or d ''has_secret'' (PBool False)),
           uv_created_at = created, uv_updated_at = updated, uv_rotated_at = rotated\<rparr>)))))))))))"

type_synonym uv_id = "string \<times> string \<times> string"
type_synonym user_vault_store = "(uv_id, user_vault_meta) dict"

definition user_vault_id :: "user_vault_meta \<Rightarrow> uv_id" where
  "user_vault_id m = (uv_platform m, uv_subject m, uv_key m)"

definition user_vault_list ::
  "user_vault_store \<Rightarrow> string \<Rightarrow> pyval \<Rightarrow> conv_error + user_vault_meta list" where
  "user_vault_list s platform subject = bind_err (normalize_subject subject) (\<lambda>subj.
     Inr (sort_key (\<lambda>m. [uv_category m, uv_key m])
       (filter (\<lambda>m. uv_platform m = platform \<and> uv_subject m = subj) (dict_values s))))"

definition uv_full_id :: "string \<Rightarrow> pyval \<Rightarrow> pyval \<Rightarrow> conv_error + uv_id" where
  "uv_full_id platform subject key =
     bind_err (normalize_subject subject) (\<lambda>s. bind_err (normalize_user_vault_key key) (\<lambda>k. Inr (platform, s, k)))"

definition user_vault_get ::
  "user_vault_store \<Rightarrow> string \<Rightarrow> pyval \<Rightarrow> pyval \<Rightarrow> conv_error + user_vault_meta option" where
  "user_vault_get s platform subject key =
     bind_err (uv_full_id platform subject key) (\<lambda>i. Inr (dict_get s i))"

definition user_vault_upsert :: "user_vault_meta \<Rightarrow> user_vault_store \<Rightarrow> user_vault_store" where
  "user_vault_upsert m s = dict_set (user_vault_id m) m s"

definition user_vault_remove ::
  "user_vault_store \<Rightarrow> string \<Rightarrow> pyval \<Rightarrow> pyval \<Rightarrow> conv_error + user_vault_meta option \<times> user_vault_store" where
  "user_vault_remove s platform subject key =
     bind_err (uv_full_id platform subject key) (\<lambda>i. Inr (dict_get s i, dict_pop i s))"

definition load_user_vault :: "blob \<Rightarrow> conv_error + user_vault_store" where
  "load_user_vault = load_sidecar user_vault_from_dict user_vault_id ''entries''"

definition user_vault_rows :: "user_vault_store \<Rightarrow> user_vault_meta list" where
  "user_vault_rows s = sort_key (\<lambda>m. [uv_platform m, uv_subject m, uv_category m, uv_key m]) (dict_values s)"

definition save_user_vault :: "int \<Rightarrow> user_vault_store \<Rightarrow> blob" where
  "save_user_vault now s = Stored (norm_json (PDict
     [(''schema_version'', PInt 2), (''saved_at_unix'', PInt now),
      (''entries'', PList (map (PDict \<circ> user_vault_to_dict) (user_vault_rows s)))]))"

section \<open>Operations\<close>

datatype uv_error = UvConv conv_error | UvSecret secret_error | PlatformEmpty

record user_vault_request =
  ur_platform :: string
  ur_subject :: string
  ur_key :: string
  ur_display_name :: "string option"
  ur_category :: "string option"
  ur_secret :: "string option"

definition merge_entry ::
  "int \<Rightarrow> user_vault_request \<Rightarrow> string \<Rightarrow> string \<Rightarrow> user_vault_meta option \<Rightarrow> user_vault_meta" where
  "merge_entry now r subject k old =
     (let wrote = new_secret (ur_secret r) \<noteq> None in
      \<lparr>uv_platform = ur_platform r, uv_subject = subject, uv_key = k,
       uv_display_name = keep_or (map_option PStr (ur_display_name r)) uv_display_name old (PStr k),
       uv_category = keep_or (ur_category r) uv_category old ''uncategorized'',
       uv_has_secret = (keep_or None uv_has_secret old False \<or> wrote),
       uv_created_at = keep_or None uv_created_at old now,
       uv_updated_at = now,
       uv_rotated_at = (if wrote then now else keep_or None uv_rotated_at old 0)\<rparr>)"

definition uv_conv :: "conv_error + 'a \<Rightarrow> uv_error + 'a" where
  "uv_conv = map_sum UvConv id"

definition set_user_entry ::
  "'v writable_source \<Rightarrow> int \<Rightarrow> user_vault_request \<Rightarrow> blob \<times> 'v \<Rightarrow> uv_error + user_vault_meta \<times> blob \<times> 'v" where
  "set_user_entry src now r st =
     (if ur_platform r = [] then Inl PlatformEmpty else
      bind_err (uv_conv (normalize_subject (PStr (ur_subject r)))) (\<lambda>subject.
      bind_err (uv_conv (normalize_user_vault_key (PStr (ur_key r)))) (\<lambda>k.
      bind_err (uv_conv (load_user_vault (fst st))) (\<lambda>s.
      bind_err (uv_conv (user_vault_get s (ur_platform r) (PStr subject) (PStr k))) (\<lambda>old.
      bind_err (case new_secret (ur_secret r) of None \<Rightarrow> Inr (snd st)
                | Some x \<Rightarrow> bind_err (uv_conv (user_vault_secret_name subject k)) (\<lambda>n.
                    map_sum UvSecret id (write_op src now (snd st) (ur_platform r) n x))) (\<lambda>v.
      let m = merge_entry now r subject k old
      in Inr (m, save_user_vault now (user_vault_upsert m s), v)))))))"

definition release_user_secret ::
  "'v writable_source \<Rightarrow> 'v \<Rightarrow> string \<Rightarrow> string \<Rightarrow> string \<Rightarrow> uv_error + string option" where
  "release_user_secret src v platform subject key =
     bind_err (uv_conv (normalize_subject (PStr subject))) (\<lambda>s.
     bind_err (uv_conv (normalize_user_vault_key (PStr key))) (\<lambda>k.
     bind_err (uv_conv (user_vault_secret_name s k)) (\<lambda>n.
     bind_err (map_sum UvSecret id (fetch_op src v platform n False)) (\<lambda>x.
     Inr (if x = [] then None else Some x)))))"

definition delete_user_entry ::
  "'v writable_source \<Rightarrow> int \<Rightarrow> string \<Rightarrow> string \<Rightarrow> string \<Rightarrow> blob \<times> 'v \<Rightarrow> uv_error + user_vault_meta option \<times> blob \<times> 'v" where
  "delete_user_entry src now platform subject key st =
     bind_err (uv_conv (normalize_subject (PStr subject))) (\<lambda>subj.
     bind_err (uv_conv (normalize_user_vault_key (PStr key))) (\<lambda>k.
     bind_err (uv_conv (load_user_vault (fst st))) (\<lambda>s.
     bind_err (uv_conv (user_vault_remove s platform (PStr subj) (PStr k))) (\<lambda>(removed, s').
     if removed = None then Inr (None, st)
     else bind_err (uv_conv (user_vault_secret_name subj k)) (\<lambda>n.
       case delete_op src (snd st) platform n of
         Inr v \<Rightarrow> Inr (removed, save_user_vault now s', v)
       | Inl e \<Rightarrow> if e = SecretNotFound then Inr (removed, save_user_vault now s', snd st) else Inl (UvSecret e))))))"

definition list_user_entries :: "blob \<Rightarrow> string \<Rightarrow> string \<Rightarrow> conv_error + user_vault_meta list" where
  "list_user_entries b platform subject =
     bind_err (load_user_vault b) (\<lambda>s. user_vault_list s platform (PStr subject))"

section \<open>Names\<close>

lemma uv_conv_Inr [simp]: "uv_conv x = Inr y \<longleftrightarrow> x = Inr y"
  by (simp add: uv_conv_def map_sum_Inr)

lemma uv_conv_simps [simp]: "uv_conv (Inr y) = Inr y" "uv_conv (Inl e) = Inl (UvConv e)"
  by (simp_all add: uv_conv_def)

lemma normalize_subject_idem:
  assumes "normalize_subject v = Inr s"
  shows "normalize_subject (PStr s) = Inr s"
  using assms normalize_subject_handle by (auto simp: normalize_subject_Inr)

lemma secret_name_Inr:
  assumes "normalize_subject v = Inr s"
  obtains raw where "length raw = 32" "s = subject_handle raw"
    and "\<And>k. user_vault_secret_name s k = Inr (''uv.'' @ hexlify raw @ ''.'' @ k)"
proof -
  obtain raw where raw: "length raw = 32" "s = subject_handle raw"
    using assms by (auto simp: normalize_subject_Inr)
  have "strip s = subject_handle raw"
    using normalize_subject_idem[OF assms] raw(2) by (auto simp: normalize_subject_Inr)
  then have "subject_storage_id s = Inr (hexlify raw)" using raw(1) by (auto simp: storage_id_Inr)
  then show thesis using that[OF raw] by (simp add: user_vault_secret_name_def)
qed

lemma secret_name_inj:
  assumes "normalize_subject v = Inr s" "normalize_subject v' = Inr s'"
  shows "user_vault_secret_name s k = user_vault_secret_name s' k' \<longleftrightarrow> s = s' \<and> k = k'"
proof -
  obtain raw where r: "length raw = 32" "s = subject_handle raw"
    and n: "user_vault_secret_name s k = Inr (''uv.'' @ hexlify raw @ ''.'' @ k)" for k
    by (rule secret_name_Inr[OF assms(1)]) blast
  obtain raw' where r': "length raw' = 32" "s' = subject_handle raw'"
    and n': "user_vault_secret_name s' k = Inr (''uv.'' @ hexlify raw' @ ''.'' @ k)" for k
    by (rule secret_name_Inr[OF assms(2)]) blast
  have "hexlify raw @ ''.'' @ k = hexlify raw' @ ''.'' @ k' \<longleftrightarrow> hexlify raw = hexlify raw' \<and> k = k'"
    using r(1) r'(1) by (simp add: append_eq_append_conv)
  then show ?thesis using n n' r r' subject_handle_inj[OF r(1) r'(1)] by (auto simp: hexlify_inj)
qed

lemma secret_name_not_connection:
  "user_vault_secret_name s k = Inr n \<Longrightarrow> n \<noteq> vault_secret_name j"
  by (auto simp: user_vault_secret_name_def bind_err_Inr vault_secret_name_def)

section \<open>The sidecar round trip\<close>

interpretation users: keyed_store "[]" dict_get user_vault_upsert dict_pop user_vault_id
  using dict_keyed_store[of user_vault_id] by (simp add: user_vault_upsert_def[abs_def])

definition norm_entry :: "user_vault_meta \<Rightarrow> user_vault_meta" where
  "norm_entry m = m\<lparr>uv_display_name := norm_json (uv_display_name m)\<rparr>"

definition entry_ok :: "user_vault_meta \<Rightarrow> bool" where
  "entry_ok m \<longleftrightarrow> normalize_subject (PStr (uv_subject m)) = Inr (uv_subject m) \<and> connection_key (uv_key m)"

definition user_vault_ok :: "user_vault_store \<Rightarrow> bool" where
  "user_vault_ok s \<longleftrightarrow> dict_wf s \<and> (\<forall>(i, m) \<in> set s. i = user_vault_id m \<and> entry_ok m)"

lemma norm_entry_simps [simp]:
  "user_vault_id (norm_entry m) = user_vault_id m" "uv_has_secret (norm_entry m) = uv_has_secret m"
  by (simp_all add: user_vault_id_def norm_entry_def)

lemma user_vault_row_back:
  assumes "entry_ok m"
  shows "user_vault_from_dict (norm_json (PDict (user_vault_to_dict m))) = Inr (norm_entry m)"
proof -
  let ?d = "user_vault_to_dict m"
  have d: "distinct (map fst ?d)" by (simp add: user_vault_to_dict_def)
  have look: "dict_get (sort_key fst (norm_items ?d)) k = map_option norm_json (dict_get ?d k)" for k
    by (rule dict_get_norm[OF d])
  have "normalize_connection_key (PStr (uv_key m)) = Inr (uv_key m)"
    using assms by (simp add: entry_ok_def normalize_connection_key_iff)
  with assms show ?thesis
    unfolding user_vault_from_dict_def
    by (simp add: Let_def item_def get_def get_or_def look,
        simp add: user_vault_to_dict_def entry_ok_def normalize_user_vault_key_def text_of_def norm_entry_def)
qed

lemma user_vault_row_ok:
  assumes "user_vault_from_dict r = Inr m"
  shows "entry_ok m"
  using assms
  by (auto simp: user_vault_from_dict_def bind_err_Inr Let_def entry_ok_def normalize_user_vault_key_def
      dest: normalize_shape normalize_subject_idem split: if_splits)

lemma load_user_vault_ok:
  assumes "load_user_vault b = Inr s"
  shows "user_vault_ok s"
proof -
  consider "s = []" | rows where "load_rows user_vault_from_dict user_vault_id rows [] = Inr s"
    using load_sidecar_Inr[OF assms[unfolded load_user_vault_def]] by blast
  then show ?thesis
  proof cases
    case 2
    have "i = user_vault_id m \<and> entry_ok m" if "(i, m) \<in> set s" for i m
      by (rule load_rows_invariant[OF 2 _ _ that]) (auto dest: user_vault_row_ok)
    then show ?thesis using load_rows_wf[OF 2] by (auto simp: user_vault_ok_def)
  qed (simp add: user_vault_ok_def)
qed

lemma load_save_user_vault:
  assumes "user_vault_ok s"
  obtains s' where "load_user_vault (save_user_vault now s) = Inr s'"
    and "\<And>i. dict_get s' i = map_option norm_entry (dict_get s i)"
proof -
  let ?f = "\<lambda>m. norm_json (PDict (user_vault_to_dict m))"
  have rows: "set (user_vault_rows s) = set (dict_values s)" by (simp add: user_vault_rows_def)
  have ids: "map user_vault_id (dict_values s) = dict_keys s"
    using assms by (auto simp: user_vault_ok_def)
  have "distinct (map user_vault_id (dict_values s))"
    using assms unfolding ids by (simp add: user_vault_ok_def dict_wf_def)
  then have dist: "distinct (map user_vault_id (user_vault_rows s))"
    unfolding user_vault_rows_def by (rule distinct_map_sort)
  have "load_user_vault (save_user_vault now s) =
      load_rows user_vault_from_dict user_vault_id (map norm_json (map (PDict \<circ> user_vault_to_dict) (user_vault_rows s))) []"
    unfolding load_user_vault_def save_user_vault_def by (rule load_written) simp_all
  also have "map norm_json (map (PDict \<circ> user_vault_to_dict) (user_vault_rows s)) = map ?f (user_vault_rows s)"
    by (simp only: map_map comp_def)
  finally have "load_user_vault (save_user_vault now s) =
      load_rows user_vault_from_dict user_vault_id (map ?f (user_vault_rows s)) []" .
  moreover obtain s' where "load_rows user_vault_from_dict user_vault_id (map ?f (user_vault_rows s)) [] = Inr s'"
    and "\<And>i. dict_get s' i = map_option norm_entry (dict_get s i)"
    by (rule load_rows_keyed[of "user_vault_rows s" user_vault_from_dict ?f norm_entry user_vault_id s])
      (use rows dist assms user_vault_row_back in \<open>auto simp: user_vault_ok_def\<close>)
  ultimately show thesis using that by simp
qed

section \<open>The operations against the contract\<close>

lemma uv_full_id_Inr:
  "uv_full_id platform subject key = Inr i \<longleftrightarrow>
     (\<exists>s k. normalize_subject subject = Inr s \<and> normalize_connection_key key = Inr k \<and> i = (platform, s, k))"
  by (auto simp: uv_full_id_def bind_err_Inr normalize_user_vault_key_def)

lemma uv_full_id_idem:
  "normalize_subject v = Inr s \<Longrightarrow> normalize_connection_key w = Inr k \<Longrightarrow>
    uv_full_id platform (PStr s) (PStr k) = Inr (platform, s, k)"
  by (simp add: uv_full_id_Inr normalize_subject_idem)

lemma set_user_entry_Inr:
  assumes "set_user_entry src now r (b, v) = Inr (m, b', v')"
  obtains s subj k n where "normalize_subject (PStr (ur_subject r)) = Inr subj"
    and "normalize_connection_key (PStr (ur_key r)) = Inr k" and "load_user_vault b = Inr s"
    and "user_vault_secret_name subj k = Inr n"
    and "m = merge_entry now r subj k (dict_get s (ur_platform r, subj, k))"
    and "b' = save_user_vault now (user_vault_upsert m s)"
    and "case new_secret (ur_secret r) of None \<Rightarrow> v' = v | Some x \<Rightarrow> write_op src now v (ur_platform r) n x = Inr v'"
proof -
  obtain subj where subj: "normalize_subject (PStr (ur_subject r)) = Inr subj"
    using assms by (auto simp: set_user_entry_def bind_err_Inr split: if_splits)
  obtain k where k: "normalize_connection_key (PStr (ur_key r)) = Inr k"
    using assms by (auto simp: set_user_entry_def bind_err_Inr normalize_user_vault_key_def split: if_splits)
  obtain s where s: "load_user_vault b = Inr s"
    using assms by (auto simp: set_user_entry_def bind_err_Inr split: if_splits)
  obtain n where n: "user_vault_secret_name subj k = Inr n"
    by (rule secret_name_Inr[OF subj]) blast
  have get: "user_vault_get s (ur_platform r) (PStr subj) (PStr k) = Inr (dict_get s (ur_platform r, subj, k))"
    by (simp add: user_vault_get_def uv_full_id_idem[OF subj k])
  show thesis
    by (rule that[OF subj k s n])
      (use assms in \<open>cases "new_secret (ur_secret r)";
         auto simp: set_user_entry_def normalize_user_vault_key_def subj k s n get bind_err_Inr map_sum_Inr Let_def
           split: if_splits\<close>)+
qed

lemma merge_entry_id [simp]:
  "user_vault_id (merge_entry now r subj k old) = (ur_platform r, subj, k)"
  by (simp add: merge_entry_def user_vault_id_def Let_def)

lemma merge_entry_ok:
  assumes "normalize_subject v = Inr subj" "normalize_connection_key w = Inr k"
  shows "entry_ok (merge_entry now r subj k old)"
  using normalize_subject_idem[OF assms(1)] normalize_shape[OF assms(2)]
  by (simp add: entry_ok_def merge_entry_def Let_def)

lemma set_user_entry_store:
  assumes "set_user_entry src now r (b, v) = Inr (m, b', v')"
  obtains s s' where "load_user_vault b = Inr s" "load_user_vault b' = Inr s'"
    and "\<And>i. dict_get s' i = (if i = user_vault_id m then Some (norm_entry m) else map_option norm_entry (dict_get s i))"
proof (rule set_user_entry_Inr[OF assms])
  fix s subj k
  assume a: "normalize_subject (PStr (ur_subject r)) = Inr subj" "normalize_connection_key (PStr (ur_key r)) = Inr k"
    and s: "load_user_vault b = Inr s" and m: "m = merge_entry now r subj k (dict_get s (ur_platform r, subj, k))"
    and b': "b' = save_user_vault now (user_vault_upsert m s)"
  have "entry_ok m" unfolding m by (rule merge_entry_ok[OF a])
  then have "user_vault_ok (user_vault_upsert m s)"
    using load_user_vault_ok[OF s] dict_set_members[of "user_vault_id m" m s]
    by (fastforce simp: user_vault_ok_def user_vault_upsert_def)
  then obtain s' where s': "load_user_vault b' = Inr s'"
    and look: "\<And>i. dict_get s' i = map_option norm_entry (dict_get (user_vault_upsert m s) i)"
    using load_save_user_vault unfolding b' by metis
  show thesis by (rule that[OF s s']) (simp add: look users.lookup_upsert)
qed

lemma release_eq:
  assumes "normalize_subject (PStr subject) = Inr s" "normalize_connection_key (PStr key) = Inr k"
    and "user_vault_secret_name s k = Inr n"
  shows "release_user_secret src v platform subject key =
    map_sum UvSecret id (bind_err (fetch_op src v platform n False) (\<lambda>x. Inr (if x = [] then None else Some x)))"
  using assms by (cases "fetch_op src v platform n False")
    (simp_all add: release_user_secret_def normalize_user_vault_key_def)

lemma release_unnamed:
  assumes "\<nexists>i. uv_full_id platform (PStr subject) (PStr key) = Inr i"
  shows "release_user_secret src v platform subject key = release_user_secret src v2 platform subject key"
  using assms unfolding uv_full_id_Inr
  by (cases "normalize_subject (PStr subject)"; cases "normalize_connection_key (PStr key)")
    (auto simp: release_user_secret_def normalize_user_vault_key_def)

text \<open>A change of one secret of the backend, seen through the releases and through the connections.\<close>

lemma one_name_changed:
  assumes subj: "normalize_subject w = Inr subj" and n: "user_vault_secret_name subj k = Inr n"
    and change: "\<And>s' n'. fetch_op src v' s' n' False = (if s' = platform \<and> n' = n then Inr x else fetch_op src v s' n' False)"
  shows "release_user_secret src v' plat subject key =
      (if uv_full_id plat (PStr subject) (PStr key) = Inr (platform, subj, k) then Inr (new_secret (Some x))
       else release_user_secret src v plat subject key)"
    and "get_connection_secret src v' service key = get_connection_secret src v service key"
proof -
  show "get_connection_secret src v' service key = get_connection_secret src v service key"
  proof -
    have "fetch_op src v' service (vault_secret_name j) False = fetch_op src v service (vault_secret_name j) False" for j
      using change[of service "vault_secret_name j"] secret_name_not_connection[OF n, of j] by auto
    then show ?thesis by (simp add: get_connection_secret_def)
  qed
  show "release_user_secret src v' plat subject key =
      (if uv_full_id plat (PStr subject) (PStr key) = Inr (platform, subj, k) then Inr (new_secret (Some x))
       else release_user_secret src v plat subject key)"
  proof (cases "uv_full_id plat (PStr subject) (PStr key)")
    case (Inl e)
    then have "release_user_secret src v' plat subject key = release_user_secret src v plat subject key"
      by (intro release_unnamed) simp
    then show ?thesis using Inl by simp
  next
    case (Inr i)
    then obtain s' k' where i: "normalize_subject (PStr subject) = Inr s'" "normalize_connection_key (PStr key) = Inr k'"
      "i = (plat, s', k')" by (auto simp: uv_full_id_Inr)
    obtain n' where n': "user_vault_secret_name s' k' = Inr n'" by (rule secret_name_Inr[OF i(1)]) blast
    have "n' = n \<longleftrightarrow> s' = subj \<and> k' = k" using secret_name_inj[OF i(1) subj, of k' k] n n' by auto
    then show ?thesis
      unfolding release_eq[OF i(1,2) n'] change Inr i(3) by (auto simp: new_secret_def)
  qed
qed

context secret_source
begin

lemma set_user_entry_secret:
  assumes "set_user_entry src now r (b, v) = Inr (m, b', v')"
  shows "release_user_secret src v' platform subject key =
      (if uv_full_id platform (PStr subject) (PStr key) = Inr (user_vault_id m) \<and> new_secret (ur_secret r) \<noteq> None
       then Inr (new_secret (ur_secret r)) else release_user_secret src v platform subject key)"
    and "get_connection_secret src v' service key = get_connection_secret src v service key"
proof -
  obtain s subj k n where subj: "normalize_subject (PStr (ur_subject r)) = Inr subj"
    and n: "user_vault_secret_name subj k = Inr n"
    and m: "m = merge_entry now r subj k (dict_get s (ur_platform r, subj, k))"
    and w: "case new_secret (ur_secret r) of None \<Rightarrow> v' = v | Some x \<Rightarrow> write_op src now v (ur_platform r) n x = Inr v'"
    by (rule set_user_entry_Inr[OF assms]) blast
  have "release_user_secret src v' platform subject key =
      (if uv_full_id platform (PStr subject) (PStr key) = Inr (user_vault_id m) \<and> new_secret (ur_secret r) \<noteq> None
       then Inr (new_secret (ur_secret r)) else release_user_secret src v platform subject key)
    \<and> get_connection_secret src v' service key = get_connection_secret src v service key"
  proof (cases "new_secret (ur_secret r)")
    case (Some x)
    then have x: "new_secret (Some x) = Some x" by (auto simp: new_secret_def split: if_splits)
    have "write_op src now v (ur_platform r) n x = Inr v'" using w Some by simp
    note one_name_changed[OF subj n fetch_written[OF this, of _ _ False]]
    then show ?thesis using Some x by (simp add: m)
  qed (use w in simp)
  then show "release_user_secret src v' platform subject key =
      (if uv_full_id platform (PStr subject) (PStr key) = Inr (user_vault_id m) \<and> new_secret (ur_secret r) \<noteq> None
       then Inr (new_secret (ur_secret r)) else release_user_secret src v platform subject key)"
    and "get_connection_secret src v' service key = get_connection_secret src v service key" by blast+
qed

lemma delete_user_entry_secret:
  assumes "delete_user_entry src now platform subject key (b, v) = Inr (Some m, b', v')"
  obtains subj k n where "uv_full_id platform (PStr subject) (PStr key) = Inr (platform, subj, k)"
    and "normalize_subject (PStr subject) = Inr subj" and "user_vault_secret_name subj k = Inr n"
    and "\<And>s n'. fetch_op src v' s n' False = (if s = platform \<and> n' = n then Inr [] else fetch_op src v s n' False)"
proof -
  obtain subj k where subj: "normalize_subject (PStr subject) = Inr subj"
    and k: "normalize_connection_key (PStr key) = Inr k"
    using assms by (auto simp: delete_user_entry_def bind_err_Inr normalize_user_vault_key_def)
  obtain n where n: "user_vault_secret_name subj k = Inr n" by (rule secret_name_Inr[OF subj]) blast
  have "delete_op src v platform n = Inr v' \<or> delete_op src v platform n = Inl SecretNotFound \<and> v' = v"
    using assms by (cases "delete_op src v platform n")
      (auto simp: delete_user_entry_def normalize_user_vault_key_def subj k n bind_err_Inr
         user_vault_remove_def uv_full_id_idem[OF subj k] split: if_splits)
  then have "fetch_op src v' s n' False = (if s = platform \<and> n' = n then Inr [] else fetch_op src v s n' False)" for s n'
    using fetch_deleted delete_missing by auto
  then show thesis using that[OF _ subj n] subj k by (auto simp: uv_full_id_Inr)
qed

end

lemma delete_user_entry_store:
  assumes "delete_user_entry src now platform subject key (b, v) = Inr (rm, b', v')"
  obtains i s s' where "uv_full_id platform (PStr subject) (PStr key) = Inr i"
    and "load_user_vault b = Inr s" "load_user_vault b' = Inr s'" "rm = dict_get s i"
    and "rm = None \<longrightarrow> b' = b \<and> v' = v"
    and "\<forall>j. dict_get s' j = (if j = i then None else if rm = None then dict_get s j
                              else map_option norm_entry (dict_get s j))"
proof -
  obtain subj k where subj: "normalize_subject (PStr subject) = Inr subj"
    and k: "normalize_connection_key (PStr key) = Inr k"
    using assms by (auto simp: delete_user_entry_def bind_err_Inr normalize_user_vault_key_def)
  obtain s where s: "load_user_vault b = Inr s"
    using assms by (auto simp: delete_user_entry_def bind_err_Inr)
  obtain n where n: "user_vault_secret_name subj k = Inr n" by (rule secret_name_Inr[OF subj]) blast
  let ?i = "(platform, subj, k)"
  have i: "uv_full_id platform (PStr subject) (PStr key) = Inr ?i" using subj k by (simp add: uv_full_id_Inr)
  have r: "rm = dict_get s ?i" "rm = None \<longrightarrow> b' = b \<and> v' = v" "rm \<noteq> None \<Longrightarrow> b' = save_user_vault now (dict_pop ?i s)"
    using assms by (cases "delete_op src v platform n";
      auto simp: delete_user_entry_def normalize_user_vault_key_def subj k n s bind_err_Inr
         user_vault_remove_def uv_full_id_idem[OF subj k] split: if_splits)+
  show thesis
  proof (cases "rm = None")
    case True
    then show thesis using that[OF i s _ r(1,2), of s] s r by auto
  next
    case False
    have "user_vault_ok (dict_pop ?i s)"
      using load_user_vault_ok[OF s] by (auto simp: user_vault_ok_def dict_pop_members)
    then obtain s' where s': "load_user_vault b' = Inr s'"
      and look: "\<And>j. dict_get s' j = map_option norm_entry (dict_get (dict_pop ?i s) j)"
      using load_save_user_vault r(3)[OF False] by metis
    show thesis by (rule that[OF i s s' r(1)]) (use False in \<open>auto simp: look dict_facts\<close>)
  qed
qed

section \<open>Properties\<close>

text \<open>C21: setting a user's entry changes the row and the secret of that user alone. Exactly the row of
  this platform, handle and key is new; a release gives the new secret exactly to the requests
  whose platform, handle and key normalise to the entry's, when one was given; every other user's
  release, and every secret of the platform's connections in the same store, is as it was.\<close>

theorem set_user_entry_isolated:
  assumes "set_user_entry file_backed now r (b, v) = Inr (m, b', v')"
  shows "\<exists>s s'. load_user_vault b = Inr s \<and> load_user_vault b' = Inr s'
    \<and> (\<forall>i. dict_get s' i = (if i = user_vault_id m then Some (norm_entry m) else map_option norm_entry (dict_get s i)))
    \<and> (\<forall>platform subject key. release_user_secret file_backed v' platform subject key =
         (if uv_full_id platform (PStr subject) (PStr key) = Inr (user_vault_id m) \<and> new_secret (ur_secret r) \<noteq> None
          then Inr (new_secret (ur_secret r)) else release_user_secret file_backed v platform subject key))
    \<and> (\<forall>service key. get_connection_secret file_backed v' service key = get_connection_secret file_backed v service key)"
proof -
  obtain s s' where "load_user_vault b = Inr s" "load_user_vault b' = Inr s'"
    and "\<And>i. dict_get s' i = (if i = user_vault_id m then Some (norm_entry m) else map_option norm_entry (dict_get s i))"
    by (rule set_user_entry_store[OF assms]) blast
  then show ?thesis using files.set_user_entry_secret[OF assms] by blast
qed

text \<open>Deleting a user's entry removes that row and that secret and nothing else. With no such row
  nothing changes; otherwise a release of the entry gives nothing, and every other row, every other
  user's release and every connection's secret is as it was.\<close>

theorem delete_user_entry_isolated:
  assumes "delete_user_entry file_backed now platform subject key (b, v) = Inr (rm, b', v')"
  shows "\<exists>i s s'. uv_full_id platform (PStr subject) (PStr key) = Inr i
    \<and> load_user_vault b = Inr s \<and> load_user_vault b' = Inr s' \<and> rm = dict_get s i
    \<and> (if rm = None then b' = b \<and> v' = v
       else (\<forall>j. dict_get s' j = (if j = i then None else map_option norm_entry (dict_get s j)))
         \<and> (\<forall>plat subj k. release_user_secret file_backed v' plat subj k =
              (if uv_full_id plat (PStr subj) (PStr k) = Inr i then Inr None
               else release_user_secret file_backed v plat subj k))
         \<and> (\<forall>service k. get_connection_secret file_backed v' service k = get_connection_secret file_backed v service k))"
proof -
  obtain i s s' where st: "uv_full_id platform (PStr subject) (PStr key) = Inr i"
    "load_user_vault b = Inr s" "load_user_vault b' = Inr s'" "rm = dict_get s i" "rm = None \<longrightarrow> b' = b \<and> v' = v"
    and look: "\<forall>j. dict_get s' j = (if j = i then None else if rm = None then dict_get s j
                              else map_option norm_entry (dict_get s j))"
    by (rule delete_user_entry_store[OF assms], rule that; assumption)
  show ?thesis
  proof (cases rm)
    case None
    then show ?thesis using st by auto
  next
    case (Some m)
    have "\<forall>plat subj k service k'. release_user_secret file_backed v' plat subj k =
        (if uv_full_id plat (PStr subj) (PStr k) = Inr i then Inr None else release_user_secret file_backed v plat subj k)
      \<and> get_connection_secret file_backed v' service k' = get_connection_secret file_backed v service k'"
    proof (rule files.delete_user_entry_secret[OF assms[unfolded Some]])
      fix subj k n
      assume i: "uv_full_id platform (PStr subject) (PStr key) = Inr (platform, subj, k)"
        and n: "normalize_subject (PStr subject) = Inr subj" "user_vault_secret_name subj k = Inr n"
        and change: "\<And>s n'. fetch_op file_backed v' s n' False =
          (if s = platform \<and> n' = n then Inr [] else fetch_op file_backed v s n' False)"
      have "i = (platform, subj, k)" using i st(1) by simp
      then show ?thesis using one_name_changed[OF n change] by (simp add: new_secret_def)
    qed
    then show ?thesis using st look Some by auto
  qed
qed

text \<open>A list shows the entries of one user of one platform, all of them and no other's, in the
  order of category and key.\<close>

theorem list_user_entries_own:
  "case list_user_entries b platform subject of
     Inl e \<Rightarrow> (\<exists>e'. load_user_vault b = Inl e') \<or> (\<exists>e'. normalize_subject (PStr subject) = Inl e')
   | Inr ms \<Rightarrow> \<exists>s h. load_user_vault b = Inr s \<and> normalize_subject (PStr subject) = Inr h
       \<and> (\<forall>m. (m \<in> set ms) = (uv_platform m = platform \<and> uv_subject m = h \<and> dict_get s (platform, h, uv_key m) = Some m))
       \<and> sorted (map (\<lambda>m. [uv_category m, uv_key m]) ms)"
proof (cases "load_user_vault b")
  case (Inl e)
  then show ?thesis by (simp add: list_user_entries_def)
next
  case l: (Inr s)
  show ?thesis
  proof (cases "normalize_subject (PStr subject)")
    case (Inl e)
    then show ?thesis by (simp add: list_user_entries_def user_vault_list_def l)
  next
    case (Inr h)
    have ok: "dict_wf s" "\<And>i m. (i, m) \<in> set s \<Longrightarrow> i = user_vault_id m"
      using load_user_vault_ok[OF l] by (auto simp: user_vault_ok_def)
    have "m \<in> set (dict_values s) \<longleftrightarrow> dict_get s (user_vault_id m) = Some m" for m
    proof
      assume "m \<in> set (dict_values s)"
      then obtain i where "(i, m) \<in> set s" by auto
      then show "dict_get s (user_vault_id m) = Some m" using ok by (simp add: dict_get_iff)
    next
      assume "dict_get s (user_vault_id m) = Some m"
      then show "m \<in> set (dict_values s)" using dict_get_in_set by force
    qed
    then have mem: "(m \<in> set (filter (\<lambda>m. uv_platform m = platform \<and> uv_subject m = h) (dict_values s))) =
        (uv_platform m = platform \<and> uv_subject m = h \<and> dict_get s (platform, h, uv_key m) = Some m)" for m
      unfolding set_filter mem_Collect_eq user_vault_id_def by metis
    have "list_user_entries b platform subject = Inr (sort_key (\<lambda>m. [uv_category m, uv_key m])
        (filter (\<lambda>m. uv_platform m = platform \<and> uv_subject m = h) (dict_values s)))"
      by (simp add: list_user_entries_def user_vault_list_def l Inr)
    then show ?thesis using mem by (simp only: sum.case set_sort l Inr sorted_sort_key) blast
  qed
qed

section \<open>Examples\<close>

definition alice :: string where
  "alice = replicate 43 (CHR ''A'')"

definition alice_request :: user_vault_request where
  "alice_request = \<lparr>ur_platform = ''App'', ur_subject = alice, ur_key = ''xai'', ur_display_name = None,
     ur_category = None, ur_secret = Some ''k1''\<rparr>"

definition alice_meta :: user_vault_meta where
  "alice_meta = \<lparr>uv_platform = ''App'', uv_subject = alice, uv_key = ''xai'', uv_display_name = PStr ''xai'',
     uv_category = ''uncategorized'', uv_has_secret = True, uv_created_at = 5, uv_updated_at = 5, uv_rotated_at = 5\<rparr>"

definition alice_files :: secret_files where
  "alice_files = [((''App'', ''uv.'' @ replicate 64 (CHR ''0'') @ ''.xai''), Stored (PDict [(''value'', PStr ''k1''),
     (''comment'', PStr []), (''updated_at_unix'', PInt 5)]))]"

lemma alice_set:
  "set_user_entry file_backed 5 alice_request (Absent, []) =
     Inr (alice_meta, save_user_vault 5 [((''App'', alice, ''xai''), alice_meta)], alice_files)"
  by code_simp

theorem set_user_entry_isolated_witness:
  "release_user_secret file_backed alice_files ''App'' alice ''XAI'' = Inr (Some ''k1'')"
proof -
  have "uv_full_id ''App'' (PStr alice) (PStr ''XAI'') = Inr (user_vault_id alice_meta)" by code_simp
  moreover have "new_secret (ur_secret alice_request) = Some ''k1''"
    by (simp add: alice_request_def new_secret_def)
  ultimately show ?thesis using set_user_entry_isolated[OF alice_set] by auto
qed

lemma alice_delete:
  "delete_user_entry file_backed 6 ''App'' alice ''xai''
     (save_user_vault 5 [((''App'', alice, ''xai''), alice_meta)], alice_files) =
   Inr (Some alice_meta, save_user_vault 6 [], [])"
  by code_simp

theorem delete_user_entry_isolated_witness:
  "release_user_secret file_backed [] ''App'' alice ''xai'' = Inr None"
proof -
  have "uv_full_id ''App'' (PStr alice) (PStr ''xai'') = Inr (''App'', alice, ''xai'')" by code_simp
  moreover obtain i where "uv_full_id ''App'' (PStr alice) (PStr ''xai'') = Inr i"
    and "\<forall>plat subj k. release_user_secret file_backed [] plat subj k =
      (if uv_full_id plat (PStr subj) (PStr k) = Inr i then Inr None
       else release_user_secret file_backed alice_files plat subj k)"
    using delete_user_entry_isolated[OF alice_delete] by auto
  ultimately show ?thesis by simp
qed

end
