(* ===== verification/GrantRecord.thy ===== *)
theory GrantRecord
  imports Records UserVault
begin

text \<open>
  \<^verbatim>\<open>src/recto/user_vault/grant_record.py\<close>: the four records a user's bound phone signs about a key of
  the user vault (a grant to one agent, its revocation, the revocation of every grant of a key, and
  the request for the live grants), their wire form, the domain-tagged message that is signed, and
  their admission. The check of a signature is an argument, bound by the caller to the phone's key.
\<close>

datatype grant_error =
    GrantRecordInvalid
  | GrantFieldsUnexpected
  | GrantAgentHandleInvalid
  | GrantBootloaderMismatch
  | GrantExpired
  | GrantTooLong
  | GrantSignatureInvalid
  | GrantActWindowInvalid
  | GrantListStale

definition act_window_seconds :: int where "act_window_seconds = 600"
definition list_skew_seconds :: int where "list_skew_seconds = 120"
definition grant_max_seconds :: int where "grant_max_seconds = 365 * 86400"

section \<open>Checks shared by the records\<close>

definition scope_char :: "char \<Rightarrow> bool" where
  "scope_char c \<longleftrightarrow> ascii_lower c \<or> ascii_upper c \<or> ascii_digit c \<or> c \<in> {CHR ''_'', CHR ''.'', CHR '':'', CHR ''-''}"

definition scope_matches :: "string \<Rightarrow> bool" where
  "scope_matches = match_dollar_class scope_char 1 64"

definition nonce_matches :: "string \<Rightarrow> bool" where
  "nonce_matches = match_dollar_class subject_char 16 64"

definition grant_id_matches :: "string \<Rightarrow> bool" where
  "grant_id_matches = match_dollar_class hex_lower 64 64"

definition refuse_unless :: "bool \<Rightarrow> 'e \<Rightarrow> 'e + unit" where
  "refuse_unless b e = (if b then Inr () else Inl e)"

definition clean_text_value :: "pyval \<Rightarrow> bool" where
  "clean_text_value v \<longleftrightarrow> is_str v \<and> strip (the_str v) \<noteq> [] \<and> the_str v = strip (the_str v)"

definition texts_of :: "(string, pyval) dict \<Rightarrow> string list \<Rightarrow> grant_error + unit" where
  "texts_of d names = refuse_unless (list_all (\<lambda>n. clean_text_value (get d n)) names) GrantRecordInvalid"

definition exact_subject :: "string \<Rightarrow> bool" where
  "exact_subject s \<longleftrightarrow> normalize_subject (PStr s) = Inr s"

definition exact_key :: "string \<Rightarrow> bool" where
  "exact_key s \<longleftrightarrow> normalize_user_vault_key (PStr s) = Inr s"

definition positive_int :: "pyval \<Rightarrow> bool" where
  "positive_int v \<longleftrightarrow> \<not> is_bool v \<and> is_int v \<and> 0 < the_int v"

definition from_wire :: "pyval \<Rightarrow> string list \<Rightarrow> grant_error + (string, pyval) dict" where
  "from_wire v fs =
     (if \<not> is_dict v then Inl GrantRecordInvalid
      else if \<not> set (dict_keys (the_dict v)) \<subseteq> set fs then Inl GrantFieldsUnexpected
      else if \<not> set fs \<subseteq> set (dict_keys (the_dict v)) then Inl GrantRecordInvalid
      else Inr (the_dict v))"

section \<open>The records\<close>

record grant_record =
  gr_bootloader_id :: string
  gr_consumer :: string
  gr_subject :: string
  gr_agent_handle :: string
  gr_key :: string
  gr_scope :: string
  gr_not_after :: int
  gr_nonce :: string

record revoke_record =
  rv_bootloader_id :: string
  rv_consumer :: string
  rv_subject :: string
  rv_grant_id :: string
  rv_nonce :: string

record revoke_key_record =
  rk_bootloader_id :: string
  rk_consumer :: string
  rk_subject :: string
  rk_key :: string
  rk_not_after :: int
  rk_nonce :: string

record grants_list_request =
  gl_bootloader_id :: string
  gl_phone_id :: string
  gl_issued_at :: int
  gl_nonce :: string

text \<open>The constructors, with the checks of \<open>__post_init__\<close> in the code's order.\<close>

definition grant_init :: "(string, pyval) dict \<Rightarrow> grant_error + grant_record" where
  "grant_init d =
     (let t = (\<lambda>n. the_str (get d n)) in
      bind_err (texts_of d [''bootloader_id'', ''consumer'', ''subject'', ''agent_handle'', ''key'', ''scope'', ''nonce'']) (\<lambda>_.
      bind_err (refuse_unless (exact_subject (t ''subject'')) GrantRecordInvalid) (\<lambda>_.
      bind_err (refuse_unless (exact_subject (t ''agent_handle'')) GrantAgentHandleInvalid) (\<lambda>_.
      bind_err (refuse_unless (exact_key (t ''key'')) GrantRecordInvalid) (\<lambda>_.
      bind_err (refuse_unless (scope_matches (t ''scope'')) GrantRecordInvalid) (\<lambda>_.
      bind_err (refuse_unless (nonce_matches (t ''nonce'')) GrantRecordInvalid) (\<lambda>_.
      bind_err (refuse_unless (positive_int (get d ''not_after'')) GrantRecordInvalid) (\<lambda>_.
      Inr \<lparr>gr_bootloader_id = t ''bootloader_id'', gr_consumer = t ''consumer'', gr_subject = t ''subject'',
           gr_agent_handle = t ''agent_handle'', gr_key = t ''key'', gr_scope = t ''scope'',
           gr_not_after = the_int (get d ''not_after''), gr_nonce = t ''nonce''\<rparr>))))))))"

definition revoke_init :: "(string, pyval) dict \<Rightarrow> grant_error + revoke_record" where
  "revoke_init d =
     (let t = (\<lambda>n. the_str (get d n)) in
      bind_err (texts_of d [''bootloader_id'', ''consumer'', ''subject'', ''grant_id'', ''nonce'']) (\<lambda>_.
      bind_err (refuse_unless (exact_subject (t ''subject'')) GrantRecordInvalid) (\<lambda>_.
      bind_err (refuse_unless (grant_id_matches (t ''grant_id'')) GrantRecordInvalid) (\<lambda>_.
      bind_err (refuse_unless (nonce_matches (t ''nonce'')) GrantRecordInvalid) (\<lambda>_.
      Inr \<lparr>rv_bootloader_id = t ''bootloader_id'', rv_consumer = t ''consumer'', rv_subject = t ''subject'',
           rv_grant_id = t ''grant_id'', rv_nonce = t ''nonce''\<rparr>)))))"

definition revoke_key_init :: "(string, pyval) dict \<Rightarrow> grant_error + revoke_key_record" where
  "revoke_key_init d =
     (let t = (\<lambda>n. the_str (get d n)) in
      bind_err (texts_of d [''bootloader_id'', ''consumer'', ''subject'', ''key'', ''nonce'']) (\<lambda>_.
      bind_err (refuse_unless (exact_subject (t ''subject'')) GrantRecordInvalid) (\<lambda>_.
      bind_err (refuse_unless (exact_key (t ''key'')) GrantRecordInvalid) (\<lambda>_.
      bind_err (refuse_unless (nonce_matches (t ''nonce'')) GrantRecordInvalid) (\<lambda>_.
      bind_err (refuse_unless (positive_int (get d ''not_after'')) GrantRecordInvalid) (\<lambda>_.
      Inr \<lparr>rk_bootloader_id = t ''bootloader_id'', rk_consumer = t ''consumer'', rk_subject = t ''subject'',
           rk_key = t ''key'', rk_not_after = the_int (get d ''not_after''), rk_nonce = t ''nonce''\<rparr>))))))"

definition grants_list_init :: "(string, pyval) dict \<Rightarrow> grant_error + grants_list_request" where
  "grants_list_init d =
     (let t = (\<lambda>n. the_str (get d n)) in
      bind_err (texts_of d [''bootloader_id'', ''phone_id'', ''nonce'']) (\<lambda>_.
      bind_err (refuse_unless (nonce_matches (t ''nonce'')) GrantRecordInvalid) (\<lambda>_.
      bind_err (refuse_unless (positive_int (get d ''issued_at'')) GrantRecordInvalid) (\<lambda>_.
      Inr \<lparr>gl_bootloader_id = t ''bootloader_id'', gl_phone_id = t ''phone_id'',
           gl_issued_at = the_int (get d ''issued_at''), gl_nonce = t ''nonce''\<rparr>))))"

definition grant_fields :: "string list" where
  "grant_fields = [''agent_handle'', ''bootloader_id'', ''consumer'', ''key'', ''nonce'', ''not_after'', ''scope'', ''subject'']"

definition revoke_fields :: "string list" where
  "revoke_fields = [''bootloader_id'', ''consumer'', ''grant_id'', ''nonce'', ''subject'']"

definition revoke_key_fields :: "string list" where
  "revoke_key_fields = [''bootloader_id'', ''consumer'', ''key'', ''nonce'', ''not_after'', ''subject'']"

definition grants_list_fields :: "string list" where
  "grants_list_fields = [''bootloader_id'', ''issued_at'', ''nonce'', ''phone_id'']"

definition grant_from_dict :: "pyval \<Rightarrow> grant_error + grant_record" where
  "grant_from_dict v = bind_err (from_wire v grant_fields) grant_init"

definition revoke_from_dict :: "pyval \<Rightarrow> grant_error + revoke_record" where
  "revoke_from_dict v = bind_err (from_wire v revoke_fields) revoke_init"

definition revoke_key_from_dict :: "pyval \<Rightarrow> grant_error + revoke_key_record" where
  "revoke_key_from_dict v = bind_err (from_wire v revoke_key_fields) revoke_key_init"

definition grants_list_from_dict :: "pyval \<Rightarrow> grant_error + grants_list_request" where
  "grants_list_from_dict v = bind_err (from_wire v grants_list_fields) grants_list_init"

definition grant_to_dict :: "grant_record \<Rightarrow> (string, pyval) dict" where
  "grant_to_dict r = [(''agent_handle'', PStr (gr_agent_handle r)), (''bootloader_id'', PStr (gr_bootloader_id r)),
     (''consumer'', PStr (gr_consumer r)), (''key'', PStr (gr_key r)), (''nonce'', PStr (gr_nonce r)),
     (''not_after'', PInt (gr_not_after r)), (''scope'', PStr (gr_scope r)), (''subject'', PStr (gr_subject r))]"

definition revoke_to_dict :: "revoke_record \<Rightarrow> (string, pyval) dict" where
  "revoke_to_dict r = [(''bootloader_id'', PStr (rv_bootloader_id r)), (''consumer'', PStr (rv_consumer r)),
     (''grant_id'', PStr (rv_grant_id r)), (''nonce'', PStr (rv_nonce r)), (''subject'', PStr (rv_subject r))]"

definition revoke_key_to_dict :: "revoke_key_record \<Rightarrow> (string, pyval) dict" where
  "revoke_key_to_dict r = [(''bootloader_id'', PStr (rk_bootloader_id r)), (''consumer'', PStr (rk_consumer r)),
     (''key'', PStr (rk_key r)), (''nonce'', PStr (rk_nonce r)), (''not_after'', PInt (rk_not_after r)),
     (''subject'', PStr (rk_subject r))]"

definition grants_list_to_dict :: "grants_list_request \<Rightarrow> (string, pyval) dict" where
  "grants_list_to_dict r = [(''bootloader_id'', PStr (gl_bootloader_id r)), (''issued_at'', PInt (gl_issued_at r)),
     (''nonce'', PStr (gl_nonce r)), (''phone_id'', PStr (gl_phone_id r))]"

section \<open>Signed messages and admission\<close>

definition grant_prefix :: string where "grant_prefix = ''recto-user-vault-grant-v1|''"
definition revoke_prefix :: string where "revoke_prefix = ''recto-user-vault-revoke-v1|''"
definition revoke_key_prefix :: string where "revoke_key_prefix = ''recto-user-vault-revoke-key-v1|''"
definition grants_list_prefix :: string where "grants_list_prefix = ''recto-user-vault-grants-v1|''"

definition grant_canonical :: "grant_record \<Rightarrow> bytes" where
  "grant_canonical r = canonical_json (grant_to_dict r)"

definition grant_id :: "grant_record \<Rightarrow> string" where
  "grant_id r = hexlify (sha256 (grant_canonical r))"

definition grant_signed :: "grant_record \<Rightarrow> bytes" where
  "grant_signed r = utf8 grant_prefix @ grant_canonical r"

definition revoke_signed :: "revoke_record \<Rightarrow> bytes" where
  "revoke_signed r = utf8 revoke_prefix @ canonical_json (revoke_to_dict r)"

definition revoke_key_act_id :: "revoke_key_record \<Rightarrow> string" where
  "revoke_key_act_id r = hexlify (sha256 (canonical_json (revoke_key_to_dict r)))"

definition revoke_key_signed :: "revoke_key_record \<Rightarrow> bytes" where
  "revoke_key_signed r = utf8 revoke_key_prefix @ canonical_json (revoke_key_to_dict r)"

definition grants_list_signed :: "grants_list_request \<Rightarrow> bytes" where
  "grants_list_signed r = utf8 grants_list_prefix @ canonical_json (grants_list_to_dict r)"

definition signature_ok :: "(bytes \<Rightarrow> string \<Rightarrow> bool) \<Rightarrow> bytes \<Rightarrow> pyval \<Rightarrow> bool" where
  "signature_ok verify msg sig \<longleftrightarrow> is_str sig \<and> the_str sig \<noteq> [] \<and> verify msg (the_str sig)"

definition verify_grant ::
  "(bytes \<Rightarrow> string \<Rightarrow> bool) \<Rightarrow> grant_record \<Rightarrow> pyval \<Rightarrow> string \<Rightarrow> int \<Rightarrow> grant_error + string" where
  "verify_grant verify r sig bid now =
     (if gr_bootloader_id r \<noteq> bid then Inl GrantBootloaderMismatch
      else if gr_not_after r \<le> now then Inl GrantExpired
      else if gr_not_after r > now + grant_max_seconds then Inl GrantTooLong
      else if \<not> signature_ok verify (grant_signed r) sig then Inl GrantSignatureInvalid
      else Inr (grant_id r))"

definition verify_revoke ::
  "(bytes \<Rightarrow> string \<Rightarrow> bool) \<Rightarrow> revoke_record \<Rightarrow> pyval \<Rightarrow> string \<Rightarrow> grant_error + string" where
  "verify_revoke verify r sig bid =
     (if rv_bootloader_id r \<noteq> bid then Inl GrantBootloaderMismatch
      else if \<not> signature_ok verify (revoke_signed r) sig then Inl GrantSignatureInvalid
      else Inr (rv_grant_id r))"

definition verify_revoke_key ::
  "(bytes \<Rightarrow> string \<Rightarrow> bool) \<Rightarrow> revoke_key_record \<Rightarrow> pyval \<Rightarrow> string \<Rightarrow> int \<Rightarrow> grant_error + string" where
  "verify_revoke_key verify r sig bid now =
     (if rk_bootloader_id r \<noteq> bid then Inl GrantBootloaderMismatch
      else if rk_not_after r \<le> now \<or> rk_not_after r > now + act_window_seconds then Inl GrantActWindowInvalid
      else if \<not> signature_ok verify (revoke_key_signed r) sig then Inl GrantSignatureInvalid
      else Inr (revoke_key_act_id r))"

definition verify_grants_list ::
  "(bytes \<Rightarrow> string \<Rightarrow> bool) \<Rightarrow> grants_list_request \<Rightarrow> pyval \<Rightarrow> string \<Rightarrow> int \<Rightarrow> grant_error + unit" where
  "verify_grants_list verify r sig bid now =
     (if gl_bootloader_id r \<noteq> bid then Inl GrantBootloaderMismatch
      else if \<bar>now - gl_issued_at r\<bar> > list_skew_seconds then Inl GrantListStale
      else if \<not> signature_ok verify (grants_list_signed r) sig then Inl GrantSignatureInvalid
      else Inr ())"

section \<open>What a signature binds\<close>

text \<open>The four acts a phone signs; each is well formed when its integer can be printed.\<close>

datatype vault_act =
    Grant grant_record
  | Revoke revoke_record
  | RevokeKey revoke_key_record
  | GrantsList grants_list_request

fun act_message :: "vault_act \<Rightarrow> bytes" where
  "act_message (Grant r) = grant_signed r"
| "act_message (Revoke r) = revoke_signed r"
| "act_message (RevokeKey r) = revoke_key_signed r"
| "act_message (GrantsList r) = grants_list_signed r"

fun act_prints :: "vault_act \<Rightarrow> bool" where
  "act_prints (Grant r) = int_prints (gr_not_after r)"
| "act_prints (Revoke r) = True"
| "act_prints (RevokeKey r) = int_prints (rk_not_after r)"
| "act_prints (GrantsList r) = int_prints (gl_issued_at r)"

fun act_domain :: "vault_act \<Rightarrow> string" where
  "act_domain (Grant r) = grant_prefix"
| "act_domain (Revoke r) = revoke_prefix"
| "act_domain (RevokeKey r) = revoke_key_prefix"
| "act_domain (GrantsList r) = grants_list_prefix"

fun act_dict :: "vault_act \<Rightarrow> (string, pyval) dict" where
  "act_dict (Grant r) = grant_to_dict r"
| "act_dict (Revoke r) = revoke_to_dict r"
| "act_dict (RevokeKey r) = revoke_key_to_dict r"
| "act_dict (GrantsList r) = grants_list_to_dict r"

lemmas act_dict_defs = grant_to_dict_def revoke_to_dict_def revoke_key_to_dict_def grants_list_to_dict_def
lemmas act_prefix_defs = grant_prefix_def revoke_prefix_def revoke_key_prefix_def grants_list_prefix_def

lemma act_message_text: "act_message a = utf8 (act_domain a @ json_dumps (PDict (act_dict a)))"
  by (cases a) (simp_all add: grant_signed_def revoke_signed_def revoke_key_signed_def grants_list_signed_def
      grant_canonical_def canonical_json_def utf8_append)

lemma act_dict_flat:
  assumes "act_prints a"
  shows "sorted (map fst (act_dict a)) \<and> distinct (map fst (act_dict a)) \<and> (\<forall>kv \<in> set (act_dict a). scalar (snd kv))"
  using assms by (cases a) (simp_all add: act_dict_defs)

lemma act_dict_inj: "act_domain a = act_domain b \<Longrightarrow> act_dict a = act_dict b \<Longrightarrow> a = b"
  by (cases a; cases b) (auto simp: act_dict_defs act_prefix_defs)

lemma act_domains_differ:
  assumes "act_domain a @ s = act_domain b @ t"
  shows "act_domain a = act_domain b \<and> s = t"
  using assms by (cases a; cases b) (simp_all add: act_prefix_defs)

lemma act_message_inj:
  assumes "act_prints a" "act_prints b" "act_message a = act_message b"
  shows "a = b"
proof -
  have "act_domain a @ json_dumps (PDict (act_dict a)) = act_domain b @ json_dumps (PDict (act_dict b))"
    using assms(3) by (simp add: act_message_text utf8_inj)
  then have d: "act_domain a = act_domain b" "json_dumps (PDict (act_dict a)) = json_dumps (PDict (act_dict b))"
    using act_domains_differ by blast+
  have "act_dict a = act_dict b"
    using canonical_json_inj[of "act_dict a" "act_dict b"] d(2) act_dict_flat[OF assms(1)] act_dict_flat[OF assms(2)]
    by (simp add: canonical_json_def)
  then show ?thesis using act_dict_inj d(1) by blast
qed

interpretation grants: canonical_record sha256 grant_canonical "\<lambda>r. int_prints (gr_not_after r)"
proof
  fix r s
  assume "int_prints (gr_not_after r)" "int_prints (gr_not_after s)" "grant_canonical r = grant_canonical s"
  then have "Grant r = Grant s" by (intro act_message_inj) (simp_all add: grant_signed_def)
  then show "r = s" by simp
qed

lemma grants_fp: "grants.fp = grant_id"
  by (rule ext) (simp add: grants.fp_def grant_id_def)

section \<open>Well-formed records\<close>

definition grant_wf :: "grant_record \<Rightarrow> bool" where
  "grant_wf r \<longleftrightarrow> exact_subject (gr_subject r) \<and> exact_subject (gr_agent_handle r) \<and> connection_key (gr_key r)
     \<and> fullmatch_class scope_char 1 64 (gr_scope r) \<and> fullmatch_class subject_char 16 64 (gr_nonce r)
     \<and> strip (gr_bootloader_id r) = gr_bootloader_id r \<and> gr_bootloader_id r \<noteq> []
     \<and> strip (gr_consumer r) = gr_consumer r \<and> gr_consumer r \<noteq> [] \<and> 0 < gr_not_after r"

lemma refuse_unless_Inr [simp]: "refuse_unless b e = Inr u \<longleftrightarrow> b"
  by (simp add: refuse_unless_def)

lemma exact_match:
  assumes "match_dollar_class p lo hi s" "strip s = s" "\<And>c. p c \<Longrightarrow> \<not> py_space c"
  shows "fullmatch_class p lo hi s"
  using match_dollar_strip[of p lo hi s] assms by simp

lemma scope_char_plain: "scope_char c \<Longrightarrow> \<not> py_space c"
  by (auto simp: scope_char_def ascii_lower_def ascii_upper_def ascii_digit_def py_space_def)

lemma grant_from_dict_Inr:
  assumes "grant_from_dict v = Inr r"
  shows "grant_wf r"
proof -
  obtain d where d: "grant_init d = Inr r" using assms by (auto simp: grant_from_dict_def bind_err_Inr)
  let ?t = "\<lambda>n. the_str (get d n)"
  have clean: "strip (?t n) = ?t n" "?t n \<noteq> []"
    if "n \<in> {''bootloader_id'', ''consumer'', ''scope'', ''nonce''}" for n
    using d that by (auto simp: grant_init_def bind_err_Inr Let_def texts_of_def clean_text_value_def)
  have "fullmatch_class scope_char 1 64 (?t ''scope'')" "fullmatch_class subject_char 16 64 (?t ''nonce'')"
    using d clean(1)[of "''scope''"] clean(1)[of "''nonce''"]
    by (auto simp: grant_init_def bind_err_Inr Let_def scope_matches_def nonce_matches_def
        intro!: exact_match dest: scope_char_plain subject_char_plain)
  moreover have "connection_key (?t ''key'')"
    using d by (auto simp: grant_init_def bind_err_Inr Let_def exact_key_def normalize_user_vault_key_def dest: normalize_shape)
  ultimately show ?thesis
    using d clean[of "''bootloader_id''"] clean[of "''consumer''"]
    by (auto simp: grant_init_def bind_err_Inr Let_def grant_wf_def positive_int_def)
qed

lemma get_grant:
  "get (grant_to_dict r) ''agent_handle'' = PStr (gr_agent_handle r)"
  "get (grant_to_dict r) ''bootloader_id'' = PStr (gr_bootloader_id r)"
  "get (grant_to_dict r) ''consumer'' = PStr (gr_consumer r)" "get (grant_to_dict r) ''key'' = PStr (gr_key r)"
  "get (grant_to_dict r) ''nonce'' = PStr (gr_nonce r)" "get (grant_to_dict r) ''not_after'' = PInt (gr_not_after r)"
  "get (grant_to_dict r) ''scope'' = PStr (gr_scope r)" "get (grant_to_dict r) ''subject'' = PStr (gr_subject r)"
  by (simp_all add: grant_to_dict_def get_def)

lemma grant_init_fields:
  assumes "grant_init d = Inr r"
  shows "gr_agent_handle r = the_str (get d ''agent_handle'')" "gr_bootloader_id r = the_str (get d ''bootloader_id'')"
    "gr_consumer r = the_str (get d ''consumer'')" "gr_key r = the_str (get d ''key'')"
    "gr_nonce r = the_str (get d ''nonce'')" "gr_not_after r = the_int (get d ''not_after'')"
    "gr_scope r = the_str (get d ''scope'')" "gr_subject r = the_str (get d ''subject'')"
  using assms by (auto simp: grant_init_def bind_err_Inr Let_def)

section \<open>Properties\<close>

text \<open>C18: one signed message is one act. The four kinds of act are told apart by their domain tag and,
  within a kind, the message determines every field; so a signature over one act can pass for no
  other act of any kind. And one grant id names one grant, unless it shows a SHA-256 collision.\<close>

theorem vault_acts_separate:
  assumes "act_prints a" "act_prints b"
  shows "(act_message a = act_message b) = (a = b)
    \<and> (case (a, b) of
         (Grant r, Grant s) \<Rightarrow> grant_id r \<noteq> grant_id s \<or> r = s \<or> sha_collision (grant_canonical r) (grant_canonical s)
       | _ \<Rightarrow> True)"
proof -
  have "grant_id r \<noteq> grant_id s \<or> r = s \<or> sha_collision (grant_canonical r) (grant_canonical s)"
    if "a = Grant r" "b = Grant s" for r s
    using assms that grants.fp_binds[of r s] by (auto simp: grants_fp sha_collision_def)
  then show ?thesis using act_message_inj[OF assms] by (auto split: vault_act.splits)
qed

definition sample_grant_record :: grant_record where
  "sample_grant_record = \<lparr>gr_bootloader_id = ''darwin'', gr_consumer = ''App'', gr_subject = alice,
     gr_agent_handle = alice, gr_key = ''user-ai-xai'', gr_scope = ''chat'', gr_not_after = 2000,
     gr_nonce = ''0123456789abcdef''\<rparr>"

theorem vault_acts_separate_witness:
  "act_message (Grant sample_grant_record) \<noteq> act_message (Grant (sample_grant_record\<lparr>gr_scope := ''sell''\<rparr>))"
proof -
  have "act_prints (Grant sample_grant_record)" by (simp add: sample_grant_record_def int_prints_def) code_simp
  moreover have "act_prints (Grant (sample_grant_record\<lparr>gr_scope := ''sell''\<rparr>))"
    by (simp add: sample_grant_record_def int_prints_def) code_simp
  ultimately show ?thesis
    using vault_acts_separate[of "Grant sample_grant_record" "Grant (sample_grant_record\<lparr>gr_scope := ''sell''\<rparr>)"]
    by (simp add: sample_grant_record_def)
qed

text \<open>What admits each act, and what is answered. A grant must name this bootloader, still live and
  reach at most 365 days ahead, a revocation of a key must live at most ten minutes ahead, a list
  request be issued within two minutes of the clock, and each be signed, over its own tagged message,
  for the key the caller bound. The answers are the grant's id, the revoked id and the act's id.\<close>

theorem vault_act_admission:
  "(verify_grant verify g sig bid now = Inr i \<longleftrightarrow>
      gr_bootloader_id g = bid \<and> now < gr_not_after g \<and> gr_not_after g \<le> now + 31536000
      \<and> (\<exists>s. sig = PStr s \<and> s \<noteq> [] \<and> verify (act_message (Grant g)) s) \<and> i = grant_id g)
   \<and> (verify_revoke verify r sig bid = Inr i \<longleftrightarrow>
      rv_bootloader_id r = bid \<and> (\<exists>s. sig = PStr s \<and> s \<noteq> [] \<and> verify (act_message (Revoke r)) s)
      \<and> i = rv_grant_id r)
   \<and> (verify_revoke_key verify k sig bid now = Inr i \<longleftrightarrow>
      rk_bootloader_id k = bid \<and> now < rk_not_after k \<and> rk_not_after k \<le> now + 600
      \<and> (\<exists>s. sig = PStr s \<and> s \<noteq> [] \<and> verify (act_message (RevokeKey k)) s) \<and> i = revoke_key_act_id k)
   \<and> (verify_grants_list verify l sig bid now = Inr u \<longleftrightarrow>
      gl_bootloader_id l = bid \<and> now - 120 \<le> gl_issued_at l \<and> gl_issued_at l \<le> now + 120
      \<and> (\<exists>s. sig = PStr s \<and> s \<noteq> [] \<and> verify (act_message (GrantsList l)) s))"
proof -
  have sig: "signature_ok verify msg sig \<longleftrightarrow> (\<exists>s. sig = PStr s \<and> s \<noteq> [] \<and> verify msg s)" for msg
    by (cases sig) (auto simp: signature_ok_def)
  have "verify_grant verify g sig bid now = Inr i \<longleftrightarrow>
      gr_bootloader_id g = bid \<and> now < gr_not_after g \<and> gr_not_after g \<le> now + 31536000
      \<and> signature_ok verify (act_message (Grant g)) sig \<and> i = grant_id g"
    by (auto simp: verify_grant_def grant_max_seconds_def)
  moreover have "verify_revoke verify r sig bid = Inr i \<longleftrightarrow>
      rv_bootloader_id r = bid \<and> signature_ok verify (act_message (Revoke r)) sig \<and> i = rv_grant_id r"
    by (auto simp: verify_revoke_def)
  moreover have "verify_revoke_key verify k sig bid now = Inr i \<longleftrightarrow>
      rk_bootloader_id k = bid \<and> now < rk_not_after k \<and> rk_not_after k \<le> now + 600
      \<and> signature_ok verify (act_message (RevokeKey k)) sig \<and> i = revoke_key_act_id k"
    by (auto simp: verify_revoke_key_def act_window_seconds_def)
  moreover have "verify_grants_list verify l sig bid now = Inr u \<longleftrightarrow>
      gl_bootloader_id l = bid \<and> now - 120 \<le> gl_issued_at l \<and> gl_issued_at l \<le> now + 120
      \<and> signature_ok verify (act_message (GrantsList l)) sig"
    by (auto simp: verify_grants_list_def list_skew_seconds_def)
  ultimately show ?thesis by (simp only: sig)
qed

text \<open>C19: the wire form of a grant is read exactly: a value is read as a record precisely when it is an
  object with the grant's fields and no other, they hold the record's values unchanged, and the
  record is well formed (canonical handles for the user and for the one agent, a key as stored, a
  scope and a nonce of their alphabets and lengths, a positive time, no padded name).\<close>

theorem grant_from_dict_iff:
  "grant_from_dict v = Inr r \<longleftrightarrow>
     grant_wf r \<and> is_dict v \<and> set (dict_keys (the_dict v)) = set grant_fields
     \<and> map (get (the_dict v)) grant_fields = map (get (grant_to_dict r)) grant_fields"
proof
  assume a: "grant_from_dict v = Inr r"
  then obtain d where d: "grant_init d = Inr r" "from_wire v grant_fields = Inr d"
    by (auto simp: grant_from_dict_def bind_err_Inr)
  have v: "is_dict v \<and> set (dict_keys (the_dict v)) = set grant_fields \<and> d = the_dict v"
    using d(2) by (auto simp: from_wire_def simp del: set_map split: if_splits)
  have t: "get d n = PStr (the_str (get d n))"
    if "n \<in> {''bootloader_id'', ''consumer'', ''subject'', ''agent_handle'', ''key'', ''scope'', ''nonce''}" for n
    using d(1) that
    by (cases "get d n") (auto simp: grant_init_def bind_err_Inr Let_def texts_of_def clean_text_value_def)
  have "get d ''not_after'' = PInt (the_int (get d ''not_after''))"
    using d(1) by (cases "get d ''not_after''") (auto simp: grant_init_def bind_err_Inr Let_def positive_int_def)
  then have "map (get d) grant_fields = map (get (grant_to_dict r)) grant_fields"
    using t grant_init_fields[OF d(1)] by (simp add: grant_fields_def get_grant)
  then show "grant_wf r \<and> is_dict v \<and> set (dict_keys (the_dict v)) = set grant_fields
     \<and> map (get (the_dict v)) grant_fields = map (get (grant_to_dict r)) grant_fields"
    using grant_from_dict_Inr[OF a] v by simp
next
  assume a: "grant_wf r \<and> is_dict v \<and> set (dict_keys (the_dict v)) = set grant_fields
     \<and> map (get (the_dict v)) grant_fields = map (get (grant_to_dict r)) grant_fields"
  let ?d = "the_dict v"
  have g: "get ?d ''agent_handle'' = PStr (gr_agent_handle r)" "get ?d ''bootloader_id'' = PStr (gr_bootloader_id r)"
    "get ?d ''consumer'' = PStr (gr_consumer r)" "get ?d ''key'' = PStr (gr_key r)" "get ?d ''nonce'' = PStr (gr_nonce r)"
    "get ?d ''not_after'' = PInt (gr_not_after r)" "get ?d ''scope'' = PStr (gr_scope r)" "get ?d ''subject'' = PStr (gr_subject r)"
    using a by (simp_all add: grant_fields_def get_grant)
  have plain: "strip s = s" "s \<noteq> []" if "fullmatch_class p lo hi s" "0 < lo" "\<And>c. p c \<Longrightarrow> \<not> py_space c" for p lo hi s
    using that strip_id[of s] by (auto simp: fullmatch_class_def list_all_iff)
  have clean: "strip s = s \<and> s \<noteq> []" if ex: "exact_subject s" for s
  proof -
    obtain raw where "length raw = 32" "strip s = s" "s = b64_encode raw"
      using ex unfolding exact_subject_def normalize_subject_Inr subject_handle_def
      by (metis pyval.inject(4))
    then show ?thesis using length_b64_encode[of raw] by auto
  qed
  have key: "strip (gr_key r) = gr_key r \<and> gr_key r \<noteq> []"
    using a strip_id[of "gr_key r"] key_char_plain by (auto simp: grant_wf_def connection_key_def list_all_iff)
  have w: "grant_wf r" using a by blast
  have sc: "strip (gr_scope r) = gr_scope r" "gr_scope r \<noteq> []" "strip (gr_nonce r) = gr_nonce r" "gr_nonce r \<noteq> []"
    using w plain[of scope_char 1 64 "gr_scope r"] plain[of subject_char 16 64 "gr_nonce r"]
    by (auto simp: grant_wf_def dest: scope_char_plain subject_char_plain)
  have "grant_init ?d = Inr r"
    using w clean key sc
    by (simp add: grant_init_def g texts_of_def clean_text_value_def grant_wf_def exact_key_def
        normalize_user_vault_key_def normalize_connection_key_iff scope_matches_def nonce_matches_def
        positive_int_def fullmatch_match refuse_unless_def)
  moreover have "from_wire v grant_fields = Inr ?d" using a by (simp add: from_wire_def)
  ultimately show "grant_from_dict v = Inr r" by (simp add: grant_from_dict_def)
qed

end
