(* ===== verification/GrantRequests.thy ===== *)
theory GrantRequests
  imports GrantRecord
begin

text \<open>
  \<^verbatim>\<open>src/recto/user_vault/grant_request.py\<close>: the requests a platform raises on its user's phone, kept
  in memory: at most one open request for a slot, at most ten raises an hour for a subject, each open
  for five minutes and answered for five more. Each operation is one step under the lock, with the
  clock's reading and the fresh identifier as arguments; a refused raise still sweeps the book.
\<close>

datatype request_error = GrantRequestInvalid | GrantRequestOpen | GrantRequestRateLimited

definition request_window_seconds :: int where "request_window_seconds = 300"
definition raises_per_hour :: nat where "raises_per_hour = 10"

text \<open>Unicode's categories \<open>Cc\<close> and \<open>Cf\<close> up to code point 255.\<close>

definition control_or_format :: "char \<Rightarrow> bool" where
  "control_or_format c \<longleftrightarrow> code c < 32 \<or> (127 \<le> code c \<and> code c < 160) \<or> code c = 173"

definition clean_text :: "pyval \<Rightarrow> nat \<Rightarrow> request_error + string option" where
  "clean_text v cap =
     (if v = PNone \<or> v = PStr [] then Inr None
      else if \<not> is_str v then Inl GrantRequestInvalid
      else if length (the_str v) > cap then Inl GrantRequestInvalid
      else if list_ex control_or_format (the_str v) then Inl GrantRequestInvalid
      else Inr (if strip (the_str v) = [] then None else Some (strip (the_str v))))"

datatype request_action = ActionGrant | ActionRevoke
datatype request_status = Open | Admitted | Denied | Revoked | Expired

type_synonym request_slot = "string \<times> string \<times> string \<times> string"

record grant_request =
  request_id :: string
  rq_action :: request_action
  rq_phone_id :: string
  rq_agent_id :: string
  rq_slot :: request_slot
  rq_scope :: string
  rq_not_after :: int
  requested_at :: int
  expires_at :: int
  rq_purpose :: "string option"
  rq_agent_name :: "string option"
  rq_grant_id :: "string option"
  rq_admitted_at :: "int option"
  rq_status :: request_status
  resolved_grant_id :: "string option"
  resolved_not_after :: "int option"

definition slot_subject :: "request_slot \<Rightarrow> string \<times> string" where
  "slot_subject s = (fst s, fst (snd s))"

record request_book =
  by_id :: "(string, grant_request) dict"
  raises :: "(string \<times> string, int list) dict"

definition empty_book :: request_book where
  "empty_book = \<lparr>by_id = [], raises = []\<rparr>"

section \<open>Operations\<close>

definition sweep_one :: "int \<Rightarrow> grant_request \<Rightarrow> grant_request" where
  "sweep_one now r = (if rq_status r = Open \<and> expires_at r \<le> now then r\<lparr>rq_status := Expired\<rparr> else r)"

definition swept_out :: "int \<Rightarrow> grant_request \<Rightarrow> bool" where
  "swept_out now r \<longleftrightarrow> rq_status r \<noteq> Open \<and> expires_at r + request_window_seconds \<le> now"

definition sweep :: "int \<Rightarrow> request_book \<Rightarrow> request_book" where
  "sweep now b = b\<lparr>by_id := filter (\<lambda>(i, r). \<not> swept_out now r) (map (\<lambda>(i, r). (i, sweep_one now r)) (by_id b))\<rparr>"

record raise_args =
  ra_action :: request_action
  ra_phone_id :: string
  ra_agent_id :: string
  ra_slot :: request_slot
  ra_scope :: string
  ra_not_after :: int
  ra_purpose :: "string option"
  ra_agent_name :: "string option"
  ra_grant_id :: "string option"
  ra_admitted_at :: "int option"

definition new_request :: "int \<Rightarrow> string \<Rightarrow> raise_args \<Rightarrow> grant_request" where
  "new_request now rid a =
     \<lparr>request_id = rid, rq_action = ra_action a, rq_phone_id = ra_phone_id a, rq_agent_id = ra_agent_id a,
      rq_slot = ra_slot a, rq_scope = ra_scope a, rq_not_after = ra_not_after a, requested_at = now,
      expires_at = now + request_window_seconds, rq_purpose = ra_purpose a, rq_agent_name = ra_agent_name a,
      rq_grant_id = ra_grant_id a, rq_admitted_at = ra_admitted_at a, rq_status = Open,
      resolved_grant_id = None, resolved_not_after = None\<rparr>"

definition raise_times :: "request_book \<Rightarrow> string \<times> string \<Rightarrow> int list" where
  "raise_times b subj = (case dict_get (raises b) subj of None \<Rightarrow> [] | Some ts \<Rightarrow> ts)"

definition open_slot :: "request_slot \<Rightarrow> grant_request \<Rightarrow> bool" where
  "open_slot s r \<longleftrightarrow> rq_status r = Open \<and> rq_slot r = s"

text \<open>The raises of the last hour, and the book after the sweep with that deque pruned.\<close>

definition recent_raises :: "int \<Rightarrow> string \<times> string \<Rightarrow> request_book \<Rightarrow> int list" where
  "recent_raises now subj b = dropWhile (\<lambda>t. t \<le> now - 3600) (raise_times b subj)"

definition pruned :: "int \<Rightarrow> string \<times> string \<Rightarrow> request_book \<Rightarrow> request_book" where
  "pruned now subj b = (sweep now b)\<lparr>raises := dict_set subj (recent_raises now subj b) (raises b)\<rparr>"

definition raise_request ::
  "int \<Rightarrow> string \<Rightarrow> raise_args \<Rightarrow> request_book \<Rightarrow> (request_error + grant_request) \<times> request_book" where
  "raise_request now rid a b =
     (let subj = slot_subject (ra_slot a); b1 = pruned now subj b; times = recent_raises now subj b
      in if length times \<ge> raises_per_hour then (Inl GrantRequestRateLimited, b1)
         else if list_ex (open_slot (ra_slot a)) (dict_values (by_id b1)) then (Inl GrantRequestOpen, b1)
         else let r = new_request now rid a
              in (Inr r, b1\<lparr>raises := dict_set subj (times @ [now]) (raises b1), by_id := dict_set rid r (by_id b1)\<rparr>))"

definition open_for_phone :: "int \<Rightarrow> string \<Rightarrow> request_book \<Rightarrow> grant_request list \<times> request_book" where
  "open_for_phone now phone b =
     (let b1 = sweep now b
      in (sort_key requested_at
            (filter (\<lambda>r. rq_status r = Open \<and> rq_phone_id r = phone) (dict_values (by_id b1))), b1))"

definition get_request :: "int \<Rightarrow> string \<Rightarrow> request_book \<Rightarrow> grant_request option \<times> request_book" where
  "get_request now rid b = (let b1 = sweep now b in (dict_get (by_id b1) rid, b1))"

definition map_requests :: "(grant_request \<Rightarrow> grant_request) \<Rightarrow> request_book \<Rightarrow> request_book" where
  "map_requests f b = b\<lparr>by_id := map (\<lambda>(i, r). (i, f r)) (by_id b)\<rparr>"

definition drop_text :: "grant_request \<Rightarrow> grant_request" where
  "drop_text r = r\<lparr>rq_purpose := None, rq_agent_name := None\<rparr>"

definition resolve_grant :: "request_slot \<Rightarrow> string \<Rightarrow> int \<Rightarrow> request_book \<Rightarrow> request_book" where
  "resolve_grant slot gid na = map_requests (\<lambda>r.
     if rq_status r = Open \<and> rq_action r = ActionGrant \<and> rq_slot r = slot
     then drop_text (r\<lparr>rq_status := Admitted, resolved_grant_id := Some gid, resolved_not_after := Some na\<rparr>) else r)"

definition resolve_revoke :: "string list \<Rightarrow> request_book \<Rightarrow> request_book" where
  "resolve_revoke gids = map_requests (\<lambda>r.
     if rq_status r = Open \<and> rq_action r = ActionRevoke \<and> rq_grant_id r \<in> Some ` set gids
     then drop_text (r\<lparr>rq_status := Revoked\<rparr>) else r)"

definition deny_request :: "int \<Rightarrow> string \<Rightarrow> request_book \<Rightarrow> bool \<times> request_book" where
  "deny_request now rid b =
     (let b1 = sweep now b
      in case dict_get (by_id b1) rid of
           None \<Rightarrow> (False, b1)
         | Some r \<Rightarrow> if rq_status r \<noteq> Open then (False, b1)
                     else (True, b1\<lparr>by_id := dict_set rid (drop_text (r\<lparr>rq_status := Denied\<rparr>)) (by_id b1)\<rparr>))"

definition book_size :: "request_book \<Rightarrow> nat" where
  "book_size b = length (by_id b)"

section \<open>Runs\<close>

text \<open>One call on the book at a clock reading; the history keeps the time and the subject of every
  raise that was granted a request.\<close>

datatype book_call =
    Raise string raise_args
  | OpenForPhone string
  | GetRequest string
  | ResolveGrant request_slot string int
  | ResolveRevoke "string list"
  | DenyRequest string

fun book_call_result :: "int \<Rightarrow> book_call \<Rightarrow> request_book \<Rightarrow> request_book" where
  "book_call_result now (Raise rid a) b = snd (raise_request now rid a b)"
| "book_call_result now (OpenForPhone p) b = snd (open_for_phone now p b)"
| "book_call_result now (GetRequest rid) b = snd (get_request now rid b)"
| "book_call_result now (ResolveGrant s g na) b = resolve_grant s g na b"
| "book_call_result now (ResolveRevoke gs) b = resolve_revoke gs b"
| "book_call_result now (DenyRequest rid) b = snd (deny_request now rid b)"

definition granted_raise :: "int \<Rightarrow> book_call \<Rightarrow> request_book \<Rightarrow> (int \<times> (string \<times> string)) list" where
  "granted_raise now c b = (case c of
     Raise rid a \<Rightarrow> (case fst (raise_request now rid a b) of Inl e \<Rightarrow> [] | Inr r \<Rightarrow> [(now, slot_subject (ra_slot a))])
   | _ \<Rightarrow> [])"

text \<open>Fresh identifiers: a raise never reuses one in the book.\<close>

definition fresh_call :: "book_call \<Rightarrow> request_book \<Rightarrow> bool" where
  "fresh_call c b = (case c of Raise rid a \<Rightarrow> rid \<notin> set (dict_keys (by_id b)) | _ \<Rightarrow> True)"

inductive book_run :: "int \<Rightarrow> (int \<times> (string \<times> string)) list \<Rightarrow> request_book \<Rightarrow> bool" where
  book_start: "book_run now [] empty_book"
| book_call: "book_run now h b \<Longrightarrow> now \<le> now' \<Longrightarrow> fresh_call c b \<Longrightarrow>
    book_run now' (h @ granted_raise now' c b) (book_call_result now' c b)"

section \<open>The invariant of the book\<close>

definition request_ok :: "string \<Rightarrow> grant_request \<Rightarrow> bool" where
  "request_ok i r \<longleftrightarrow> i = request_id r \<and> expires_at r = requested_at r + request_window_seconds
     \<and> (rq_status r \<in> {Admitted, Denied, Revoked} \<longrightarrow> rq_purpose r = None \<and> rq_agent_name r = None)"

definition one_open :: "(string \<times> grant_request) set \<Rightarrow> bool" where
  "one_open S \<longleftrightarrow> (\<forall>i r j q. (i, r) \<in> S \<longrightarrow> (j, q) \<in> S \<longrightarrow>
     rq_status r = Open \<longrightarrow> rq_status q = Open \<longrightarrow> rq_slot r = rq_slot q \<longrightarrow> i = j)"

definition book_inv :: "request_book \<Rightarrow> bool" where
  "book_inv b \<longleftrightarrow> dict_wf (by_id b) \<and> (\<forall>i r. (i, r) \<in> set (by_id b) \<longrightarrow> request_ok i r) \<and> one_open (set (by_id b))"

text \<open>A request that is changed in place keeps its identity and its times, and is only closed.\<close>

definition only_closes :: "grant_request \<Rightarrow> grant_request \<Rightarrow> bool" where
  "only_closes r r' \<longleftrightarrow> (rq_status r' = Open \<longrightarrow> rq_status r = Open) \<and> rq_slot r' = rq_slot r
     \<and> (\<forall>i. request_ok i r \<longrightarrow> request_ok i r')"

lemma one_open_mono: "one_open S \<Longrightarrow> T \<subseteq> S \<Longrightarrow> one_open T"
  unfolding one_open_def by (meson subsetD)

lemma map_requests_inv:
  assumes b: "book_inv b" and f: "\<And>r. only_closes r (f r)"
  shows "book_inv (map_requests f b)"
proof -
  have keys: "dict_keys (map (\<lambda>(i, r). (i, f r)) d) = dict_keys d" for d :: "(string, grant_request) dict"
    by auto
  have mem: "(i, r') \<in> set (by_id (map_requests f b)) \<Longrightarrow> \<exists>r. (i, r) \<in> set (by_id b) \<and> r' = f r" for i r'
    by (auto simp: map_requests_def)
  have "one_open (set (by_id (map_requests f b)))"
    using b f mem unfolding one_open_def book_inv_def only_closes_def by metis
  moreover have "request_ok i r'" if "(i, r') \<in> set (by_id (map_requests f b))" for i r'
    using mem[OF that] b f unfolding book_inv_def only_closes_def by blast
  moreover have "dict_wf (by_id (map_requests f b))"
  proof -
    have "by_id (map_requests f b) = map (\<lambda>(i, r). (i, f r)) (by_id b)" by (simp add: map_requests_def)
    then show ?thesis using b unfolding book_inv_def dict_wf_def by (simp only: keys)
  qed
  ultimately show ?thesis by (simp add: book_inv_def)
qed

lemma filter_book_inv: "book_inv b \<Longrightarrow> book_inv (b\<lparr>by_id := filter P (by_id b)\<rparr>)"
  using one_open_mono[of "set (by_id b)" "set (filter P (by_id b))"] by (simp add: book_inv_def)

lemma sweep_inv: "book_inv b \<Longrightarrow> book_inv (sweep now b)"
proof -
  assume "book_inv b"
  then have "book_inv (map_requests (sweep_one now) b)"
    by (rule map_requests_inv) (simp add: only_closes_def sweep_one_def request_ok_def)
  from filter_book_inv[OF this, of "\<lambda>(i, r). \<not> swept_out now r"]
  show ?thesis by (simp add: sweep_def map_requests_def)
qed

lemma set_book_inv:
  assumes b: "book_inv b" and r: "request_ok i r"
    and other: "\<And>j q. (j, q) \<in> set (by_id b) \<Longrightarrow> j \<noteq> i \<Longrightarrow> rq_status r = Open \<Longrightarrow> rq_status q = Open \<Longrightarrow> rq_slot q \<noteq> rq_slot r"
  shows "book_inv (b\<lparr>by_id := dict_set i r (by_id b)\<rparr>)"
proof -
  have wf: "dict_wf (by_id b)" "dict_wf (dict_set i r (by_id b))" using b by (simp_all add: book_inv_def)
  have mem: "(j, q) \<in> set (dict_set i r (by_id b)) \<longleftrightarrow> (j = i \<and> q = r) \<or> (j \<noteq> i \<and> (j, q) \<in> set (by_id b))" for j q
    by (simp add: dict_get_iff[OF wf(1), symmetric] dict_get_iff[OF wf(2), symmetric] dict_facts) blast
  have "one_open (set (dict_set i r (by_id b)))"
    using b other unfolding one_open_def book_inv_def mem by metis
  moreover have "request_ok j q" if "(j, q) \<in> set (dict_set i r (by_id b))" for j q
    using that b r unfolding mem book_inv_def by blast
  ultimately show ?thesis using wf by (simp add: book_inv_def)
qed

lemma raises_inv [simp]: "book_inv (b\<lparr>raises := x\<rparr>) = book_inv b"
  by (simp add: book_inv_def)

lemma sweep_raises [simp]: "raises (sweep now b) = raises b"
  by (simp add: sweep_def)

lemma raise_request_cases:
  fixes now rid a b
  defines "subj \<equiv> slot_subject (ra_slot a)" and "r \<equiv> new_request now rid a"
  shows "(\<exists>e. raise_request now rid a b = (Inl e, pruned now subj b))
    \<or> (length (recent_raises now subj b) < raises_per_hour
       \<and> (\<forall>q \<in> set (dict_values (by_id (sweep now b))). \<not> open_slot (ra_slot a) q)
       \<and> raise_request now rid a b = (Inr r, (pruned now subj b)\<lparr>
            raises := dict_set subj (recent_raises now subj b @ [now]) (raises (pruned now subj b)),
            by_id := dict_set rid r (by_id (pruned now subj b))\<rparr>))"
proof -
  have "by_id (pruned now subj b) = by_id (sweep now b)" by (simp add: pruned_def)
  then show ?thesis
    unfolding raise_request_def Let_def subj_def r_def list_ex_iff by (simp only: split: if_splits) force
qed

lemma raise_request_inv:
  assumes "book_inv b"
  shows "book_inv (snd (raise_request now rid a b))"
proof -
  let ?p = "pruned now (slot_subject (ra_slot a)) b"
  have p: "book_inv ?p" and ids: "by_id ?p = by_id (sweep now b)" using sweep_inv[OF assms] by (simp_all add: pruned_def)
  have ok: "request_ok rid (new_request now rid a)" by (simp add: request_ok_def new_request_def)
  show ?thesis
  proof (rule disjE[OF raise_request_cases[of now rid a b]])
    assume new: "length (recent_raises now (slot_subject (ra_slot a)) b) < raises_per_hour
       \<and> (\<forall>q \<in> set (dict_values (by_id (sweep now b))). \<not> open_slot (ra_slot a) q)
       \<and> raise_request now rid a b = (Inr (new_request now rid a), ?p\<lparr>
            raises := dict_set (slot_subject (ra_slot a)) (recent_raises now (slot_subject (ra_slot a)) b @ [now]) (raises ?p),
            by_id := dict_set rid (new_request now rid a) (by_id ?p)\<rparr>)"
    have "rq_slot q \<noteq> ra_slot a" if "(j, q) \<in> set (by_id ?p)" "rq_status q = Open" for j q
      using new that unfolding ids by (force simp: open_slot_def)
    then have "book_inv (?p\<lparr>by_id := dict_set rid (new_request now rid a) (by_id ?p)\<rparr>)"
      by (intro set_book_inv[OF p ok]) (simp add: new_request_def)
    then show ?thesis using new by (simp add: book_inv_def)
  qed (use p in auto)
qed

lemma deny_request_inv:
  assumes "book_inv b"
  shows "book_inv (snd (deny_request now rid b))"
proof (cases "dict_get (by_id (sweep now b)) rid")
  case None
  then show ?thesis using sweep_inv[OF assms] by (simp add: deny_request_def)
next
  case (Some r)
  have s: "book_inv (sweep now b)" by (rule sweep_inv[OF assms])
  then have "request_ok rid r" using dict_get_in_set[OF Some] by (simp add: book_inv_def)
  then have "request_ok rid (drop_text (r\<lparr>rq_status := Denied\<rparr>))" by (simp add: request_ok_def drop_text_def)
  from set_book_inv[OF s this] show ?thesis
    using Some s by (simp add: deny_request_def Let_def drop_text_def)
qed

lemma book_call_inv: "book_inv b \<Longrightarrow> book_inv (book_call_result now c b)"
proof (cases c)
  case (ResolveGrant s g na)
  assume "book_inv b"
  then show ?thesis unfolding ResolveGrant book_call_result.simps resolve_grant_def
    by (rule map_requests_inv) (simp add: only_closes_def drop_text_def request_ok_def)
next
  case (ResolveRevoke gs)
  assume "book_inv b"
  then show ?thesis unfolding ResolveRevoke book_call_result.simps resolve_revoke_def
    by (rule map_requests_inv) (simp add: only_closes_def drop_text_def request_ok_def)
qed (simp_all add: raise_request_inv deny_request_inv open_for_phone_def get_request_def Let_def sweep_inv)

lemma book_run_inv: "book_run now h b \<Longrightarrow> book_inv b"
proof (induction rule: book_run.induct)
  case (book_start now)
  show ?case by (simp add: book_inv_def empty_book_def one_open_def)
qed (simp add: book_call_inv)

section \<open>The rate of raises\<close>

definition subject_raises :: "(int \<times> (string \<times> string)) list \<Rightarrow> string \<times> string \<Rightarrow> int list" where
  "subject_raises h subj = map fst (filter (\<lambda>p. snd p = subj) h)"

definition in_hour :: "int \<Rightarrow> int \<Rightarrow> bool" where
  "in_hour t x \<longleftrightarrow> t - 3600 < x \<and> x \<le> t"

definition rate_inv :: "int \<Rightarrow> (int \<times> (string \<times> string)) list \<Rightarrow> request_book \<Rightarrow> bool" where
  "rate_inv now h b \<longleftrightarrow> (\<forall>subj. sorted (subject_raises h subj) \<and> (\<forall>x \<in> set (subject_raises h subj). x \<le> now)
     \<and> (\<exists>cut \<le> now - 3600. raise_times b subj = filter (\<lambda>x. cut < x) (subject_raises h subj))
     \<and> (\<forall>t. length (filter (in_hour t) (subject_raises h subj)) \<le> raises_per_hour))"

lemma dropWhile_sorted: "sorted xs \<Longrightarrow> dropWhile (\<lambda>x. x \<le> c) xs = filter (\<lambda>x. c < (x :: int)) xs"
proof (induction xs)
  case (Cons x xs)
  show ?case
  proof (cases "x \<le> c")
    case False
    then have "\<forall>y \<in> set xs. c < y" using Cons.prems by force
    then show ?thesis using False by simp
  qed (use Cons in simp)
qed simp

lemma recent_raises_filter:
  assumes "rate_inv now h b" "now \<le> now'"
  shows "recent_raises now' subj b = filter (\<lambda>x. now' - 3600 < x) (subject_raises h subj)"
proof -
  obtain cut where cut: "cut \<le> now - 3600" "raise_times b subj = filter (\<lambda>x. cut < x) (subject_raises h subj)"
    and s: "sorted (subject_raises h subj)" using assms(1) unfolding rate_inv_def by blast
  have "recent_raises now' subj b = filter (\<lambda>x. now' - 3600 < x) (filter (\<lambda>x. cut < x) (subject_raises h subj))"
    unfolding recent_raises_def cut(2) by (rule dropWhile_sorted) (simp add: sorted_wrt_filter s)
  also have "\<dots> = filter (\<lambda>x. now' - 3600 < x) (subject_raises h subj)"
    unfolding filter_filter by (rule filter_cong) (use cut(1) assms(2) in auto)
  finally show ?thesis .
qed

lemma rate_inv_later:
  assumes "rate_inv now h b" "now \<le> now'" "\<And>subj. raise_times b' subj = raise_times b subj"
  shows "rate_inv now' h b'"
  unfolding rate_inv_def
proof (intro allI conjI)
  fix subj
  show "sorted (subject_raises h subj)" "length (filter (in_hour t) (subject_raises h subj)) \<le> raises_per_hour" for t
    using assms(1) unfolding rate_inv_def by blast+
  show "\<forall>x \<in> set (subject_raises h subj). x \<le> now'" using assms(1,2) unfolding rate_inv_def by fastforce
  obtain cut where "cut \<le> now - 3600" "raise_times b subj = filter (\<lambda>x. cut < x) (subject_raises h subj)"
    using assms(1) unfolding rate_inv_def by blast
  then show "\<exists>cut \<le> now' - 3600. raise_times b' subj = filter (\<lambda>x. cut < x) (subject_raises h subj)"
    using assms(2,3) by (intro exI[of _ cut]) simp
qed

lemma raise_times_set: "raise_times (b\<lparr>raises := dict_set s ts d\<rparr>) subj =
    (if subj = s then ts else case dict_get d subj of None \<Rightarrow> [] | Some us \<Rightarrow> us)"
  by (simp add: raise_times_def dict_facts)

lemma rate_inv_pruned:
  assumes "rate_inv now h b" "now \<le> now'"
  shows "rate_inv now' h (pruned now' s b)"
proof -
  have later: "rate_inv now' h b" by (rule rate_inv_later[OF assms]) simp
  have "raise_times (pruned now' s b) subj = (if subj = s then recent_raises now' s b else raise_times b subj)" for subj
    by (simp add: pruned_def raise_times_set) (simp add: raise_times_def)
  then show ?thesis
    using later recent_raises_filter[OF assms] unfolding rate_inv_def by (metis order_refl)
qed

lemma rate_inv_raised:
  assumes inv: "rate_inv now h b" and t: "now \<le> now'" and few: "length (recent_raises now' s b) < raises_per_hour"
    and b': "\<And>subj. raise_times b' subj = (if subj = s then recent_raises now' s b @ [now'] else raise_times b subj)"
  shows "rate_inv now' (h @ [(now', s)]) b'"
  unfolding rate_inv_def
proof (intro allI)
  fix subj
  let ?H = "subject_raises h subj"
  have later: "rate_inv now' h b" by (rule rate_inv_later[OF inv t]) simp
  then have H: "sorted ?H" "\<forall>x \<in> set ?H. x \<le> now'" "\<And>u. length (filter (in_hour u) ?H) \<le> raises_per_hour"
    "\<exists>cut \<le> now' - 3600. raise_times b subj = filter (\<lambda>x. cut < x) ?H"
    unfolding rate_inv_def by blast+
  show "sorted (subject_raises (h @ [(now', s)]) subj)
     \<and> (\<forall>x \<in> set (subject_raises (h @ [(now', s)]) subj). x \<le> now')
     \<and> (\<exists>cut \<le> now' - 3600. raise_times b' subj = filter (\<lambda>x. cut < x) (subject_raises (h @ [(now', s)]) subj))
     \<and> (\<forall>u. length (filter (in_hour u) (subject_raises (h @ [(now', s)]) subj)) \<le> raises_per_hour)"
  proof (cases "subj = s")
    case False
    then have "subject_raises (h @ [(now', s)]) subj = ?H" by (auto simp: subject_raises_def)
    then show ?thesis using H b' False by auto
  next
    case True
    have app: "subject_raises (h @ [(now', s)]) subj = ?H @ [now']" using True by (simp add: subject_raises_def)
    have rec: "recent_raises now' s b = filter (\<lambda>x. now' - 3600 < x) ?H"
      using recent_raises_filter[OF inv t] True by simp
    have "length (filter (in_hour u) (?H @ [now'])) \<le> raises_per_hour" for u
    proof (cases "now' \<le> u")
      case le: True
      have "filter (in_hour u) ?H = filter (in_hour u) (filter (\<lambda>x. now' - 3600 < x) ?H)"
        unfolding filter_filter by (rule filter_cong) (use le in \<open>auto simp: in_hour_def\<close>)
      then have "length (filter (in_hour u) ?H) \<le> length (recent_raises now' s b)"
        unfolding rec by (simp only: length_filter_le)
      then show ?thesis using few by simp
    next
      case False
      then show ?thesis using H(3)[of u] by (simp add: in_hour_def)
    qed
    moreover have "raise_times b' subj = filter (\<lambda>x. now' - 3600 < x) (?H @ [now'])"
      using True rec b' by simp
    ultimately show ?thesis using H(1,2) unfolding app by (auto simp: sorted_append)
  qed
qed

lemma raise_times_by_id [simp]: "raise_times (b\<lparr>by_id := x\<rparr>) subj = raise_times b subj"
  by (simp add: raise_times_def)

lemma book_call_rate:
  assumes "rate_inv now h b" "now \<le> now'"
  shows "rate_inv now' (h @ granted_raise now' c b) (book_call_result now' c b)"
proof (cases "\<exists>rid a. c = Raise rid a")
  case True
  then obtain rid a where c: "c = Raise rid a" by blast
  let ?s = "slot_subject (ra_slot a)"
  let ?p = "pruned now' ?s b"
  show ?thesis
  proof (rule disjE[OF raise_request_cases[of now' rid a b]])
    assume "\<exists>e. raise_request now' rid a b = (Inl e, ?p)"
    then show ?thesis using rate_inv_pruned[OF assms, of ?s] by (auto simp: c granted_raise_def)
  next
    assume new: "length (recent_raises now' ?s b) < raises_per_hour
       \<and> (\<forall>q \<in> set (dict_values (by_id (sweep now' b))). \<not> open_slot (ra_slot a) q)
       \<and> raise_request now' rid a b = (Inr (new_request now' rid a), ?p\<lparr>
            raises := dict_set ?s (recent_raises now' ?s b @ [now']) (raises ?p),
            by_id := dict_set rid (new_request now' rid a) (by_id ?p)\<rparr>)"
    have "rate_inv now' (h @ [(now', ?s)]) (snd (raise_request now' rid a b))"
      by (rule rate_inv_raised[OF assms]) (use new in \<open>simp_all add: raise_times_def dict_facts pruned_def\<close>)
    then show ?thesis using new by (simp add: c granted_raise_def)
  qed
next
  case False
  have times: "raise_times (sweep now' b) subj = raise_times b subj"
    "raise_times (map_requests f b) subj = raise_times b subj" for subj f
    by (simp_all add: sweep_def map_requests_def)
  have "granted_raise now' c b = []" using False by (cases c) (simp_all add: granted_raise_def)
  moreover have "raise_times (book_call_result now' c b) subj = raise_times b subj" for subj
    using False by (cases c) (auto simp: times open_for_phone_def get_request_def Let_def resolve_grant_def
        resolve_revoke_def deny_request_def split: option.splits)
  ultimately show ?thesis using rate_inv_later[OF assms] by simp
qed

lemma book_run_rate: "book_run now h b \<Longrightarrow> rate_inv now h b"
proof (induction rule: book_run.induct)
  case (book_start now)
  show ?case by (auto simp: rate_inv_def subject_raises_def raise_times_def empty_book_def)
next
  case (book_call now h b now' c)
  then show ?case by (intro book_call_rate)
qed

section \<open>Properties\<close>



text \<open>C26: the life of a request. What a lookup shows at a clock reading is what the book held, marked
  expired once its window is over: a request shown open is inside its window, a resolved or expired
  one is at most one more window past it, its outcome is the one the book held, and a request the
  lookup no longer finds was either never in the book or is past both windows.\<close>

theorem get_request_life:
  assumes "dict_wf (by_id b)"
  shows "case fst (get_request now rid b) of
      None \<Rightarrow> (case dict_get (by_id b) rid of None \<Rightarrow> True | Some r \<Rightarrow> expires_at r + 300 \<le> now)
    | Some r \<Rightarrow> \<exists>r0. dict_get (by_id b) rid = Some r0 \<and> r = sweep_one now r0
        \<and> (if rq_status r = Open then r = r0 \<and> now < expires_at r else now < expires_at r + 300)
        \<and> (rq_status r0 \<noteq> Open \<longrightarrow> r = r0)"
proof -
  let ?d = "map (\<lambda>(i, r). (i, sweep_one now r)) (by_id b)"
  have "dict_keys ?d = dict_keys (by_id b)" by auto
  then have wf: "dict_wf ?d" using assms unfolding dict_wf_def by (simp only:)
  have "dict_get ?d rid = map_option (sweep_one now) (dict_get (by_id b) rid)"
    by (induction "by_id b") (auto split: if_splits, (simp add: map_of_map)+)
  moreover have "by_id (sweep now b) = filter (\<lambda>(i, r). \<not> swept_out now r) ?d" by (simp add: sweep_def)
  ultimately have "fst (get_request now rid b) = (case dict_get (by_id b) rid of None \<Rightarrow> None
      | Some r0 \<Rightarrow> if swept_out now (sweep_one now r0) then None else Some (sweep_one now r0))"
    by (simp only: get_request_def Let_def fst_conv dict_get_filter[OF wf]) (simp split: option.split)
  then show ?thesis
    by (cases "dict_get (by_id b) rid") (auto simp: swept_out_def sweep_one_def request_window_seconds_def)
qed

definition late_args :: raise_args where
  "late_args = \<lparr>ra_action = ActionGrant, ra_phone_id = ''ph'', ra_agent_id = ''ag'', ra_slot = (''App'', ''sub'', ''agent'', ''key''),
     ra_scope = ''chat'', ra_not_after = 9999, ra_purpose = Some ''why'', ra_agent_name = Some ''bot'',
     ra_grant_id = None, ra_admitted_at = None\<rparr>"

text \<open>A resolution does not look at the clock. A grant that is admitted after a request's window
  resolves it as admitted when no other call has swept the book in between, so the platform reads
  admitted where the same calls in another order read expired; and an expired request keeps the
  platform's words until it is dropped, unlike one that was resolved.\<close>

theorem late_resolution:
  "map_option rq_status (fst (get_request 1400 ''r1''
      (resolve_grant (''App'', ''sub'', ''agent'', ''key'') ''g'' 9999 (snd (raise_request 1000 ''r1'' late_args empty_book))))) = Some Admitted
   \<and> map_option rq_status (fst (get_request 1400 ''r1''
      (resolve_grant (''App'', ''sub'', ''agent'', ''key'') ''g'' 9999
        (snd (get_request 1400 ''r1'' (snd (raise_request 1000 ''r1'' late_args empty_book))))))) = Some Expired
   \<and> map_option rq_purpose (fst (get_request 1400 ''r1'' (snd (raise_request 1000 ''r1'' late_args empty_book)))) = Some (Some ''why'')"
  by (intro conjI; code_simp)

section \<open>Examples\<close>

lemma sample_run: "book_run 1000 [(1000, (''App'', ''sub''))] (snd (raise_request 1000 ''r1'' late_args empty_book))"
proof -
  have "granted_raise 1000 (Raise ''r1'' late_args) empty_book = [(1000, (''App'', ''sub''))]"
    by (simp add: granted_raise_def late_args_def raise_request_def Let_def recent_raises_def raise_times_def
        empty_book_def raises_per_hour_def pruned_def sweep_def slot_subject_def)
  then show ?thesis
    using book_run.book_call[OF book_run.book_start[of 1000], of 1000 "Raise ''r1'' late_args"]
    by (simp add: fresh_call_def empty_book_def)
qed



theorem get_request_life_witness:
  "case fst (get_request 1400 ''r1'' (snd (raise_request 1000 ''r1'' late_args empty_book))) of
     None \<Rightarrow> False | Some r \<Rightarrow> rq_status r \<noteq> Open \<and> 1400 < expires_at r + 300"
proof -
  let ?b = "snd (raise_request 1000 ''r1'' late_args empty_book)"
  have b: "by_id ?b = [(''r1'', new_request 1000 ''r1'' late_args)]"
    by (simp add: raise_request_def Let_def recent_raises_def raise_times_def
        empty_book_def raises_per_hour_def pruned_def sweep_def)
  then have "dict_wf (by_id ?b)" by (simp add: dict_wf_def)
  from get_request_life[OF this, of 1400 "''r1''"] show ?thesis
    by (auto simp: b new_request_def request_window_seconds_def sweep_one_def split: option.splits if_splits)
qed

end
