(* ===== verification/ActRecord.thy ===== *)
theory ActRecord
  imports Records Capability Connections
begin

text \<open>
  \<^verbatim>\<open>src/recto/connections/act_record.py\<close> and \<^verbatim>\<open>src/recto/connections/act_set.py\<close>: the record of one
  act on a connection, the sentence the phone's card shows for it, the admission of a grant for
  exactly that record, and the storing of a value whose digest the record signs. \<open>ActTimeRange\<close> is
  the exception \<open>time.gmtime\<close> raises beyond the years of a 32-bit \<open>tm_year\<close>; \<open>ActStore\<close> carries the
  exceptions of the store that are let through.
\<close>

datatype act_refusal =
    ActFieldEmpty string
  | ActKeyMalformed
  | ActVerbUnknown
  | ActNotAfterMalformed
  | ActValueMalformed
  | ActFieldsUnexpected
  | ActPurposeTooLong
  | ActActionNotAdmitted
  | ActGroupsNotAdmitted
  | ActNotSingleUse
  | ActAudienceMismatch
  | ActWindowExceedsCeiling
  | ActTupleMismatch
  | ActPayloadMismatch
  | ActPurposeMismatch
  | ActServiceDenied
  | ActScopeNotAdmitted
  | ActProfileNotAdmitted
  | ValueNotAdmitted
  | ValueMissing
  | ValueNotString
  | ValueEmpty
  | ValueTooLarge
  | ValueFingerprintMismatch
  | ValueStoreFailed
  | ActTimeRange
  | ActStore conn_error

definition act_actions :: "(string, string) dict" where
  "act_actions = [(''enable'', ''connections:enable''), (''disable'', ''connections:disable''),
     (''delete'', ''connections:delete''), (''set'', ''connections:set'')]"

definition action_prefix :: string where "action_prefix = ''connections:''"
definition set_verb :: string where "set_verb = ''set''"
definition act_record_window_seconds :: int where "act_record_window_seconds = 300"
definition purpose_max_chars :: nat where "purpose_max_chars = 240"
definition value_max_bytes :: nat where "value_max_bytes = 16 * 1024"

definition gmtime_max :: int where "gmtime_max = 67768036191676799"

section \<open>The record\<close>

record act_record =
  ac_bootloader_id :: string
  ac_service :: string
  ac_key :: string
  ac_verb :: string
  ac_not_after :: int
  ac_value_sha256 :: "string option"

definition act_action :: "act_record \<Rightarrow> string" where
  "act_action r = (case dict_get act_actions (ac_verb r) of None \<Rightarrow> [] | Some a \<Rightarrow> a)"

definition value_fingerprint :: "act_record \<Rightarrow> string" where
  "value_fingerprint r = (case ac_value_sha256 r of None \<Rightarrow> ''None'' | Some h \<Rightarrow> ''sha256:'' @ take 12 h)"

text \<open>\<open>str.upper\<close> on the verbs, which are lowercase ASCII.\<close>

definition verb_upper :: "string \<Rightarrow> string" where
  "verb_upper = map (\<lambda>c. if ascii_lower c then char_of (code c - 32) else c)"

definition act_purpose :: "act_record \<Rightarrow> string" where
  "act_purpose r = ''Vault '' @ verb_upper (ac_verb r) @ '': '' @ ac_service r @ ''/'' @ ac_key r
     @ (if ac_verb r = set_verb then '' = '' @ value_fingerprint r @ ''...'' else [])
     @ '' on '' @ ac_bootloader_id r @ '' - until '' @ utc_minute (ac_not_after r)"

definition padded_or_empty :: "pyval \<Rightarrow> bool" where
  "padded_or_empty v \<longleftrightarrow> \<not> is_str v \<or> strip (the_str v) = [] \<or> the_str v \<noteq> strip (the_str v)"

text \<open>The check of the digest: required for a set, absent for every other verb.\<close>

definition act_value_check :: "string \<Rightarrow> pyval \<Rightarrow> act_refusal + string option" where
  "act_value_check verb v =
     (if verb = set_verb then
        (if v = PNone \<or> v = PStr [] then Inl (ActFieldEmpty ''value_sha256'')
         else if \<not> is_str v \<or> \<not> fullmatch_class hex_lower 64 64 (the_str v) then Inl ActValueMalformed
         else Inr (Some (the_str v)))
      else if v \<noteq> PNone then Inl ActFieldsUnexpected else Inr None)"

definition act_init :: "pyval \<Rightarrow> pyval \<Rightarrow> pyval \<Rightarrow> pyval \<Rightarrow> pyval \<Rightarrow> pyval \<Rightarrow> act_refusal + act_record" where
  "act_init bid svc key verb na v =
     (if padded_or_empty bid then Inl (ActFieldEmpty ''bootloader_id'')
      else if padded_or_empty svc then Inl (ActFieldEmpty ''service'')
      else if padded_or_empty key then Inl (ActFieldEmpty ''key'')
      else if padded_or_empty verb then Inl (ActFieldEmpty ''verb'')
      else if normalize_connection_key key \<noteq> Inr (the_str key) then Inl ActKeyMalformed
      else if dict_get act_actions (the_str verb) = None then Inl ActVerbUnknown
      else if is_bool na \<or> \<not> is_int na \<or> the_int na \<le> 0 then Inl ActNotAfterMalformed
      else bind_err (act_value_check (the_str verb) v) (\<lambda>digest.
        let r = \<lparr>ac_bootloader_id = the_str bid, ac_service = the_str svc, ac_key = the_str key,
                 ac_verb = the_str verb, ac_not_after = the_int na, ac_value_sha256 = digest\<rparr>
        in if the_int na > gmtime_max then Inl ActTimeRange
           else if length (act_purpose r) > purpose_max_chars then Inl ActPurposeTooLong
           else Inr r))"

definition act_to_dict :: "act_record \<Rightarrow> (string, pyval) dict" where
  "act_to_dict r = [(''bootloader_id'', PStr (ac_bootloader_id r)), (''key'', PStr (ac_key r)),
     (''not_after'', PInt (ac_not_after r)), (''service'', PStr (ac_service r)), (''verb'', PStr (ac_verb r))]
     @ (if ac_verb r = set_verb then
          [(''value_sha256'', case ac_value_sha256 r of None \<Rightarrow> PNone | Some h \<Rightarrow> PStr h)] else [])"

definition act_canonical :: "act_record \<Rightarrow> bytes" where
  "act_canonical r = canonical_json (act_to_dict r)"

definition act_fingerprint :: "act_record \<Rightarrow> string" where
  "act_fingerprint r = hexlify (sha256 (act_canonical r))"

definition act_record_fields :: "string list" where
  "act_record_fields = [''bootloader_id'', ''key'', ''not_after'', ''service'', ''verb'']"

definition set_record_fields :: "string list" where
  "set_record_fields = [''bootloader_id'', ''key'', ''not_after'', ''service'', ''value_sha256'', ''verb'']"

definition act_from_dict :: "pyval \<Rightarrow> act_refusal + act_record" where
  "act_from_dict v =
     (if \<not> is_dict v then Inl (ActFieldEmpty ''the record must be an object'') else
      let d = the_dict v; allowed = (if get d ''verb'' = PStr set_verb then set_record_fields else act_record_fields)
      in if \<not> set (dict_keys d) \<subseteq> set allowed then Inl ActFieldsUnexpected
         else act_init (get d ''bootloader_id'') (get d ''service'') (get d ''key'') (get d ''verb'')
                (get d ''not_after'') (get d ''value_sha256''))"

section \<open>The grant\<close>

definition names_connection_act :: "capability_claims \<Rightarrow> bool" where
  "names_connection_act c \<longleftrightarrow>
     list_ex (\<lambda>a. startswith a action_prefix) (allow_actions (cap c) @ deny_actions (cap c))"

definition scope_otherwise_empty :: "capability_scope \<Rightarrow> bool" where
  "scope_otherwise_empty sc \<longleftrightarrow> env sc = [] \<and> repos sc = []
     \<and> list_all (\<lambda>v. v \<in> set [PNone, PList [], PDict [], PStr []])
         [create_for_owner sc, chat_room_id sc, target_user_id sc, pairing_code sc]"

definition verify_act_grant :: "capability_claims \<Rightarrow> act_record \<Rightarrow> string \<Rightarrow> bool \<Rightarrow> act_refusal + string" where
  "verify_act_grant c r bid admit_set =
     (let k = cap c; allowed = allow_actions k; pinned = payload_sha256 (scope k)
      in if groups k \<noteq> [] then Inl ActGroupsNotAdmitted
         else if length allowed \<noteq> 1 \<or> deny_actions k \<noteq> [] \<or> \<not> startswith (hd allowed) action_prefix then Inl ActActionNotAdmitted
         else if hd allowed \<notin> set (dict_values act_actions) then Inl ActActionNotAdmitted
         else if hd allowed = ''connections:set'' \<and> \<not> admit_set then Inl ActActionNotAdmitted
         else if \<not> eq_int (max_uses c) 1 then Inl ActNotSingleUse
         else if parent_profile c \<noteq> PNone then Inl ActProfileNotAdmitted
         else if aud c \<noteq> [bid] then Inl ActAudienceMismatch
         else if expiry c - iat c > act_record_window_seconds \<or> expiry c \<le> iat c then Inl ActWindowExceedsCeiling
         else if hd allowed \<noteq> act_action r then Inl ActTupleMismatch
         else if ac_bootloader_id r \<noteq> bid then Inl ActTupleMismatch
         else if ac_not_after r \<noteq> expiry c then Inl ActTupleMismatch
         else if \<not> is_str pinned \<or> py_lower (strip (the_str pinned)) \<noteq> act_fingerprint r then Inl ActPayloadMismatch
         else if purpose c \<noteq> act_purpose r then Inl ActPurposeMismatch
         else if services (scope k) \<noteq> [ac_service r] then Inl ActServiceDenied
         else if \<not> scope_otherwise_empty (scope k) then Inl ActScopeNotAdmitted
         else Inr (act_fingerprint r))"

section \<open>Storing a value\<close>

definition check_act_value :: "act_record \<Rightarrow> pyval \<Rightarrow> act_refusal + string option" where
  "check_act_value r v =
     (if ac_verb r \<noteq> set_verb then (if v \<noteq> PNone then Inl ValueNotAdmitted else Inr None)
      else if v = PNone then Inl ValueMissing
      else if \<not> is_str v then Inl ValueNotString
      else if the_str v = [] then Inl ValueEmpty
      else if length (the_str v) > value_max_bytes then Inl ValueTooLarge
      else if length (utf8 (the_str v)) > value_max_bytes then Inl ValueTooLarge
      else if hexlify (sha256 (utf8 (the_str v))) \<noteq> (case ac_value_sha256 r of None \<Rightarrow> [] | Some h \<Rightarrow> h)
        then Inl ValueFingerprintMismatch
      else Inr (Some (the_str v)))"

definition apply_set ::
  "'v writable_source \<Rightarrow> int \<Rightarrow> act_record \<Rightarrow> pyval \<Rightarrow> blob \<times> 'v \<Rightarrow> act_refusal + connection_meta \<times> blob \<times> 'v" where
  "apply_set src now r v st =
     bind_err (check_act_value r v) (\<lambda>checked. case checked of
       None \<Rightarrow> Inl ValueNotAdmitted
     | Some x \<Rightarrow>
        (case set_connection src now \<lparr>rq_service = ac_service r, rq_key = ac_key r, rq_display_name = None,
           rq_category = None, rq_secret = Some x, rq_config = None, rq_enabled = None, rq_health_url = None\<rparr> st of
           Inr res \<Rightarrow> Inr res
         | Inl (ConnSecret e) \<Rightarrow> Inl (if e = SecretDecodeError then ActStore (ConnSecret e) else ValueStoreFailed)
         | Inl e \<Rightarrow> Inl (ActStore e)))"

section \<open>The canonical form\<close>

definition act_ok :: "act_record \<Rightarrow> bool" where
  "act_ok r \<longleftrightarrow> int_prints (ac_not_after r) \<and> (ac_value_sha256 r \<noteq> None \<longleftrightarrow> ac_verb r = set_verb)"

lemma act_canonical_inj:
  assumes "act_ok r" "act_ok s" "act_canonical r = act_canonical s"
  shows "r = s"
proof -
  have flat: "distinct (map fst (act_to_dict x)) \<and> (\<forall>kv \<in> set (act_to_dict x). scalar (snd kv))" if "act_ok x" for x
    using that by (auto simp: act_to_dict_def act_ok_def split: option.split)
  have get: "dict_get (act_to_dict r) k = dict_get (act_to_dict s) k" for k
    using assms(3) flat[OF assms(1)] flat[OF assms(2)] unfolding act_canonical_def
    by (intro canonical_json_get) blast+
  have "ac_bootloader_id r = ac_bootloader_id s" "ac_key r = ac_key s" "ac_not_after r = ac_not_after s"
    "ac_service r = ac_service s" and verb: "ac_verb r = ac_verb s"
    using get[of "''bootloader_id''"] get[of "''key''"] get[of "''not_after''"] get[of "''service''"] get[of "''verb''"]
    by (simp_all add: act_to_dict_def)
  moreover have "ac_value_sha256 r = ac_value_sha256 s"
    using get[of "''value_sha256''"] verb assms(1,2)
    by (auto simp: act_to_dict_def act_ok_def split: if_splits option.splits)
  ultimately show ?thesis by simp
qed

interpretation acts: canonical_record sha256 act_canonical act_ok
  by unfold_locales (rule act_canonical_inj)

lemma acts_fp: "acts.fp = act_fingerprint"
  by (rule ext) (simp add: acts.fp_def act_fingerprint_def)

lemma act_value_check_Inr:
  "act_value_check verb v = Inr x \<Longrightarrow> (x \<noteq> None \<longleftrightarrow> verb = set_verb)
     \<and> (\<forall>h. x = Some h \<longrightarrow> fullmatch_class hex_lower 64 64 h)"
  by (auto simp: act_value_check_def split: if_splits)

text \<open>What the constructor guarantees of a record.\<close>

definition act_wf :: "act_record \<Rightarrow> bool" where
  "act_wf r \<longleftrightarrow> connection_key (ac_key r) \<and> ac_verb r \<in> set (dict_keys act_actions)
     \<and> strip (ac_service r) = ac_service r \<and> ac_service r \<noteq> [] \<and> strip (ac_bootloader_id r) = ac_bootloader_id r
     \<and> ac_bootloader_id r \<noteq> [] \<and> 0 < ac_not_after r \<and> ac_not_after r \<le> gmtime_max
     \<and> (ac_value_sha256 r \<noteq> None \<longleftrightarrow> ac_verb r = set_verb)
     \<and> (\<forall>h. ac_value_sha256 r = Some h \<longrightarrow> fullmatch_class hex_lower 64 64 h) \<and> length (act_purpose r) \<le> 240"

lemma act_init_wf:
  assumes "act_init bid svc key verb na v = Inr r"
  shows "act_wf r"
proof -
  obtain digest where digest: "act_value_check (the_str verb) v = Inr digest"
    and r: "r = \<lparr>ac_bootloader_id = the_str bid, ac_service = the_str svc, ac_key = the_str key,
                 ac_verb = the_str verb, ac_not_after = the_int na, ac_value_sha256 = digest\<rparr>"
    and clean: "\<not> padded_or_empty bid" "\<not> padded_or_empty svc"
    and key: "normalize_connection_key key = Inr (the_str key)"
    and verb: "dict_get act_actions (the_str verb) \<noteq> None"
    and time: "0 < the_int na" "the_int na \<le> gmtime_max" and len: "length (act_purpose r) \<le> purpose_max_chars"
    using assms by (auto simp: act_init_def bind_err_Inr Let_def simp del: dict_get_iff split: if_splits)
  have "the_str verb \<in> set (dict_keys act_actions)"
    using verb by (auto simp: map_of_eq_None_iff)
  then show ?thesis
    using act_value_check_Inr[OF digest] clean normalize_shape[OF key] time len
    by (auto simp: act_wf_def r padded_or_empty_def purpose_max_chars_def simp del: split_paired_All)
qed

lemma verify_act_grant_Inr:
  "verify_act_grant c r bid admit_set = Inr fp \<longleftrightarrow>
     groups (cap c) = [] \<and> allow_actions (cap c) = [act_action r] \<and> deny_actions (cap c) = []
     \<and> act_action r \<in> set (dict_values act_actions) \<and> (act_action r = ''connections:set'' \<longrightarrow> admit_set)
     \<and> eq_int (max_uses c) 1 \<and> parent_profile c = PNone \<and> aud c = [bid]
     \<and> iat c < expiry c \<and> expiry c - iat c \<le> 300
     \<and> ac_bootloader_id r = bid \<and> ac_not_after r = expiry c
     \<and> (\<exists>p. payload_sha256 (scope (cap c)) = PStr p \<and> py_lower (strip p) = act_fingerprint r)
     \<and> purpose c = act_purpose r \<and> services (scope (cap c)) = [ac_service r]
     \<and> scope_otherwise_empty (scope (cap c)) \<and> fp = act_fingerprint r"
proof -
  have one: "length xs = 1 \<and> hd xs = a \<longleftrightarrow> xs = [a]" for xs :: "string list" and a
    by (cases xs) auto
  have pin: "is_str v \<and> py_lower (strip (the_str v)) = f \<longleftrightarrow> (\<exists>p. v = PStr p \<and> py_lower (strip p) = f)" for v f
    by (cases v) auto
  have pre: "\<And>a. a \<in> set (dict_values act_actions) \<Longrightarrow> startswith a action_prefix"
    by (auto simp: act_actions_def action_prefix_def startswith_def)
  let ?k = "cap c"
  have step: "(if b then Inl e else x) = Inr fp \<longleftrightarrow> \<not> b \<and> x = Inr fp" for b e and x :: "act_refusal + string"
    by simp
  have ret: "(Inr x :: act_refusal + string) = Inr fp \<longleftrightarrow> fp = x" for x
    by auto
  let ?a = "allow_actions ?k"
  have chain: "verify_act_grant c r bid admit_set = Inr fp \<longleftrightarrow>
     \<not> groups ?k \<noteq> [] \<and> \<not> (length ?a \<noteq> 1 \<or> deny_actions ?k \<noteq> [] \<or> \<not> startswith (hd ?a) action_prefix)
     \<and> \<not> hd ?a \<notin> set (dict_values act_actions) \<and> \<not> (hd ?a = ''connections:set'' \<and> \<not> admit_set)
     \<and> \<not> \<not> eq_int (max_uses c) 1 \<and> \<not> parent_profile c \<noteq> PNone \<and> \<not> aud c \<noteq> [bid]
     \<and> \<not> (expiry c - iat c > 300 \<or> expiry c \<le> iat c) \<and> \<not> hd ?a \<noteq> act_action r
     \<and> \<not> ac_bootloader_id r \<noteq> bid \<and> \<not> ac_not_after r \<noteq> expiry c
     \<and> \<not> (\<not> is_str (payload_sha256 (scope ?k)) \<or> py_lower (strip (the_str (payload_sha256 (scope ?k)))) \<noteq> act_fingerprint r)
     \<and> \<not> purpose c \<noteq> act_purpose r \<and> \<not> services (scope ?k) \<noteq> [ac_service r]
     \<and> \<not> \<not> scope_otherwise_empty (scope ?k) \<and> fp = act_fingerprint r"
    by (simp only: verify_act_grant_def Let_def step ret act_record_window_seconds_def)
  show ?thesis
  proof (cases "?a = [act_action r]")
    case True
    then show ?thesis
      unfolding chain using pin[of "payload_sha256 (scope ?k)" "act_fingerprint r"] pre[of "act_action r"]
      by (simp only: True list.sel length_Cons list.size One_nat_def de_Morgan_disj not_le not_less not_not) blast
  next
    case False
    then show ?thesis unfolding chain using one[of ?a "act_action r"] by blast
  qed
qed

lemma act_wf_ok: "act_wf r \<Longrightarrow> act_ok r"
proof -
  assume wf: "act_wf r"
  then have "nat (ac_not_after r) < 10 ^ 17" by (auto simp: act_wf_def gmtime_max_def)
  then have "length (str_nat (nat (ac_not_after r))) \<le> 17" by (rule length_str_nat_le) simp
  then show ?thesis using wf by (auto simp: act_ok_def act_wf_def int_prints_def str_int_def)
qed

section \<open>Storing exactly the signed value\<close>

lemma check_act_value_Inr:
  assumes "check_act_value r v = Inr (Some x)"
  shows "v = PStr x \<and> x \<noteq> [] \<and> length (utf8 x) \<le> value_max_bytes \<and> ac_verb r = set_verb
    \<and> (ac_value_sha256 r = None \<or> ac_value_sha256 r = Some (hexlify (sha256 (utf8 x))))"
  using assms by (cases v) (auto simp: check_act_value_def split: if_splits option.splits)

definition act_request :: "act_record \<Rightarrow> string \<Rightarrow> connection_request" where
  "act_request r x = \<lparr>rq_service = ac_service r, rq_key = ac_key r, rq_display_name = None,
     rq_category = None, rq_secret = Some x, rq_config = None, rq_enabled = None, rq_health_url = None\<rparr>"

lemma apply_set_Inr:
  assumes "apply_set src now r v st = Inr res"
  obtains x where "check_act_value r v = Inr (Some x)" "set_connection src now (act_request r x) st = Inr res"
proof -
  obtain c where c: "check_act_value r v = Inr c" and rest: "(case c of None \<Rightarrow> Inl ValueNotAdmitted
     | Some x \<Rightarrow> (case set_connection src now (act_request r x) st of
           Inr res \<Rightarrow> Inr res
         | Inl (ConnSecret e) \<Rightarrow> Inl (if e = SecretDecodeError then ActStore (ConnSecret e) else ValueStoreFailed)
         | Inl e \<Rightarrow> Inl (ActStore e))) = Inr res"
    using assms unfolding apply_set_def act_request_def[symmetric] bind_err_Inr by blast
  obtain x where x: "c = Some x" using rest by (cases c) simp_all
  have "set_connection src now (act_request r x) st = Inr res"
    using rest unfolding x by (auto split: sum.splits conn_error.splits)
  then show thesis using that c x by simp
qed

section \<open>Properties\<close>

definition sample_act :: act_record where
  "sample_act = \<lparr>ac_bootloader_id = ''vault'', ac_service = ''App'', ac_key = ''podcasts'', ac_verb = ''set'',
     ac_not_after = 1100, ac_value_sha256 = Some (hexlify (sha256 (utf8 ''s3cret'')))\<rparr>"

lemma sample_act_init:
  "act_init (PStr ''vault'') (PStr ''App'') (PStr ''podcasts'') (PStr ''set'') (PInt 1100)
     (PStr (hexlify (sha256 (utf8 ''s3cret'')))) = Inr sample_act"
proof -
  let ?h = "hexlify (sha256 (utf8 ''s3cret''))"
  have h: "fullmatch_class hex_lower 64 64 ?h" by (rule sha.hex_lower_digest)
  then have "length ?h = 64" by (simp add: fullmatch_class_def)
  moreover have "utc_minute 1100 = ''1970-01-01 00:18Z''" by code_simp
  ultimately have len: "length (act_purpose sample_act) \<le> purpose_max_chars"
    by (simp add: act_purpose_def sample_act_def value_fingerprint_def purpose_max_chars_def set_verb_def verb_upper_def)
  have digest: "act_value_check ''set'' (PStr ?h) = Inr (Some ?h)"
    using h \<open>length ?h = 64\<close> by (cases "?h = []") (simp_all add: act_value_check_def set_verb_def del: length_hexlify)
  have key: "normalize_connection_key (PStr ''podcasts'') = Inr ''podcasts''" by code_simp
  have plain: "\<not> padded_or_empty (PStr ''vault'')" "\<not> padded_or_empty (PStr ''App'')"
    "\<not> padded_or_empty (PStr ''podcasts'')" "\<not> padded_or_empty (PStr ''set'')"
    by code_simp+
  have "\<lparr>ac_bootloader_id = ''vault'', ac_service = ''App'', ac_key = ''podcasts'', ac_verb = ''set'',
     ac_not_after = 1100, ac_value_sha256 = Some ?h\<rparr> = sample_act" by (simp add: sample_act_def)
  then show ?thesis using plain len
    by (simp add: act_init_def key digest act_actions_def gmtime_max_def Let_def)
qed

definition sample_act_claims :: capability_claims where
  "sample_act_claims = \<lparr>iss = ''phone'', sub = ''user'', aud = [''vault''], iat = 1000, nbf = 1000, expiry = 1100,
     jti = ''j1'', cap = \<lparr>tier = 0, registry_version = ''v1'', groups = [],
       scope = empty_scope\<lparr>services := [''App''], payload_sha256 := PStr (act_fingerprint sample_act)\<rparr>,
       allow_actions = [''connections:set''], deny_actions = [], limits = empty_limits\<rparr>,
     purpose = act_purpose sample_act, parent_cap = PNone, max_uses = PInt 1, parent_profile = PNone\<rparr>"

lemma sample_act_admitted:
  "verify_act_grant sample_act_claims sample_act ''vault'' True = Inr (act_fingerprint sample_act)"
  unfolding verify_act_grant_Inr
  by (simp add: sample_act_claims_def sample_act_def act_action_def act_actions_def scope_otherwise_empty_def
      empty_scope_def act_fingerprint_def)

text \<open>C23: one grant admits one connection act. If the same claims are admitted for two well-formed
  records, the records agree in every field, the digest of the value included, or their canonical
  bytes are an explicit SHA-256 collision.\<close>

theorem one_grant_one_act:
  assumes "verify_act_grant c r bid a = Inr f" and "verify_act_grant c s bid' a' = Inr g"
    and "act_init b1 v1 k1 e1 n1 d1 = Inr r" and "act_init b2 v2 k2 e2 n2 d2 = Inr s"
  shows "r = s \<or> sha_collision (act_canonical r) (act_canonical s)"
proof -
  have "act_fingerprint r = act_fingerprint s" using assms(1,2) by (auto simp: verify_act_grant_Inr)
  then show ?thesis
    using acts.fp_binds[OF act_wf_ok act_wf_ok] act_init_wf[OF assms(3)] act_init_wf[OF assms(4)]
    by (simp add: acts_fp sha_collision_def)
qed

theorem one_grant_one_act_witness:
  "sample_act = sample_act \<or> sha_collision (act_canonical sample_act) (act_canonical sample_act)"
  by (rule one_grant_one_act[OF sample_act_admitted sample_act_admitted sample_act_init sample_act_init])

text \<open>What an admitted connection grant has shown: one connection action, no groups and no denial,
  one use, this bootloader and only it, a window of at most 300 seconds that ends when the record
  does, the record's fingerprint, purpose and service, and a scope empty besides; a set only where
  the caller stores sets.\<close>

theorem act_grant_admission:
  "(\<exists>f. verify_act_grant c r bid admit_set = Inr f) \<longleftrightarrow>
     groups (cap c) = [] \<and> allow_actions (cap c) = [act_action r] \<and> deny_actions (cap c) = []
     \<and> act_action r \<in> set (dict_values act_actions) \<and> (if act_action r = ''connections:set'' then admit_set else True)
     \<and> eq_int (max_uses c) 1 \<and> parent_profile c = PNone \<and> aud c = [bid]
     \<and> iat c < expiry c \<and> expiry c - iat c \<le> 300
     \<and> ac_bootloader_id r = bid \<and> ac_not_after r = expiry c
     \<and> (\<exists>p. payload_sha256 (scope (cap c)) = PStr p \<and> py_lower (strip p) = hexlify (sha256 (act_canonical r)))
     \<and> purpose c = act_purpose r \<and> services (scope (cap c)) = [ac_service r]
     \<and> scope_otherwise_empty (scope (cap c))"
  unfolding verify_act_grant_Inr act_fingerprint_def by (cases "act_action r = ''connections:set''") auto

text \<open>C22: a set stores exactly the value the phone signed. When \<open>apply_set\<close> succeeds on a record the
  constructor made, the value given is a non-empty text of at most 16384 bytes whose SHA-256 is the
  digest in the record; the secret of the record's service and key is that text, every other secret
  of every service is as it was, and of an existing row only the flag, the two times and nothing
  else change.\<close>

theorem apply_set_stores_signed:
  assumes "act_init p0 p1 p2 p3 p4 p5 = Inr r"
    and "apply_set file_backed now r v (b, vault) = Inr (m, b', vault')"
  shows "\<exists>x s s'. v = PStr x \<and> x \<noteq> [] \<and> length (utf8 x) \<le> 16384
    \<and> ac_value_sha256 r = Some (hexlify (sha256 (utf8 x)))
    \<and> (\<forall>service key. get_connection_secret file_backed vault' service key =
         (if service = ac_service r \<and> normalize_connection_key (PStr key) = Inr (ac_key r)
          then Inr (Some x) else get_connection_secret file_backed vault service key))
    \<and> load_connections b = Inr s \<and> load_connections b' = Inr s'
    \<and> (\<forall>i. dict_get s' i = (if i = (ac_service r, ac_key r) then Some (norm_meta m)
                             else map_option norm_meta (dict_get s i)))
    \<and> (case dict_get s (ac_service r, ac_key r) of
         None \<Rightarrow> conn_enabled m \<and> conn_category m = ''uncategorized'' \<and> conn_display_name m = PStr (ac_key r)
       | Some old \<Rightarrow> m = old\<lparr>conn_service := ac_service r, conn_key := ac_key r, conn_has_secret := True,
                             conn_updated_at := now, conn_rotated_at := now\<rparr>)"
proof -
  obtain x where check: "check_act_value r v = Inr (Some x)"
    and set: "set_connection file_backed now (act_request r x) (b, vault) = Inr (m, b', vault')"
    by (rule apply_set_Inr[OF assms(2)])
  have wf: "act_wf r" by (rule act_init_wf[OF assms(1)])
  have x: "v = PStr x" "x \<noteq> []" "length (utf8 x) \<le> 16384" "ac_value_sha256 r = Some (hexlify (sha256 (utf8 x)))"
    using check_act_value_Inr[OF check] wf by (auto simp: act_wf_def value_max_bytes_def)
  have rq: "rq_service (act_request r x) = ac_service r" "new_secret (rq_secret (act_request r x)) = Some x"
    using x(2) by (simp_all add: act_request_def new_secret_def)
  obtain s s' where s: "load_connections b = Inr s" "load_connections b' = Inr s'"
    and look: "\<forall>i. dict_get s' i = (if i = (ac_service r, conn_key m) then Some (norm_meta m)
                             else map_option norm_meta (dict_get s i))"
    using set_connection_store[OF set, unfolded rq] by blast
  have key: "normalize_connection_key (PStr (rq_key (act_request r x))) = Inr (ac_key r)"
    using wf by (simp add: act_request_def normalize_connection_key_iff act_wf_def)
  have m: "m = merge_connection now (act_request r x) (ac_key r) (dict_get s (ac_service r, ac_key r))"
    using set s(1) key unfolding set_connection_Inr by (auto simp: rq)
  then have ck: "conn_key m = ac_key r" by simp
  have row: "case dict_get s (ac_service r, ac_key r) of
       None \<Rightarrow> conn_enabled m \<and> conn_category m = ''uncategorized'' \<and> conn_display_name m = PStr (ac_key r)
     | Some old \<Rightarrow> m = old\<lparr>conn_service := ac_service r, conn_key := ac_key r, conn_has_secret := True,
                           conn_updated_at := now, conn_rotated_at := now\<rparr>"
    unfolding m using rq
    by (cases "dict_get s (ac_service r, ac_key r)")
      (simp_all add: merge_connection_def keep_or_def Let_def act_request_def)
  have secrets: "\<forall>service key. get_connection_secret file_backed vault' service key =
         (if service = ac_service r \<and> normalize_connection_key (PStr key) = Inr (ac_key r)
          then Inr (Some x) else get_connection_secret file_backed vault service key)"
    using files.set_connection_secret[OF set] by (simp add: rq ck)
  show ?thesis using x secrets s look[unfolded ck] row by blast
qed

lemma sample_apply_set:
  "apply_set file_backed 5 sample_act (PStr ''s3cret'') (Absent, []) =
     Inr (sample_meta, save_connections 5 [((''App'', ''podcasts''), sample_meta)], sample_files)"
proof -
  have "check_act_value sample_act (PStr ''s3cret'') = Inr (Some ''s3cret'')"
    by (simp add: check_act_value_def sample_act_def set_verb_def value_max_bytes_def utf8_def utf8_char_def)
  moreover have "set_connection file_backed 5 (act_request sample_act ''s3cret'') (Absent, []) =
     Inr (sample_meta, save_connections 5 [((''App'', ''podcasts''), sample_meta)], sample_files)"
    unfolding sample_act_def act_request_def act_record.simps by code_simp
  ultimately show ?thesis unfolding apply_set_def act_request_def by simp
qed

theorem apply_set_stores_signed_witness:
  "get_connection_secret file_backed sample_files ''App'' ''PODCASTS'' = Inr (Some ''s3cret'')
   \<and> ac_value_sha256 sample_act = Some (hexlify (sha256 (utf8 ''s3cret'')))"
proof -
  have "normalize_connection_key (PStr ''PODCASTS'') = Inr ''podcasts''" by code_simp
  moreover have "ac_key sample_act = ''podcasts''" "ac_service sample_act = ''App''" by (simp_all add: sample_act_def)
  ultimately show ?thesis using apply_set_stores_signed[OF sample_act_init sample_apply_set] by auto
qed

text \<open>Beyond the years \<open>time.gmtime\<close> can write the constructor fails with its \<open>OverflowError\<close>, not with
  a named refusal.\<close>

lemma act_time_range:
  "act_init (PStr ''vault'') (PStr ''App'') (PStr ''podcasts'') (PStr ''delete'') (PInt (gmtime_max + 1)) PNone
     = Inl ActTimeRange"
  by code_simp

end
