(* ===== verification/Sessions.thy ===== *)
theory Sessions
  imports Loading Quorum
begin

text \<open>
  \<^verbatim>\<open>src/recto/bootloader/sessions.py\<close> and the key check of \<^verbatim>\<open>src/recto/bootloader/state.py\<close>: keys and
  signatures in base64url, the two algorithms, the second attempt over the decoded payload, and the
  shapes of a session's claims. The primitives of the \<^verbatim>\<open>cryptography\<close> package are the fields of
  \<open>crypto_lib\<close>: whether a key loads, whether a signature verifies.
\<close>

record crypto_lib =
  ed25519_loads :: "bytes \<Rightarrow> bool"
  ed25519_verifies :: "bytes \<Rightarrow> bytes \<Rightarrow> bytes \<Rightarrow> bool"
  p256_loads :: "nat \<Rightarrow> nat \<Rightarrow> bool"
  p256_verifies :: "nat \<Rightarrow> nat \<Rightarrow> nat \<Rightarrow> nat \<Rightarrow> bytes \<Rightarrow> bool"
  secp256k1_loads :: "bytes \<Rightarrow> bool"

datatype session_error = BadBase64 | KeyLength | KeyRejected | UnsupportedAlgorithm

datatype session_key = Ed25519Key bytes | P256Key nat nat

definition supported_algorithms :: "string list" where
  "supported_algorithms = [''ed25519'', ''ecdsa-p256'']"

section \<open>Keys\<close>

text \<open>\<open>urlsafe_b64decode(s + "=" * (-len(s) % 4))\<close>.\<close>

definition unb64u :: "string \<Rightarrow> session_error + bytes" where
  "unb64u s = (case b64_decode (b64_pad s) of None \<Rightarrow> Inl BadBase64 | Some raw \<Rightarrow> Inr raw)"

definition p256_key :: "crypto_lib \<Rightarrow> nat \<Rightarrow> nat \<Rightarrow> session_error + session_key" where
  "p256_key cl x y = (if p256_loads cl x y then Inr (P256Key x y) else Inl KeyRejected)"

definition public_key_from_b64u :: "crypto_lib \<Rightarrow> string \<Rightarrow> string \<Rightarrow> session_error + session_key" where
  "public_key_from_b64u cl public_key_b64u algorithm =
     bind_err (unb64u public_key_b64u) (\<lambda>raw.
       if algorithm = ''ed25519'' then
         (if length raw \<noteq> 32 then Inl KeyLength
          else if ed25519_loads cl raw then Inr (Ed25519Key raw) else Inl KeyRejected)
       else if algorithm = ''ecdsa-p256'' then
         (if length raw = 65 \<and> hd raw = 4 then
            p256_key cl (from_bytes (take 32 (drop 1 raw))) (from_bytes (take 32 (drop 33 raw)))
          else if length raw = 64 then p256_key cl (from_bytes (take 32 raw)) (from_bytes (drop 32 raw))
          else Inl KeyLength)
       else Inl UnsupportedAlgorithm)"

section \<open>Signatures\<close>

text \<open>The bytes a base64url payload stands for; every payload of ASCII characters whose letters fill
  whole groups is one, since the decoder skips what is not of the alphabet.\<close>

definition maybe_decoded_payload :: "bytes \<Rightarrow> bytes option" where
  "maybe_decoded_payload payload =
     (if list_all (\<lambda>b. nat_of b < 128) payload
      then b64_decode (b64_pad (map (\<lambda>b. char_of (nat_of b)) payload)) else None)"

fun key_verifies :: "crypto_lib \<Rightarrow> session_key \<Rightarrow> bytes \<Rightarrow> bytes \<Rightarrow> bool" where
  "key_verifies cl (Ed25519Key k) sig payload = ed25519_verifies cl k sig payload"
| "key_verifies cl (P256Key x y) sig payload =
     p256_verifies cl x y (from_bytes (take 32 sig)) (from_bytes (drop 32 sig)) payload"

definition verify_signature ::
  "crypto_lib \<Rightarrow> bytes \<Rightarrow> string \<Rightarrow> string \<Rightarrow> string \<Rightarrow> session_error + bool" where
  "verify_signature cl payload signature_b64u public_key_b64u algorithm =
     bind_err (public_key_from_b64u cl public_key_b64u algorithm) (\<lambda>key.
     bind_err (unb64u signature_b64u) (\<lambda>sig.
       if length sig \<noteq> 64 then Inr False
       else if key_verifies cl key sig payload then Inr True
       else Inr (case maybe_decoded_payload payload of
         None \<Rightarrow> False | Some decoded \<Rightarrow> key_verifies cl key sig decoded)))"

section \<open>The key of a genesis member\<close>

definition genesis_algorithms :: "(string, nat list) dict" where
  "genesis_algorithms = [(''ed25519'', [32]), (''ecdsa-p256'', [64])]"

text \<open>\<open>None\<close> is the \<open>ValueError\<close>; the result is the algorithm's normal spelling.\<close>

definition validate_genesis_pubkey :: "crypto_lib \<Rightarrow> bytes option \<Rightarrow> string \<Rightarrow> string option" where
  "validate_genesis_pubkey cl pubkey algorithm =
     (let algo = py_lower (strip algorithm)
      in case dict_get genesis_algorithms algo of
           None \<Rightarrow> None
         | Some valid \<Rightarrow> (case pubkey of
             None \<Rightarrow> None
           | Some k \<Rightarrow> if length k \<notin> set valid then None
               else (case public_key_from_b64u cl (b64_encode k) algo of
                       Inl e \<Rightarrow> None | Inr key \<Rightarrow> Some algo)))"

section \<open>Sessions\<close>

record session_claims =
  sc_iss :: string
  sc_sub :: string
  sc_aud :: string
  sc_exp :: int
  sc_iat :: int
  sc_jti :: string
  recto_scope :: "pyval list"
  recto_max_uses :: int

text \<open>\<open>sub.split(":", 1)[0]\<close> and \<open>[1]\<close>; \<open>None\<close> is the \<open>IndexError\<close>.\<close>

definition claims_service :: "session_claims \<Rightarrow> string" where
  "claims_service c = takeWhile (\<lambda>x. x \<noteq> CHR '':'') (sc_sub c)"

definition claims_secret :: "session_claims \<Rightarrow> string option" where
  "claims_secret c = (if CHR '':'' \<in> set (sc_sub c)
     then Some (drop 1 (dropWhile (\<lambda>x. x \<noteq> CHR '':'') (sc_sub c))) else None)"

definition claims_expired :: "session_claims \<Rightarrow> int \<Rightarrow> bool" where
  "claims_expired c now \<longleftrightarrow> now \<ge> sc_exp c"

definition build_session_issuance_payload :: "string \<Rightarrow> string \<Rightarrow> string \<Rightarrow> int \<Rightarrow> int \<Rightarrow> (string, pyval) dict" where
  "build_session_issuance_payload service secret bootloader_id lifetime_seconds max_uses =
     [(''sub'', PStr (service @ '':'' @ secret)), (''aud'', PStr bootloader_id),
      (''recto:scope'', PList [PStr ''sign'']), (''recto:max_uses'', PInt max_uses),
      (''recto:lifetime_seconds'', PInt lifetime_seconds)]"

definition build_sign_request_payload :: "string \<Rightarrow> string \<Rightarrow> string \<Rightarrow> int \<Rightarrow> string \<Rightarrow> (string, pyval) dict" where
  "build_sign_request_payload service secret payload_hash_b64u requested_at_unix request_id =
     [(''request_id'', PStr request_id), (''service'', PStr service), (''secret'', PStr secret),
      (''payload_hash_b64u'', PStr payload_hash_b64u), (''requested_at_unix'', PInt requested_at_unix)]"

section \<open>Facts\<close>

lemma unb64u_encode [simp]: "unb64u (b64_encode raw) = Inr raw"
  by (simp add: unb64u_def b64_decode_encode)

text \<open>A member's verifier, over raw bytes: what an accepting call means.\<close>

definition key_of_raw :: "crypto_lib \<Rightarrow> bytes \<Rightarrow> string \<Rightarrow> session_error + session_key" where
  "key_of_raw cl raw algorithm = public_key_from_b64u cl (b64_encode raw) algorithm"

definition signs :: "crypto_lib \<Rightarrow> bytes \<Rightarrow> string \<Rightarrow> bytes \<Rightarrow> bytes \<Rightarrow> bool" where
  "signs cl raw algorithm sig msg \<longleftrightarrow> length sig = 64 \<and> (\<exists>key. key_of_raw cl raw algorithm = Inr key
     \<and> (key_verifies cl key sig msg
        \<or> (\<exists>d. maybe_decoded_payload msg = Some d \<and> key_verifies cl key sig d)))"

lemma verify_signature_signs:
  "verify_signature cl msg (b64_encode sig) (b64_encode raw) algorithm = Inr True \<longleftrightarrow> signs cl raw algorithm sig msg"
  by (cases "public_key_from_b64u cl (b64_encode raw) algorithm"; cases "maybe_decoded_payload msg")
    (auto simp: verify_signature_def signs_def key_of_raw_def)

lemma signs_nonempty: "signs cl raw algorithm sig msg \<Longrightarrow> sig \<noteq> []"
  by (auto simp: signs_def)

lemma signs_supported: "signs cl raw algorithm sig msg \<Longrightarrow> algorithm \<in> set supported_algorithms"
  by (auto simp: signs_def key_of_raw_def public_key_from_b64u_def supported_algorithms_def split: if_splits)

text \<open>A key that was validated loads whenever its signatures are checked: sealable is verifiable.\<close>

lemma validated_key_loads:
  assumes "validate_genesis_pubkey cl (Some raw) algorithm = Some algo"
  shows "algo \<in> set supported_algorithms \<and> (\<exists>key. key_of_raw cl raw algo = Inr key)"
  using assms
  by (auto simp: validate_genesis_pubkey_def Let_def key_of_raw_def genesis_algorithms_def
      supported_algorithms_def split: if_splits option.splits sum.splits)

end
