(* ===== verification/GenesisChain.thy ===== *)
theory GenesisChain
  imports Sessions Records
begin

text \<open>
  \<^verbatim>\<open>src/recto/bootloader/genesis_chain.py\<close>: the hash chain of membership entries, its replay and the
  high-water mark of a sealed chain. An entry's fields have the types its class declares; a stored
  record with other types in them is \<open>ChainUnmodelled\<close>, as is a text of JSON that names a code point
  above 255 or an intent id that is no text. \<open>ChainError\<close> carries the refusal of each \<open>raise\<close>;
  \<open>ChainConv\<close> the exceptions of conversions that nothing catches and \<open>ChainIndex\<close> an \<open>IndexError\<close>.
\<close>

datatype chain_reason =
    UnknownOp | ValueAlgorithm | AlgorithmUnsupported | BadMemberKey | NotSecpPoint
  | SequenceBroken | PrevMismatch | GenesisNotAdd | GenesisSigned
  | SealedTwice | SealWithoutDevice | IdNotAscii | IdMalformed | SealMeta | ResetUnsealed
  | EmptySet | NoPassphraseSignature | NoDeviceSignature | NoMajority
  | ResetNoPassphrase | ResetNoPassphraseSignature | ResetMeta | ResetChallengeUnbound | ResetNotFresh
  | ResetNotDevice | ResetSlotMismatch | ResetSeatTaken | SharedKey
  | RemovesNonMember | RemovesOtherKey | RemovesPassphrase | RemovesLastMember | RemovesLastDevice
  | RotateMalformed
  | MarkDeleted | MarkMalformed | MarkNeitherSide | MarkUnsealed | MarkOtherId | MarkTruncated
  | MarkReplaced | MarkSealDiffers
  | FileUnparseable | ChainNotList | RecordMalformed

datatype chain_error = ChainError chain_reason | ChainConv conv_error | ChainIndex | ChainUnmodelled

section \<open>Entries\<close>

definition chain_domain :: string where "chain_domain = ''recto-genesis-chain-v1''"
definition reset_challenge_prefix :: string where "reset_challenge_prefix = ''recto-reset-v1:''"
definition passphrase_kind :: string where "passphrase_kind = ''passphrase''"
definition device_kinds :: "string list" where "device_kinds = [''recovery-phone'', ''primary-phone'']"
definition slot_kind :: "(string, string) dict" where
  "slot_kind = [(''primary'', ''primary-phone''), (''recovery'', ''recovery-phone'')]"
definition value_algorithm :: string where "value_algorithm = ''none''"

datatype chain_op = OpAdd | OpRemove | OpSealId | OpRotate | OpReset

fun op_name :: "chain_op \<Rightarrow> string" where
  "op_name OpAdd = ''add''"
| "op_name OpRemove = ''remove''"
| "op_name OpSealId = ''seal-id''"
| "op_name OpRotate = ''rotate-operator''"
| "op_name OpReset = ''reset''"

definition chain_ops :: "(string, chain_op) dict" where
  "chain_ops = map (\<lambda>p. (op_name p, p)) [OpAdd, OpRemove, OpSealId, OpRotate, OpReset]"

record chain_entry =
  ce_seq :: int
  ce_op :: chain_op
  ce_kind :: string
  ce_pubkey :: bytes
  ce_algorithm :: string
  ce_prev :: "string option"
  ce_signatures :: "bytes list"
  ce_meta :: "string option"

definition opt_field :: "string \<Rightarrow> string option \<Rightarrow> (string, pyval) dict" where
  "opt_field k v = (case v of None \<Rightarrow> [] | Some s \<Rightarrow> [(k, PStr s)])"

definition as_record :: "chain_entry \<Rightarrow> pyval" where
  "as_record e = PDict ([(''seq'', PInt (ce_seq e)), (''op'', PStr (op_name (ce_op e))), (''kind'', PStr (ce_kind e)),
     (''pubkey'', PStr (hexlify (ce_pubkey e))), (''algorithm'', PStr (ce_algorithm e)), (''prev'', opt_str (ce_prev e)),
     (''signatures'', PList (map (PStr \<circ> b64_encode) (ce_signatures e)))] @ opt_field ''meta'' (ce_meta e))"

definition canonical_meta :: "(string, pyval) dict \<Rightarrow> string" where
  "canonical_meta d = json_dumps (PDict d)"

definition signing_body ::
  "int \<Rightarrow> chain_op \<Rightarrow> string \<Rightarrow> bytes \<Rightarrow> string \<Rightarrow> string option \<Rightarrow> string option \<Rightarrow> string option \<Rightarrow> (string, pyval) dict" where
  "signing_body seq p kind pubkey algorithm prev meta sealed_id =
     [(''algorithm'', PStr algorithm), (''kind'', PStr kind), (''op'', PStr (op_name p)), (''prev'', opt_str prev),
      (''pubkey'', PStr (hexlify pubkey)), (''seq'', PInt seq)] @ opt_field ''meta'' meta @ opt_field ''sealed_id'' sealed_id"

definition signing_bytes ::
  "int \<Rightarrow> chain_op \<Rightarrow> string \<Rightarrow> bytes \<Rightarrow> string \<Rightarrow> string option \<Rightarrow> string option \<Rightarrow> string option \<Rightarrow> bytes" where
  "signing_bytes seq p kind pubkey algorithm prev meta sealed_id =
     utf8 chain_domain @ [0] @ canonical_json (signing_body seq p kind pubkey algorithm prev meta sealed_id)"

definition act_message ::
  "int \<Rightarrow> chain_op \<Rightarrow> string \<Rightarrow> bytes \<Rightarrow> string \<Rightarrow> string option \<Rightarrow> string option \<Rightarrow> string option \<Rightarrow> bytes" where
  "act_message seq p kind pubkey algorithm prev meta sealed_id =
     (let raw = signing_bytes seq p kind pubkey algorithm prev meta sealed_id
      in if sealed_id = None then raw else sha256 raw)"

definition entry_bytes :: "chain_entry \<Rightarrow> bytes" where
  "entry_bytes e = signing_bytes (ce_seq e) (ce_op e) (ce_kind e) (ce_pubkey e) (ce_algorithm e) (ce_prev e) (ce_meta e) None"

definition entry_hash :: "chain_entry \<Rightarrow> string" where
  "entry_hash e = hexlify (sha256 (entry_bytes e))"

definition entry_message :: "chain_entry \<Rightarrow> string option \<Rightarrow> bytes" where
  "entry_message e sealed_id = act_message (ce_seq e) (ce_op e) (ce_kind e) (ce_pubkey e) (ce_algorithm e) (ce_prev e)
     (ce_meta e) sealed_id"

definition secp256k1_point :: "crypto_lib \<Rightarrow> bytes \<Rightarrow> chain_error + unit" where
  "secp256k1_point cl v = (if length v = 64 \<and> secp256k1_loads cl v then Inr () else Inl (ChainError NotSecpPoint))"

definition build_entry ::
  "crypto_lib \<Rightarrow> int \<Rightarrow> pyval \<Rightarrow> string \<Rightarrow> bytes \<Rightarrow> pyval \<Rightarrow> string option \<Rightarrow> bytes list \<Rightarrow> string option
     \<Rightarrow> chain_error + chain_entry" where
  "build_entry cl seq p kind pubkey algorithm prev signatures meta =
     (case dict_get chain_ops (the_str p) of
        None \<Rightarrow> Inl (ChainError UnknownOp)
      | Some opn \<Rightarrow>
        if \<not> is_str p then Inl (ChainError UnknownOp)
        else if opn \<in> {OpSealId, OpRotate} \<and> algorithm \<noteq> PStr value_algorithm then Inl (ChainError ValueAlgorithm)
        else if opn \<notin> {OpSealId, OpRotate} \<and> algorithm \<notin> PStr ` set supported_algorithms
          then Inl (ChainError AlgorithmUnsupported)
        else if opn \<in> {OpAdd, OpReset} \<and> validate_genesis_pubkey cl (Some pubkey) (the_str algorithm) = None
          then Inl (ChainError BadMemberKey)
        else bind_err (if opn = OpRotate then secp256k1_point cl pubkey else Inr ()) (\<lambda>_.
          Inr \<lparr>ce_seq = seq, ce_op = opn, ce_kind = kind, ce_pubkey = pubkey, ce_algorithm = the_str algorithm,
               ce_prev = prev, ce_signatures = signatures, ce_meta = meta\<rparr>))"

section \<open>Stored records\<close>

definition conv :: "conv_error + 'a \<Rightarrow> chain_error + 'a" where
  "conv = map_sum ChainConv id"

definition signature_of :: "pyval \<Rightarrow> chain_error + bytes" where
  "signature_of v = (if \<not> is_str v then Inl (ChainConv ConvType)
     else case b64_decode (b64_pad (the_str v)) of None \<Rightarrow> Inl (ChainConv ConvValue) | Some raw \<Rightarrow> Inr raw)"

definition hex_field :: "pyval \<Rightarrow> chain_error + bytes" where
  "hex_field v = (if \<not> is_str v then Inl (ChainConv ConvType)
     else case fromhex (the_str v) of None \<Rightarrow> Inl (ChainConv ConvValue) | Some raw \<Rightarrow> Inr raw)"

definition opt_text :: "pyval \<Rightarrow> string option" where
  "opt_text v = (if v = PNone then None else Some (the_str v))"

text \<open>The fields of the declared types.\<close>

definition well_typed :: "pyval \<Rightarrow> pyval \<Rightarrow> pyval \<Rightarrow> pyval \<Rightarrow> bool" where
  "well_typed seq kind prev meta \<longleftrightarrow> is_int seq \<and> \<not> is_bool seq \<and> is_str kind
     \<and> (prev = PNone \<or> is_str prev) \<and> (meta = PNone \<or> is_str meta)"

definition entry_of_record :: "crypto_lib \<Rightarrow> pyval \<Rightarrow> chain_error + chain_entry" where
  "entry_of_record cl v =
     (if \<not> is_dict v then Inl (ChainConv ConvType) else
      let d = the_dict v in
      bind_err (conv (item d ''seq'')) (\<lambda>seq.
      bind_err (conv (item d ''op'')) (\<lambda>p.
      bind_err (conv (item d ''kind'')) (\<lambda>kind.
      bind_err (conv (item d ''pubkey'')) (\<lambda>pk.
      bind_err (hex_field pk) (\<lambda>pubkey.
      bind_err (conv (item d ''algorithm'')) (\<lambda>algorithm.
      let sv = get d ''signatures''; prev = get d ''prev''; meta = get d ''meta'' in
      bind_err (conv (if truthy sv then iterate sv else Inr [])) (\<lambda>texts.
      bind_err (map_err signature_of texts) (\<lambda>signatures.
      bind_err (build_entry cl (the_int seq) p (the_str kind) pubkey algorithm (opt_text prev) signatures (opt_text meta))
       (\<lambda>e. if well_typed seq kind prev meta then Inr e else Inl ChainUnmodelled))))))))))"

definition entries_from_records :: "crypto_lib \<Rightarrow> pyval list \<Rightarrow> chain_error + chain_entry list" where
  "entries_from_records cl = map_err (entry_of_record cl)"

section \<open>Who signed\<close>

type_synonym chain_members = "(string, chain_entry) dict"

definition verifier_for :: "crypto_lib \<Rightarrow> chain_entry \<Rightarrow> verifier" where
  "verifier_for cl m = (\<lambda>sig msg.
     Some (verify_signature cl msg (b64_encode sig) (b64_encode (ce_pubkey m)) (ce_algorithm m) = Inr True))"

definition member_verifiers :: "crypto_lib \<Rightarrow> chain_members \<Rightarrow> (string, verifier) dict" where
  "member_verifiers cl = map (\<lambda>(k, m). (k, verifier_for cl m))"

fun satisfied_kinds :: "crypto_lib \<Rightarrow> chain_members \<Rightarrow> bytes list \<Rightarrow> bytes \<Rightarrow> string set \<Rightarrow> string set" where
  "satisfied_kinds cl members [] msg sat = sat"
| "satisfied_kinds cl members (sig # sigs) msg sat =
     (case match_member msg sig sat (member_verifiers cl members) of
        None \<Rightarrow> satisfied_kinds cl members sigs msg sat
      | Some kind \<Rightarrow> satisfied_kinds cl members sigs msg (insert kind sat))"

definition required_signatures :: "nat \<Rightarrow> nat" where
  "required_signatures member_count = member_count div 2 + 1"

definition require_majority :: "crypto_lib \<Rightarrow> chain_members \<Rightarrow> chain_entry \<Rightarrow> bytes \<Rightarrow> chain_error + unit" where
  "require_majority cl members e msg =
     (if card (satisfied_kinds cl members (ce_signatures e) msg {}) < required_signatures (length members)
      then Inl (ChainError NoMajority) else Inr ())"

definition has_kind :: "string \<Rightarrow> chain_members \<Rightarrow> bool" where
  "has_kind k members \<longleftrightarrow> dict_get members k \<noteq> None"

definition has_device :: "chain_members \<Rightarrow> bool" where
  "has_device members \<longleftrightarrow> list_ex (\<lambda>k. k \<in> set device_kinds) (dict_keys members)"

definition require_threshold :: "crypto_lib \<Rightarrow> chain_members \<Rightarrow> chain_entry \<Rightarrow> bytes \<Rightarrow> bool \<Rightarrow> chain_error + unit" where
  "require_threshold cl members e msg device_ever =
     (if members = [] then Inl (ChainError EmptySet)
      else if \<not> has_kind passphrase_kind members then require_majority cl members e msg
      else let satisfied = satisfied_kinds cl members (ce_signatures e) msg {}
           in if passphrase_kind \<notin> satisfied then Inl (ChainError NoPassphraseSignature)
              else if device_ever \<and> satisfied \<inter> set device_kinds = {} then Inl (ChainError NoDeviceSignature)
              else Inr ())"

text \<open>\<open>json.loads(meta or dflt)\<close>, read as an object: \<open>None\<close> where the code's \<open>except\<close> catches.\<close>

definition meta_object :: "(string \<Rightarrow> string) \<Rightarrow> string option \<Rightarrow> chain_error + (string, pyval) dict option" where
  "meta_object fl meta = (case json_loads fl (case meta of None \<Rightarrow> [] | Some s \<Rightarrow> s) of
     Inl e \<Rightarrow> if e = JsonUnmodelled then Inl ChainUnmodelled else Inr None
   | Inr v \<Rightarrow> Inr (if is_dict v then Some (the_dict v) else None))"

text \<open>The conversions inside that \<open>try\<close>: \<open>None\<close> is a caught exception.\<close>

definition caught :: "conv_error + 'a \<Rightarrow> chain_error + 'a option" where
  "caught r = (case r of Inr x \<Rightarrow> Inr (Some x) | Inl e \<Rightarrow> if e = ConvOutside then Inl ChainUnmodelled else Inr None)"

definition reset_fields :: "(string, pyval) dict \<Rightarrow> conv_error + pyval \<times> pyval" where
  "reset_fields d =
     bind_err (item d ''challenge'') (\<lambda>challenge.
     bind_err (item d ''intent_id'') (\<lambda>intent_id.
     bind_err (bind_err (item d ''not_before'') int_of) (\<lambda>_.
     bind_err (bind_err (item d ''lost'') iterate) (\<lambda>_. Inr (challenge, intent_id)))))"

definition require_reset ::
  "crypto_lib \<Rightarrow> (string \<Rightarrow> string) \<Rightarrow> chain_members \<Rightarrow> chain_entry \<Rightarrow> bytes \<Rightarrow> chain_error + unit" where
  "require_reset cl fl members e msg =
     (case dict_get members passphrase_kind of
        None \<Rightarrow> Inl (ChainError ResetNoPassphrase)
      | Some m \<Rightarrow>
        if passphrase_kind \<notin> satisfied_kinds cl [(passphrase_kind, m)] (ce_signatures e) msg {}
        then Inl (ChainError ResetNoPassphraseSignature)
        else bind_err (meta_object fl (ce_meta e)) (\<lambda>obj. case obj of
          None \<Rightarrow> Inl (ChainError ResetMeta)
        | Some d \<Rightarrow> bind_err (caught (reset_fields d)) (\<lambda>fs. case fs of
            None \<Rightarrow> Inl (ChainError ResetMeta)
          | Some (challenge, intent_id) \<Rightarrow>
              if \<not> is_str challenge then Inl (ChainError ResetChallengeUnbound)
              else if \<not> is_str intent_id then Inl ChainUnmodelled
              else if \<not> startswith (the_str challenge) (reset_challenge_prefix @ the_str intent_id @ '':'')
                then Inl (ChainError ResetChallengeUnbound)
              else if ce_signatures e = [] then Inl (ChainError ResetNotFresh)
              else if \<not> is_ascii (the_str challenge) then Inl (ChainConv ConvValue)
              else if list_ex (\<lambda>sig. safe_verify (verifier_for cl e) sig (utf8 (the_str challenge))) (ce_signatures e)
                then Inr () else Inl (ChainError ResetNotFresh))))"

section \<open>Replay\<close>

definition decode_id :: "chain_entry \<Rightarrow> chain_error + string" where
  "decode_id e =
     (if \<not> list_all (\<lambda>b. nat_of b < 128) (ce_pubkey e) then Inl (ChainError IdNotAscii)
      else let v = map (\<lambda>b. char_of (nat_of b)) (ce_pubkey e)
           in if ce_kind e \<noteq> ''bootloader-id'' \<or> v = [] \<or> \<not> list_all char_isprintable v
              then Inl (ChainError IdMalformed) else Inr v)"

text \<open>\<open>bytes.fromhex(str(v))\<close>: the text of a value that is neither a text nor an integer holds a
  character that is no hexadecimal digit.\<close>

definition hex_of_text :: "pyval \<Rightarrow> bytes option" where
  "hex_of_text v = (case v of PStr s \<Rightarrow> fromhex s | PInt i \<Rightarrow> fromhex (str_int i) | _ \<Rightarrow> None)"

definition hex_member :: "pyval \<Rightarrow> bool" where
  "hex_member v \<longleftrightarrow> is_str v \<and> fromhex (the_str v) \<noteq> None"

definition seal_operator_key :: "crypto_lib \<Rightarrow> (string \<Rightarrow> string) \<Rightarrow> chain_entry \<Rightarrow> chain_error + bytes" where
  "seal_operator_key cl fl e =
     bind_err (meta_object fl (ce_meta e)) (\<lambda>obj. case obj of
       None \<Rightarrow> Inl (ChainError SealMeta)
     | Some d \<Rightarrow> (case hex_of_text (get d ''operator_pubkey'') of
         None \<Rightarrow> Inl (ChainError SealMeta)
       | Some v \<Rightarrow>
           if \<not> is_list (get d ''identity_members'') \<or> \<not> list_all hex_member (the_list (get d ''identity_members''))
           then Inl (ChainError SealMeta)
           else bind_err (secp256k1_point cl v) (\<lambda>_. Inr v)))"

record chain_state =
  members :: chain_members
  sealed_id :: "string option"
  operator_pubkey :: "bytes option"
  device_ever :: bool
  tip_hash :: "string option"
  chain_length :: nat
  resets :: "string list"
  sealed_operator_pubkey :: "bytes option"

text \<open>The loop's variables: the result's fields, with the tip's hash for the previous entry, and the
  seats the resets have taken.\<close>

record replay_vars = chain_state +
  seats :: "(string \<times> string) list"

definition replay_start :: replay_vars where
  "replay_start = \<lparr>members = [], sealed_id = None, operator_pubkey = None, device_ever = False, tip_hash = None,
     chain_length = 0, resets = [], sealed_operator_pubkey = None, seats = []\<rparr>"

definition current_operator_pubkey :: "chain_state \<Rightarrow> bytes option" where
  "current_operator_pubkey st = (if operator_pubkey st \<noteq> None then operator_pubkey st else sealed_operator_pubkey st)"

definition check_link :: "chain_entry \<Rightarrow> replay_vars \<Rightarrow> chain_error + unit" where
  "check_link e st =
     (if ce_seq e \<noteq> int (chain_length st) then Inl (ChainError SequenceBroken)
      else if ce_prev e \<noteq> tip_hash st then Inl (ChainError PrevMismatch) else Inr ())"

text \<open>The id in the bytes an entry is signed over: the seal-id entry's own.\<close>

definition entry_seal :: "chain_entry \<Rightarrow> replay_vars \<Rightarrow> chain_error + string option" where
  "entry_seal e st =
     (if ce_op e = OpSealId then
        (if sealed_id st \<noteq> None then Inl (ChainError SealedTwice)
         else if \<not> has_device (members st) then Inl (ChainError SealWithoutDevice)
         else bind_err (decode_id e) (\<lambda>i. Inr (Some i)))
      else if ce_op e = OpReset \<and> sealed_id st = None then Inl (ChainError ResetUnsealed)
      else Inr (sealed_id st))"

definition check_authority :: "crypto_lib \<Rightarrow> (string \<Rightarrow> string) \<Rightarrow> chain_entry \<Rightarrow> replay_vars \<Rightarrow> chain_error + unit" where
  "check_authority cl fl e st =
     (if ce_seq e = 0 then
        (if ce_op e \<noteq> OpAdd then Inl (ChainError GenesisNotAdd)
         else if ce_signatures e \<noteq> [] then Inl (ChainError GenesisSigned) else Inr ())
      else bind_err (entry_seal e st) (\<lambda>seal.
        let msg = entry_message e seal
        in if ce_op e = OpReset then require_reset cl fl (members st) e msg
           else require_threshold cl (members st) e msg (device_ever st)))"

definition take_seat :: "(string \<Rightarrow> string) \<Rightarrow> chain_entry \<Rightarrow> replay_vars \<Rightarrow> chain_error + replay_vars" where
  "take_seat fl e st =
     (if ce_kind e \<notin> set device_kinds then Inl (ChainError ResetNotDevice)
      else bind_err (meta_object fl (ce_meta e)) (\<lambda>obj.
        let d = (case obj of None \<Rightarrow> [] | Some d \<Rightarrow> d); slot = get d ''slot''; intent = the_str (get d ''intent_id'')
        in if is_list slot \<or> is_dict slot then Inl (ChainConv ConvType)
           else if \<not> is_str slot \<or> dict_get slot_kind (the_str slot) \<noteq> Some (ce_kind e)
             then Inl (ChainError ResetSlotMismatch)
           else if (intent, the_str slot) \<in> set (seats st) then Inl (ChainError ResetSeatTaken)
           else Inr (st\<lparr>seats := (intent, the_str slot) # seats st,
                        resets := (if intent \<in> set (resets st) then resets st else resets st @ [intent])\<rparr>)))"

definition shares_key :: "chain_entry \<Rightarrow> chain_members \<Rightarrow> bool" where
  "shares_key e ms \<longleftrightarrow> list_ex (\<lambda>(k, m). k \<noteq> ce_kind e \<and> ce_pubkey m = ce_pubkey e) ms"

definition seat_member :: "chain_entry \<Rightarrow> replay_vars \<Rightarrow> chain_error + replay_vars" where
  "seat_member e st =
     (if shares_key e (members st) then Inl (ChainError SharedKey)
      else Inr (st\<lparr>members := dict_set (ce_kind e) e (members st),
                   device_ever := (device_ever st \<or> ce_kind e \<in> set device_kinds)\<rparr>))"

definition drop_member :: "chain_entry \<Rightarrow> replay_vars \<Rightarrow> chain_error + replay_vars" where
  "drop_member e st =
     (case dict_get (members st) (ce_kind e) of
        None \<Rightarrow> Inl (ChainError RemovesNonMember)
      | Some m \<Rightarrow>
        if ce_pubkey e \<noteq> ce_pubkey m \<or> ce_algorithm e \<noteq> ce_algorithm m then Inl (ChainError RemovesOtherKey)
        else if ce_kind e = passphrase_kind then Inl (ChainError RemovesPassphrase)
        else let ms = dict_pop (ce_kind e) (members st)
             in if ms = [] then Inl (ChainError RemovesLastMember)
                else if device_ever st \<and> has_kind passphrase_kind ms \<and> \<not> has_device ms
                  then Inl (ChainError RemovesLastDevice)
                else Inr (st\<lparr>members := ms\<rparr>))"

definition apply_entry :: "crypto_lib \<Rightarrow> (string \<Rightarrow> string) \<Rightarrow> chain_entry \<Rightarrow> replay_vars \<Rightarrow> chain_error + replay_vars" where
  "apply_entry cl fl e st =
     (case ce_op e of
        OpAdd \<Rightarrow> seat_member e st
      | OpReset \<Rightarrow> bind_err (take_seat fl e st) (seat_member e)
      | OpRemove \<Rightarrow> drop_member e st
      | OpSealId \<Rightarrow> bind_err (decode_id e) (\<lambda>i. bind_err (seal_operator_key cl fl e) (\<lambda>k.
          Inr (st\<lparr>sealed_id := Some i, sealed_operator_pubkey := Some k\<rparr>)))
      | OpRotate \<Rightarrow> if ce_kind e \<noteq> ''operator'' \<or> length (ce_pubkey e) \<noteq> 64 then Inl (ChainError RotateMalformed)
          else Inr (st\<lparr>operator_pubkey := Some (ce_pubkey e)\<rparr>))"

definition replay_step :: "crypto_lib \<Rightarrow> (string \<Rightarrow> string) \<Rightarrow> chain_entry \<Rightarrow> replay_vars \<Rightarrow> chain_error + replay_vars" where
  "replay_step cl fl e st =
     bind_err (check_link e st) (\<lambda>_.
     bind_err (check_authority cl fl e st) (\<lambda>_.
     bind_err (apply_entry cl fl e st) (\<lambda>st'.
     Inr (st'\<lparr>tip_hash := Some (entry_hash e), chain_length := chain_length st' + 1\<rparr>))))"

definition replay_run :: "crypto_lib \<Rightarrow> (string \<Rightarrow> string) \<Rightarrow> chain_entry list \<Rightarrow> chain_error + replay_vars" where
  "replay_run cl fl es = fold_err (replay_step cl fl) es replay_start"

definition replay_state :: "crypto_lib \<Rightarrow> (string \<Rightarrow> string) \<Rightarrow> chain_entry list \<Rightarrow> chain_error + chain_state" where
  "replay_state cl fl es = bind_err (replay_run cl fl es) (\<lambda>st. Inr (chain_state.truncate st))"

definition replay :: "crypto_lib \<Rightarrow> (string \<Rightarrow> string) \<Rightarrow> chain_entry list \<Rightarrow> chain_error + chain_members" where
  "replay cl fl es = bind_err (replay_state cl fl es) (\<lambda>st. Inr (members st))"

section \<open>Who signed, as an attribution\<close>

definition signed_by :: "crypto_lib \<Rightarrow> chain_members \<Rightarrow> string \<Rightarrow> bytes \<Rightarrow> bytes \<Rightarrow> bool" where
  "signed_by cl ms kind sig msg \<longleftrightarrow>
     (\<exists>m. dict_get ms kind = Some m \<and> signs cl (ce_pubkey m) (ce_algorithm m) sig msg)"

lemma verifier_for_signs [simp]:
  "safe_verify (verifier_for cl m) sig msg \<longleftrightarrow> signs cl (ce_pubkey m) (ce_algorithm m) sig msg"
  by (simp add: safe_verify_def verifier_for_def verify_signature_signs)

lemma dict_get_verifiers: "dict_get (member_verifiers cl ms) k = map_option (verifier_for cl) (dict_get ms k)"
  by (induction ms) (auto simp: member_verifiers_def)

lemma accepts_members: "accepts (member_verifiers cl ms) msg sig k \<longleftrightarrow> signed_by cl ms k sig msg"
  unfolding accepts_def dict_get_verifiers signed_by_def by (auto dest: signs_nonempty)

lemma verifiers_wf [simp]: "dict_wf (member_verifiers cl ms) = dict_wf ms"
  by (simp add: dict_wf_def member_verifiers_def comp_def case_prod_unfold)

lemma no_empty_match: "match_member msg [] sat (member_verifiers cl ms) = None"
  unfolding match_member_None by (auto simp: member_verifiers_def dest: signs_nonempty)

text \<open>The loop is the quorum's, which skips the empty signatures that no member verifies.\<close>

lemma satisfied_quorum:
  "satisfied_kinds cl ms sigs msg sat = fst (quorum_loop msg (member_verifiers cl ms) sigs sat un)"
proof (induction sigs arbitrary: sat un)
  case (Cons sig sigs)
  then show ?case by (cases "sig = []") (auto simp: no_empty_match split: option.split)
qed simp

lemma satisfied_attribution:
  assumes "dict_wf ms"
  shows "\<exists>f. inj_on f (satisfied_kinds cl ms sigs msg {}) \<and>
    (\<forall>k \<in> satisfied_kinds cl ms sigs msg {}. f k < length sigs \<and> signed_by cl ms k (sigs ! f k) msg)"
proof -
  obtain sat un where q: "quorum_loop msg (member_verifiers cl ms) sigs {} 0 = (sat, un)" by fastforce
  then have "satisfied_kinds cl ms sigs msg {} = sat" by (simp add: satisfied_quorum[of _ _ _ _ _ 0])
  then show ?thesis using quorum_loop_attribution[OF _ q] assms by (simp add: accepts_members)
qed

lemma satisfied_members:
  assumes "dict_wf ms" "k \<in> satisfied_kinds cl ms sigs msg {}"
  shows "\<exists>i < length sigs. signed_by cl ms k (sigs ! i) msg"
  using satisfied_attribution[OF assms(1)] assms(2) by blast

lemma two_satisfied:
  assumes "dict_wf ms" "k \<in> satisfied_kinds cl ms sigs msg {}" "j \<in> satisfied_kinds cl ms sigs msg {}" "k \<noteq> j"
  shows "\<exists>a b. a < length sigs \<and> b < length sigs \<and> a \<noteq> b \<and> signed_by cl ms k (sigs ! a) msg
    \<and> signed_by cl ms j (sigs ! b) msg"
proof -
  obtain f where f: "inj_on f (satisfied_kinds cl ms sigs msg {})"
    "\<And>i. i \<in> satisfied_kinds cl ms sigs msg {} \<Longrightarrow> f i < length sigs \<and> signed_by cl ms i (sigs ! f i) msg"
    using satisfied_attribution[OF assms(1)] by blast
  then show ?thesis using assms(2-4) by (metis inj_onD)
qed

lemma has_device_iff: "has_device ms \<longleftrightarrow> (\<exists>k \<in> set device_kinds. has_kind k ms)"
  by (induction ms) (auto simp: has_device_def has_kind_def)

lemma device_not_passphrase: "k \<in> set device_kinds \<Longrightarrow> k \<noteq> passphrase_kind"
  by (auto simp: device_kinds_def passphrase_kind_def)

text \<open>What a passed threshold has shown.\<close>

definition threshold_met :: "crypto_lib \<Rightarrow> chain_members \<Rightarrow> bytes list \<Rightarrow> bytes \<Rightarrow> bool \<Rightarrow> bool" where
  "threshold_met cl ms sigs msg dev \<longleftrightarrow>
     (if has_kind passphrase_kind ms then
        \<exists>a < length sigs. signed_by cl ms passphrase_kind (sigs ! a) msg
          \<and> (dev \<longrightarrow> (\<exists>b < length sigs. \<exists>k \<in> set device_kinds. b \<noteq> a \<and> signed_by cl ms k (sigs ! b) msg))
      else \<exists>f S. length ms div 2 < card S \<and> inj_on f S
          \<and> (\<forall>k \<in> S. f k < length sigs \<and> signed_by cl ms k (sigs ! f k) msg))"

lemma require_threshold_met:
  assumes "require_threshold cl ms e msg dev = Inr u" and wf: "dict_wf ms"
  shows "threshold_met cl ms (ce_signatures e) msg dev"
proof (cases "has_kind passphrase_kind ms")
  case True
  let ?S = "satisfied_kinds cl ms (ce_signatures e) msg {}"
  have p: "passphrase_kind \<in> ?S" and d: "dev \<Longrightarrow> \<exists>k \<in> set device_kinds. k \<in> ?S"
    using assms(1) True by (auto simp: require_threshold_def Let_def split: if_splits)
  show ?thesis
  proof (cases dev)
    case False
    then show ?thesis using satisfied_members[OF wf p] True by (auto simp: threshold_met_def)
  next
    case dev: True
    then obtain k where k: "k \<in> set device_kinds" "k \<in> ?S" using d by blast
    obtain a b where "a < length (ce_signatures e)" "b < length (ce_signatures e)" "a \<noteq> b"
      "signed_by cl ms passphrase_kind (ce_signatures e ! a) msg" "signed_by cl ms k (ce_signatures e ! b) msg"
      using two_satisfied[OF wf p k(2)] device_not_passphrase[OF k(1)] by metis
    then show ?thesis using True k(1) by (auto simp: threshold_met_def)
  qed
next
  case False
  then have "length ms div 2 < card (satisfied_kinds cl ms (ce_signatures e) msg {})"
    using assms(1)
    by (auto simp: require_threshold_def require_majority_def required_signatures_def split: if_splits)
  then show ?thesis using satisfied_attribution[OF wf, of cl "ce_signatures e" msg]
    unfolding threshold_met_def if_not_P[OF False] by blast
qed

definition reset_met :: "crypto_lib \<Rightarrow> (string \<Rightarrow> string) \<Rightarrow> chain_members \<Rightarrow> chain_entry \<Rightarrow> bytes \<Rightarrow> bool" where
  "reset_met cl fl ms e msg \<longleftrightarrow>
     (\<exists>sig \<in> set (ce_signatures e). signed_by cl ms passphrase_kind sig msg)
     \<and> (\<exists>d c i. meta_object fl (ce_meta e) = Inr (Some d) \<and> get d ''challenge'' = PStr c \<and> get d ''intent_id'' = PStr i
          \<and> startswith c (reset_challenge_prefix @ i @ '':'')
          \<and> (\<exists>sig \<in> set (ce_signatures e). signs cl (ce_pubkey e) (ce_algorithm e) sig (utf8 c)))"

lemma reset_fields_Inr:
  "reset_fields d = Inr (c, i) \<Longrightarrow> get d ''challenge'' = c \<and> get d ''intent_id'' = i"
  by (auto simp: reset_fields_def bind_err_Inr item_def get_def split: option.splits)

lemma caught_Inr: "caught r = Inr (Some x) \<longleftrightarrow> r = Inr x"
  by (cases r) (auto simp: caught_def)

lemma require_reset_met:
  assumes "require_reset cl fl ms e msg = Inr u"
  shows "reset_met cl fl ms e msg"
proof -
  obtain m where m: "dict_get ms passphrase_kind = Some m"
    using assms by (cases "dict_get ms passphrase_kind") (auto simp: require_reset_def)
  note r = assms[unfolded require_reset_def m option.simps]
  have p: "passphrase_kind \<in> satisfied_kinds cl [(passphrase_kind, m)] (ce_signatures e) msg {}"
    using r by (auto split: if_splits)
  then obtain n where "n < length (ce_signatures e)"
    "signed_by cl [(passphrase_kind, m)] passphrase_kind (ce_signatures e ! n) msg"
    using satisfied_members[OF _ p] by (auto simp: dict_wf_def)
  then have sig: "\<exists>sig \<in> set (ce_signatures e). signed_by cl ms passphrase_kind sig msg"
    using m by (auto simp: signed_by_def)
  obtain d challenge intent where d: "meta_object fl (ce_meta e) = Inr (Some d)"
    and f: "caught (reset_fields d) = Inr (Some (challenge, intent))"
    and rest: "(if \<not> is_str challenge then Inl (ChainError ResetChallengeUnbound)
              else if \<not> is_str intent then Inl ChainUnmodelled
              else if \<not> startswith (the_str challenge) (reset_challenge_prefix @ the_str intent @ '':'')
                then Inl (ChainError ResetChallengeUnbound)
              else if ce_signatures e = [] then Inl (ChainError ResetNotFresh)
              else if \<not> is_ascii (the_str challenge) then Inl (ChainConv ConvValue)
              else if list_ex (\<lambda>sig. safe_verify (verifier_for cl e) sig (utf8 (the_str challenge))) (ce_signatures e)
                then Inr () else Inl (ChainError ResetNotFresh)) = Inr u"
    using r p by (auto simp: bind_err_Inr simp del: verifier_for_signs split: option.splits)
  obtain c i where ci: "challenge = PStr c" "intent = PStr i" "startswith c (reset_challenge_prefix @ i @ '':'')"
    "\<exists>sig \<in> set (ce_signatures e). signs cl (ce_pubkey e) (ce_algorithm e) sig (utf8 c)"
    using rest by (auto simp: is_str_iff list_ex_iff split: if_splits)
  show ?thesis unfolding reset_met_def
    using sig d reset_fields_Inr[OF f[unfolded caught_Inr]] ci by blast
qed

section \<open>What the signed bytes determine\<close>

lemma op_name_inj [simp]: "op_name p = op_name q \<longleftrightarrow> p = q"
  by (cases p; cases q) simp_all

lemma chain_ops_name [simp]: "dict_get chain_ops (op_name p) = Some p"
  by (cases p) (simp_all add: chain_ops_def)

lemma opt_str_inj: "opt_str a = opt_str b \<longleftrightarrow> a = b"
  by (auto simp: opt_str_def split: option.splits)

lemma dict_get_opt [simp]: "dict_get (opt_field k v) j = (if j = k then map_option PStr v else None)"
  by (auto simp: opt_field_def split: option.splits)

lemma opt_PStr_inj: "map_option PStr a = map_option PStr b \<longleftrightarrow> a = b"
  by (cases a; cases b) simp_all

lemma signing_body_flat:
  assumes "int_prints seq"
  shows "distinct (map fst (signing_body seq p kind pk alg prev meta sid))
    \<and> (\<forall>kv \<in> set (signing_body seq p kind pk alg prev meta sid). scalar (snd kv))"
  using assms by (cases prev; cases meta; cases sid) (simp_all add: signing_body_def opt_str_def opt_field_def)

lemma signing_bytes_inj:
  assumes "signing_bytes seq p kind pk alg prev meta sid = signing_bytes seq' p' kind' pk' alg' prev' meta' sid'"
    and "int_prints seq" "int_prints seq'"
  shows "seq = seq' \<and> p = p' \<and> kind = kind' \<and> pk = pk' \<and> alg = alg' \<and> prev = prev' \<and> meta = meta' \<and> sid = sid'"
proof -
  let ?d = "signing_body seq p kind pk alg prev meta sid" and ?d' = "signing_body seq' p' kind' pk' alg' prev' meta' sid'"
  have get: "dict_get ?d k = dict_get ?d' k" for k
    using assms(1) signing_body_flat[OF assms(2)] signing_body_flat[OF assms(3)] unfolding signing_bytes_def
    by (intro canonical_json_get) (simp_all only: same_append_eq, blast+)
  show ?thesis
    using get[of "''seq''"] get[of "''op''"] get[of "''kind''"] get[of "''pubkey''"] get[of "''algorithm''"]
      get[of "''prev''"] get[of "''meta''"] get[of "''sealed_id''"]
    by (simp add: signing_body_def hexlify_inj opt_str_inj opt_PStr_inj map_add_def split: option.splits)
qed

definition bare :: "chain_entry \<Rightarrow> chain_entry" where
  "bare e = e\<lparr>ce_signatures := []\<rparr>"

lemma entry_bytes_bare:
  assumes "entry_bytes a = entry_bytes b" "int_prints (ce_seq a)" "int_prints (ce_seq b)"
  shows "bare a = bare b"
  using signing_bytes_inj[OF assms(1)[unfolded entry_bytes_def] assms(2,3)] by (cases a, cases b) (simp add: bare_def)

lemma bare_entry_hash: "bare a = bare b \<Longrightarrow> entry_hash a = entry_hash b \<and> ce_prev a = ce_prev b"
  by (cases a, cases b) (simp add: bare_def entry_hash_def entry_bytes_def)

text \<open>The bytes an entry is anchored by are longer than a digest.\<close>

lemma length_join_with: "x \<in> set xs \<Longrightarrow> length x \<le> length (join_with sep xs)"
  by (induction sep xs rule: join_with.induct) auto

lemma length_utf8: "length s \<le> length (utf8 s)"
  by (induction s) (auto simp: utf8_Cons utf8_char_def)

lemma signing_bytes_long: "32 < length (signing_bytes seq p kind pk alg prev meta sid)"
proof -
  let ?items = "sort_key fst (dumps_items (signing_body seq p kind pk alg prev meta sid))"
  let ?m = "json_member (''algorithm'', json_str alg)"
  have "(''algorithm'', json_str alg) \<in> set ?items"
    unfolding set_sort dumps_items_map by (simp add: signing_body_def)
  then have "?m \<in> set (map json_member ?items)" by (simp only: set_map) (rule imageI)
  then have "length ?m \<le> length (join_with '','' (map json_member ?items))" by (rule length_join_with)
  moreover have "13 \<le> length ?m" by (simp add: json_member_def json_str_def esc_str_def esc_char_def)
  ultimately have "13 \<le> length (canonical_json (signing_body seq p kind pk alg prev meta sid))"
    using length_utf8[of "json_dumps (PDict (signing_body seq p kind pk alg prev meta sid))"]
    by (simp add: canonical_json_def)
  then show ?thesis by (simp add: signing_bytes_def chain_domain_def utf8_def utf8_char_def)
qed

section \<open>Invariants of the replay\<close>

lemma replay_run_snoc:
  "replay_run cl fl (es @ [e]) = Inr st' \<longleftrightarrow> (\<exists>st. replay_run cl fl es = Inr st \<and> replay_step cl fl e st = Inr st')"
  by (auto simp: replay_run_def fold_err_append split: sum.splits)

lemma replay_run_Nil [simp]: "replay_run cl fl [] = Inr replay_start"
  by (simp add: replay_run_def)

lemma replay_step_Inr:
  "replay_step cl fl e st = Inr st' \<longleftrightarrow>
     ce_seq e = int (chain_length st) \<and> ce_prev e = tip_hash st \<and> check_authority cl fl e st = Inr ()
     \<and> (\<exists>st1. apply_entry cl fl e st = Inr st1
          \<and> st' = st1\<lparr>tip_hash := Some (entry_hash e), chain_length := chain_length st1 + 1\<rparr>)"
  by (auto simp: replay_step_def check_link_def bind_err_Inr)

lemma take_seat_Inr:
  assumes "take_seat fl e st = Inr st'"
  obtains i s where "ce_kind e \<in> set device_kinds" "dict_get slot_kind s = Some (ce_kind e)" "(i, s) \<notin> set (seats st)"
    "st' = st\<lparr>seats := (i, s) # seats st, resets := (if i \<in> set (resets st) then resets st else resets st @ [i])\<rparr>"
  using assms unfolding take_seat_def
  by (auto simp: bind_err_Inr Let_def split: if_splits)

lemma seat_member_Inr:
  "seat_member e st = Inr st' \<longleftrightarrow> \<not> shares_key e (members st)
     \<and> st' = st\<lparr>members := dict_set (ce_kind e) e (members st),
                device_ever := (device_ever st \<or> ce_kind e \<in> set device_kinds)\<rparr>"
  by (auto simp: seat_member_def)

lemma drop_member_Inr:
  "drop_member e st = Inr st' \<longleftrightarrow> (\<exists>m. dict_get (members st) (ce_kind e) = Some m \<and> ce_pubkey e = ce_pubkey m
     \<and> ce_algorithm e = ce_algorithm m) \<and> ce_kind e \<noteq> passphrase_kind \<and> dict_pop (ce_kind e) (members st) \<noteq> []
     \<and> \<not> (device_ever st \<and> has_kind passphrase_kind (dict_pop (ce_kind e) (members st))
           \<and> \<not> has_device (dict_pop (ce_kind e) (members st)))
     \<and> st' = st\<lparr>members := dict_pop (ce_kind e) (members st)\<rparr>"
  by (cases "dict_get (members st) (ce_kind e)") (auto simp: drop_member_def Let_def)

lemma shares_key_iff:
  "dict_wf ms \<Longrightarrow> shares_key e ms \<longleftrightarrow> (\<exists>k m. dict_get ms k = Some m \<and> k \<noteq> ce_kind e \<and> ce_pubkey m = ce_pubkey e)"
  by (auto simp: shares_key_def list_ex_iff dict_get_iff)

lemma apply_entry_frame:
  assumes "apply_entry cl fl e st = Inr st'"
  shows "tip_hash st' = tip_hash st \<and> chain_length st' = chain_length st"
  using assms by (auto simp: apply_entry_def bind_err_Inr seat_member_Inr drop_member_Inr
      elim!: take_seat_Inr split: chain_op.splits if_splits)

text \<open>The members are distinct keys under distinct kinds; each is the entry that seated it.\<close>

definition members_inv :: "chain_members \<Rightarrow> bool" where
  "members_inv ms \<longleftrightarrow> dict_wf ms \<and> (\<forall>k m. dict_get ms k = Some m \<longrightarrow> ce_kind m = k)
     \<and> (\<forall>k m j n. dict_get ms k = Some m \<and> dict_get ms j = Some n \<and> ce_pubkey m = ce_pubkey n \<longrightarrow> j = k)"

definition replay_inv :: "replay_vars \<Rightarrow> bool" where
  "replay_inv st \<longleftrightarrow> members_inv (members st) \<and> (chain_length st = 0 \<or> members st \<noteq> [])
     \<and> (has_device (members st) \<longrightarrow> device_ever st) \<and> distinct (seats st) \<and> distinct (resets st)
     \<and> set (resets st) = fst ` set (seats st) \<and> (sealed_id st \<noteq> None \<longrightarrow> device_ever st \<and> sealed_operator_pubkey st \<noteq> None)"

lemma members_inv_set:
  assumes "members_inv ms" "\<not> shares_key e ms"
  shows "members_inv (dict_set (ce_kind e) e ms)"
proof -
  have wf: "dict_wf ms" using assms(1) by (simp add: members_inv_def)
  have other: "ce_pubkey m \<noteq> ce_pubkey e" if "dict_get ms k = Some m" "k \<noteq> ce_kind e" for k m
    using assms(2) that unfolding shares_key_iff[OF wf] by blast
  show ?thesis
    using assms(1) other unfolding members_inv_def
    by (auto simp: dict_facts dict_wf_set split: if_splits) metis+
qed

lemma members_inv_pop: "members_inv ms \<Longrightarrow> members_inv (dict_pop k ms)"
  by (auto simp: members_inv_def dict_facts dict_wf_pop split: if_splits)

lemma dict_set_not_Nil [simp]: "dict_set k v d \<noteq> []"
  by (cases d) auto

lemma has_kind_set: "has_kind j (dict_set k v ms) \<longleftrightarrow> j = k \<or> has_kind j ms"
  by (simp add: has_kind_def dict_facts)

lemma has_kind_pop: "has_kind j (dict_pop k ms) \<longleftrightarrow> j \<noteq> k \<and> has_kind j ms"
  by (simp add: has_kind_def dict_facts)

lemma replay_start_inv: "replay_inv replay_start"
  by (simp add: replay_inv_def replay_start_def members_inv_def has_device_def dict_wf_def)

lemma seat_member_inv:
  assumes "seat_member e st = Inr st'" "replay_inv st"
  shows "replay_inv st'"
  using assms members_inv_set[of "members st" e]
  by (auto simp: seat_member_Inr replay_inv_def has_device_iff has_kind_set)

lemma apply_entry_inv:
  assumes "apply_entry cl fl e st = Inr st'" "replay_inv st"
    and "ce_op e = OpSealId \<Longrightarrow> has_device (members st)"
  shows "replay_inv st'"
proof (cases "ce_op e")
  case OpAdd
  then show ?thesis using assms(1,2) seat_member_inv by (simp add: apply_entry_def)
next
  case OpRemove
  then show ?thesis using assms(1,2) members_inv_pop[of "members st" "ce_kind e"]
    by (auto simp: apply_entry_def drop_member_Inr replay_inv_def has_device_iff has_kind_pop)
next
  case OpSealId
  then obtain i k where "st' = st\<lparr>sealed_id := Some i, sealed_operator_pubkey := Some k\<rparr>"
    using assms(1) by (auto simp: apply_entry_def bind_err_Inr)
  then show ?thesis using assms(2) assms(3)[OF OpSealId] unfolding replay_inv_def by simp
next
  case OpRotate
  then have "st' = st\<lparr>operator_pubkey := Some (ce_pubkey e)\<rparr>"
    using assms(1) by (simp add: apply_entry_def split: if_splits)
  then show ?thesis using assms(2) unfolding replay_inv_def by simp
next
  case OpReset
  then obtain st1 where t: "take_seat fl e st = Inr st1" and s: "seat_member e st1 = Inr st'"
    using assms(1) by (auto simp: apply_entry_def bind_err_Inr)
  obtain i s where "(i, s) \<notin> set (seats st)"
    and st1: "st1 = st\<lparr>seats := (i, s) # seats st, resets := (if i \<in> set (resets st) then resets st else resets st @ [i])\<rparr>"
    by (rule take_seat_Inr[OF t])
  moreover have "set (resets st1) = fst ` set (seats st1)" "distinct (resets st1)"
    using assms(2) unfolding st1 replay_inv_def by (simp_all add: insert_absorb)
  ultimately have "replay_inv st1" using assms(2) unfolding replay_inv_def by simp
  then show ?thesis by (rule seat_member_inv[OF s])
qed

lemma check_authority_later:
  assumes "check_authority cl fl e st = Inr u" "ce_seq e \<noteq> 0"
  obtains seal where "entry_seal e st = Inr seal"
    "if ce_op e = OpReset then require_reset cl fl (members st) e (entry_message e seal) = Inr ()
     else require_threshold cl (members st) e (entry_message e seal) (device_ever st) = Inr ()"
  using assms by (auto simp: check_authority_def bind_err_Inr Let_def split: if_splits)

lemma check_authority_seal:
  assumes "check_authority cl fl e st = Inr u" "ce_op e = OpSealId"
  shows "has_device (members st) \<and> sealed_id st = None"
  using assms by (auto simp: check_authority_def entry_seal_def bind_err_Inr split: if_splits)

lemma replay_step_inv:
  assumes "replay_step cl fl e st = Inr st'" "replay_inv st"
  shows "replay_inv st'"
proof -
  obtain st1 where a: "check_authority cl fl e st = Inr ()" "apply_entry cl fl e st = Inr st1"
    and st': "st' = st1\<lparr>tip_hash := Some (entry_hash e), chain_length := chain_length st1 + 1\<rparr>"
    using assms(1) unfolding replay_step_Inr by blast
  have inv: "replay_inv st1" by (rule apply_entry_inv[OF a(2) assms(2)]) (use check_authority_seal[OF a(1)] in blast)
  have "members st1 \<noteq> []"
  proof (cases "chain_length st = 0")
    case True
    then have "ce_seq e = 0" using assms(1) by (simp add: replay_step_Inr)
    then have "ce_op e = OpAdd" using a(1) by (auto simp: check_authority_def split: if_splits)
    then show ?thesis using a(2) by (auto simp: apply_entry_def seat_member_Inr)
  next
    case False
    then show ?thesis using inv apply_entry_frame[OF a(2)] by (simp add: replay_inv_def)
  qed
  then show ?thesis using inv unfolding replay_inv_def st' by auto
qed

lemma replay_run_inv: "replay_run cl fl es = Inr st \<Longrightarrow> replay_inv st"
  unfolding replay_run_def by (erule fold_err_invariant) (rule replay_start_inv, rule replay_step_inv)

lemma replay_run_length:
  "replay_run cl fl es = Inr st \<Longrightarrow> chain_length st = length es
     \<and> tip_hash st = (if es = [] then None else Some (entry_hash (last es)))"
proof (induction es arbitrary: st rule: rev_induct)
  case Nil
  then show ?case by (auto simp: replay_start_def)
next
  case (snoc e es)
  then obtain st1 st2 where "replay_run cl fl es = Inr st1" "apply_entry cl fl e st1 = Inr st2"
    "st = st2\<lparr>tip_hash := Some (entry_hash e), chain_length := chain_length st2 + 1\<rparr>"
    unfolding replay_run_snoc replay_step_Inr by blast
  then show ?case using snoc.IH apply_entry_frame[of cl fl e st1 st2] by simp
qed

lemma truncate_fields [simp]:
  "members (chain_state.truncate st) = members st" "sealed_id (chain_state.truncate st) = sealed_id st"
  "operator_pubkey (chain_state.truncate st) = operator_pubkey st" "device_ever (chain_state.truncate st) = device_ever st"
  "tip_hash (chain_state.truncate st) = tip_hash st" "chain_length (chain_state.truncate st) = chain_length st"
  "resets (chain_state.truncate st) = resets st"
  "sealed_operator_pubkey (chain_state.truncate st) = sealed_operator_pubkey st"
  by (simp_all add: chain_state.truncate_def)

lemma replay_state_Inr:
  "replay_state cl fl es = Inr s \<longleftrightarrow> (\<exists>st. replay_run cl fl es = Inr st \<and> s = chain_state.truncate st)"
  by (auto simp: replay_state_def bind_err_Inr)

lemma replay_state_prefix:
  assumes "replay_state cl fl (es @ fs) = Inr s'"
  shows "\<exists>s. replay_state cl fl es = Inr s"
  using assms by (auto simp: replay_state_Inr replay_run_def fold_err_append split: sum.splits)

text \<open>The roster after an entry, by its operation.\<close>

definition roster_after :: "chain_entry \<Rightarrow> chain_members \<Rightarrow> chain_members" where
  "roster_after e ms = (case ce_op e of
     OpAdd \<Rightarrow> dict_set (ce_kind e) e ms | OpReset \<Rightarrow> dict_set (ce_kind e) e ms
   | OpRemove \<Rightarrow> dict_pop (ce_kind e) ms | _ \<Rightarrow> ms)"

lemma apply_entry_roster:
  assumes "apply_entry cl fl e st = Inr st'"
  shows "members st' = roster_after e (members st)"
  using assms by (auto simp: apply_entry_def roster_after_def bind_err_Inr seat_member_Inr drop_member_Inr
      elim!: take_seat_Inr split: chain_op.splits if_splits)

lemma apply_entry_seal:
  assumes "apply_entry cl fl e st = Inr st'" "entry_seal e st = Inr seal"
  shows "seal = (if ce_op e = OpSealId then sealed_id st' else sealed_id st)"
  using assms by (auto simp: apply_entry_def entry_seal_def bind_err_Inr split: if_splits)

lemma apply_reset_device:
  "apply_entry cl fl e st = Inr st' \<Longrightarrow> ce_op e = OpReset \<Longrightarrow> ce_kind e \<in> set device_kinds"
  by (auto simp: apply_entry_def bind_err_Inr elim!: take_seat_Inr)

text \<open>A set that holds the passphrase, and a device once one was sealed, keeps both.\<close>

definition operable :: "replay_vars \<Rightarrow> bool" where
  "operable st \<longleftrightarrow> has_kind passphrase_kind (members st) \<and> (device_ever st \<longrightarrow> has_device (members st))"

lemma apply_entry_operable:
  assumes "apply_entry cl fl e st = Inr st'" "operable st"
  shows "operable st'"
  using assms by (auto simp: apply_entry_def operable_def bind_err_Inr seat_member_Inr drop_member_Inr
      has_device_iff has_kind_set has_kind_pop elim!: take_seat_Inr split: chain_op.splits if_splits)

lemma replay_step_operable: "replay_step cl fl e st = Inr st' \<Longrightarrow> operable st \<Longrightarrow> operable st'"
  unfolding replay_step_Inr using apply_entry_operable by (auto simp: operable_def)

lemma genesis_operable:
  assumes "replay_step cl fl e replay_start = Inr st" "ce_kind e = passphrase_kind"
  shows "operable st"
proof -
  have "ce_seq e = 0" "check_authority cl fl e replay_start = Inr ()"
    using assms(1) unfolding replay_step_Inr by (auto simp: replay_start_def)
  then have "ce_op e = OpAdd" by (auto simp: check_authority_def split: if_splits)
  then have "members st = dict_set passphrase_kind e [] \<and> device_ever st = (passphrase_kind \<in> set device_kinds)"
    using assms unfolding replay_step_Inr by (auto simp: apply_entry_def seat_member_Inr replay_start_def)
  then show ?thesis using device_not_passphrase[of passphrase_kind] by (auto simp: operable_def has_kind_def)
qed

lemma replay_run_operable:
  assumes "replay_run cl fl (e # es) = Inr st" "ce_kind e = passphrase_kind"
  shows "operable st"
proof -
  obtain st0 where s: "replay_step cl fl e replay_start = Inr st0" "fold_err (replay_step cl fl) es st0 = Inr st"
    using assms(1) by (auto simp: replay_run_def split: sum.splits)
  show ?thesis
    by (rule fold_err_invariant[where P = operable, OF s(2) genesis_operable[OF s(1) assms(2)]])
      (rule replay_step_operable)
qed

text \<open>Equal tips, equal histories: the induction behind the tamper evidence.\<close>

lemma run_history:
  assumes "replay_run cl fl es = Inr s" "replay_run cl fl' es' = Inr s'" "tip_hash s = tip_hash s'"
    and "\<forall>e \<in> set es \<union> set es'. int_prints (ce_seq e)"
  shows "map bare es = map bare es' \<or> (\<exists>a \<in> set es. \<exists>b \<in> set es'. sha_collision (entry_bytes a) (entry_bytes b))"
  using assms
proof (induction es arbitrary: es' s s' rule: rev_induct)
  case Nil
  then show ?case using replay_run_length[OF Nil.prems(1)] replay_run_length[OF Nil.prems(2)] by (auto split: if_splits)
next
  case (snoc e es)
  have tips: "tip_hash s = Some (entry_hash e)" "tip_hash s' = (if es' = [] then None else Some (entry_hash (last es')))"
    using replay_run_length[OF snoc.prems(1)] replay_run_length[OF snoc.prems(2)] by simp_all
  then obtain fs f where es': "es' = fs @ [f]" and hash: "entry_hash e = entry_hash f"
    using snoc.prems(3) by (cases es' rule: rev_exhaust) auto
  obtain t t' where t: "replay_run cl fl es = Inr t" "replay_step cl fl e t = Inr s"
    and t': "replay_run cl fl' fs = Inr t'" "replay_step cl fl' f t' = Inr s'"
    using snoc.prems(1,2) unfolding es' replay_run_snoc by blast
  show ?case
  proof (cases "entry_bytes e = entry_bytes f")
    case True
    then have b: "bare e = bare f" using snoc.prems(4) by (intro entry_bytes_bare) (auto simp: es')
    have "tip_hash t = tip_hash t'"
      using t(2) t'(2) bare_entry_hash[OF b] unfolding replay_step_Inr by auto
    then have "map bare es = map bare fs
        \<or> (\<exists>a \<in> set es. \<exists>b \<in> set fs. sha_collision (entry_bytes a) (entry_bytes b))"
      by (intro snoc.IH[OF t(1) t'(1)]) (use snoc.prems(4) in \<open>auto simp: es'\<close>)
    then show ?thesis using b by (auto simp: es')
  next
    case False
    then have "sha_collision (entry_bytes e) (entry_bytes f)"
      using hash by (simp add: entry_hash_def sha_collision_def hexlify_inj)
    then show ?thesis by (auto simp: es')
  qed
qed

section \<open>Stored records read back\<close>

lemma chain_ops_get: "dict_get chain_ops s = Some p \<longleftrightarrow> s = op_name p"
  by (cases p) (auto simp: chain_ops_def)

lemma build_entry_Inr:
  assumes "build_entry cl seq p kind pk alg prev sigs meta = Inr e"
  shows "e = \<lparr>ce_seq = seq, ce_op = ce_op e, ce_kind = kind, ce_pubkey = pk, ce_algorithm = ce_algorithm e, ce_prev = prev,
           ce_signatures = sigs, ce_meta = meta\<rparr> \<and> p = PStr (op_name (ce_op e)) \<and> alg = PStr (ce_algorithm e)"
proof -
  obtain q where q: "dict_get chain_ops (the_str p) = Some q"
    using assms by (cases "dict_get chain_ops (the_str p)") (simp_all add: build_entry_def)
  have "is_str p" and alg: "\<exists>a. alg = PStr a"
    and e: "e = \<lparr>ce_seq = seq, ce_op = q, ce_kind = kind, ce_pubkey = pk, ce_algorithm = the_str alg, ce_prev = prev,
           ce_signatures = sigs, ce_meta = meta\<rparr>"
    using assms unfolding build_entry_def q option.simps
    by (auto simp: bind_err_Inr split: if_splits)
  then show ?thesis using q chain_ops_get by (auto simp: is_str_iff)
qed

lemma record_fields:
  "item (the_dict (as_record e)) ''seq'' = Inr (PInt (ce_seq e))"
  "item (the_dict (as_record e)) ''op'' = Inr (PStr (op_name (ce_op e)))"
  "item (the_dict (as_record e)) ''kind'' = Inr (PStr (ce_kind e))"
  "item (the_dict (as_record e)) ''pubkey'' = Inr (PStr (hexlify (ce_pubkey e)))"
  "item (the_dict (as_record e)) ''algorithm'' = Inr (PStr (ce_algorithm e))"
  "get (the_dict (as_record e)) ''signatures'' = PList (map (PStr \<circ> b64_encode) (ce_signatures e))"
  "get (the_dict (as_record e)) ''prev'' = opt_str (ce_prev e)"
  "get (the_dict (as_record e)) ''meta'' = opt_str (ce_meta e)"
  by (simp_all add: as_record_def item_def get_def opt_str_def map_add_def split: option.split)

lemma signatures_back: "map_err signature_of (map (PStr \<circ> b64_encode) sigs) = Inr sigs"
  by (induction sigs) (simp_all add: signature_of_def b64_decode_encode)

lemma opt_text_str [simp]: "opt_text (opt_str v) = v"
  by (cases v) (simp_all add: opt_text_def opt_str_def)

lemma record_reads:
  assumes "build_entry cl (ce_seq e) (PStr (op_name (ce_op e))) (ce_kind e) (ce_pubkey e) (PStr (ce_algorithm e))
      (ce_prev e) (ce_signatures e) (ce_meta e) = Inr e"
  shows "entry_of_record cl (as_record e) = Inr e"
proof -
  have "is_dict (as_record e)" by (simp add: as_record_def)
  moreover have "well_typed (PInt (ce_seq e)) (PStr (ce_kind e)) (opt_str (ce_prev e)) (opt_str (ce_meta e))"
    by (simp add: well_typed_def opt_str_def split: option.split)
  moreover have "conv (if truthy (PList vs) then iterate (PList vs) else Inr []) = Inr vs" for vs
    by (cases vs) (simp_all add: conv_def)
  ultimately show ?thesis
    unfolding entry_of_record_def Let_def record_fields
    using assms signatures_back[of "ce_signatures e"]
    by (cases "ce_signatures e = []") (simp_all add: conv_def hex_field_def)
qed

lemma entry_read_back:
  assumes "entry_of_record cl v = Inr e"
  shows "entry_of_record cl (as_record e) = Inr e"
proof -
  obtain seq p kind pk alg prev sigs meta where "build_entry cl seq p kind pk alg prev sigs meta = Inr e"
    using assms unfolding entry_of_record_def Let_def by (auto simp: bind_err_Inr split: if_splits)
  then show ?thesis using build_entry_Inr by (metis chain_entry.simps record_reads)
qed

section \<open>Properties\<close>


text \<open>C4: a chain that begins with the passphrase never loses the power to act. Whatever entries follow,
  the passphrase stays a member, a device is a member from the first one sealed on, and no two
  members share a key, so the two signatures an act needs are of two keys.\<close>

theorem passphrase_chain_operable:
  assumes "replay_state cl fl (e # es) = Inr st" and "ce_kind e = passphrase_kind"
  shows "has_kind passphrase_kind (members st) \<and> (device_ever st \<longrightarrow> has_device (members st))
    \<and> (\<forall>k m j n. dict_get (members st) k = Some m \<and> dict_get (members st) j = Some n \<and> ce_pubkey m = ce_pubkey n
         \<longrightarrow> j = k)"
proof -
  obtain s where s: "replay_run cl fl (e # es) = Inr s" "st = chain_state.truncate s"
    using assms(1) unfolding replay_state_Inr by blast
  have "operable s" "members_inv (members s)"
    using replay_run_operable[OF s(1) assms(2)] replay_run_inv[OF s(1)] by (simp_all add: replay_inv_def)
  then show ?thesis unfolding operable_def members_inv_def s(2) truncate_fields by blast
qed

text \<open>C10: the tip commits to the whole chain. Two accepted chains with the same tip hash have the same
  entries in the same order, up to the signatures they carry, or an entry of each show an explicit
  SHA-256 collision: no earlier entry can be altered, left out or moved without the tip changing.\<close>

theorem tip_determines_history:
  assumes "replay_state cl fl es = Inr st" and "replay_state cl fl' es' = Inr st'" and "tip_hash st = tip_hash st'"
    and "\<forall>e \<in> set es \<union> set es'. int_prints (ce_seq e)"
  shows "map bare es = map bare es'
    \<or> (\<exists>a \<in> set es. \<exists>b \<in> set es'. sha_collision (entry_bytes a) (entry_bytes b))"
proof -
  obtain s s' where s: "replay_run cl fl es = Inr s" "st = chain_state.truncate s"
    and s': "replay_run cl fl' es' = Inr s'" "st' = chain_state.truncate s'"
    using assms(1,2) unfolding replay_state_Inr by blast
  have "tip_hash s = tip_hash s'" using assms(3) by (simp add: s(2) s'(2))
  then show ?thesis by (rule run_history[OF s(1) s'(1) _ assms(4)])
qed

text \<open>A digest authorises one act on one bootloader. Two acts signed after the seal with the same
  32-byte message are the same in every field, and under the same sealed id, or the bytes hashed are
  a SHA-256 collision; and the message of a sealed act is never that of an entry before the seal.\<close>

theorem act_message_binds:
  assumes "act_message seq p kind pk alg prev meta (Some i) = act_message seq' p' kind' pk' alg' prev' meta' sid'"
    and "int_prints seq" and "int_prints seq'"
  shows "(seq = seq' \<and> p = p' \<and> kind = kind' \<and> pk = pk' \<and> alg = alg' \<and> prev = prev' \<and> meta = meta' \<and> sid' = Some i)
    \<or> sha_collision (signing_bytes seq p kind pk alg prev meta (Some i))
        (signing_bytes seq' p' kind' pk' alg' prev' meta' sid')"
proof (cases sid')
  case None
  have "32 < length (signing_bytes seq' p' kind' pk' alg' prev' meta' None)" by (rule signing_bytes_long)
  moreover have "length (signing_bytes seq' p' kind' pk' alg' prev' meta' None) = 32"
    using arg_cong[OF assms(1), of length] by (simp add: act_message_def None)
  ultimately show ?thesis by simp
next
  case (Some j)
  then have "sha256 (signing_bytes seq p kind pk alg prev meta (Some i))
      = sha256 (signing_bytes seq' p' kind' pk' alg' prev' meta' (Some j))"
    using assms(1) by (simp add: act_message_def)
  then show ?thesis
    using signing_bytes_inj[of seq p kind pk alg prev meta "Some i" seq' p' kind' pk' alg' prev' meta' "Some j"] assms(2,3)
    by (auto simp: Some sha_collision_def)
qed

text \<open>What the store keeps of a chain reads back as the chain: entries read from any stored records
  are written as records that read as the same entries, every field and signature included.\<close>

theorem chain_records_roundtrip:
  assumes "entries_from_records cl rs = Inr es"
  shows "entries_from_records cl (map as_record es) = Inr es"
proof -
  have "list_all2 (\<lambda>v e. entry_of_record cl v = Inr e) rs es"
    using assms by (simp add: entries_from_records_def map_err_Inr_iff)
  then have "list_all2 (\<lambda>v e. entry_of_record cl v = Inr e) (map as_record es) es"
    by (induction rule: list_all2_induct) (simp_all add: entry_read_back)
  then show ?thesis by (simp add: entries_from_records_def map_err_Inr_iff)
qed

section \<open>Examples\<close>

text \<open>A key library whose every 32-byte key loads and signs by being written twice.\<close>

definition sample_lib :: crypto_lib where
  "sample_lib = \<lparr>ed25519_loads = \<lambda>k. True, ed25519_verifies = \<lambda>k sig msg. sig = k @ k, p256_loads = \<lambda>x y. False,
     p256_verifies = \<lambda>x y r s msg. False, secp256k1_loads = \<lambda>k. True\<rparr>"

definition chain_sample_key :: "byte \<Rightarrow> bytes" where "chain_sample_key b = replicate 32 b"
definition sample_sig :: "byte \<Rightarrow> bytes" where "sample_sig b = chain_sample_key b @ chain_sample_key b"

lemma sample_signs [simp]:
  "signs sample_lib (chain_sample_key a) ''ed25519'' (sample_sig b) msg \<longleftrightarrow> a = b"
  by (auto simp: signs_def key_of_raw_def public_key_from_b64u_def sample_lib_def chain_sample_key_def sample_sig_def
      simp flip: replicate_add split: option.split)

definition sample_entry :: "int \<Rightarrow> chain_op \<Rightarrow> string \<Rightarrow> byte \<Rightarrow> string option \<Rightarrow> byte list \<Rightarrow> chain_entry" where
  "sample_entry seq p kind k prev signers = \<lparr>ce_seq = seq, ce_op = p, ce_kind = kind, ce_pubkey = chain_sample_key k,
     ce_algorithm = ''ed25519'', ce_prev = prev, ce_signatures = map sample_sig signers, ce_meta = None\<rparr>"

lemma sample_key_inj [simp]: "chain_sample_key a = chain_sample_key b \<longleftrightarrow> a = b"
  by (simp add: chain_sample_key_def)

lemma sample_fields [simp]:
  "ce_seq (sample_entry s p k b q ws) = s" "ce_op (sample_entry s p k b q ws) = p"
  "ce_kind (sample_entry s p k b q ws) = k" "ce_pubkey (sample_entry s p k b q ws) = chain_sample_key b"
  "ce_algorithm (sample_entry s p k b q ws) = ''ed25519''" "ce_prev (sample_entry s p k b q ws) = q"
  "ce_signatures (sample_entry s p k b q ws) = map sample_sig ws" "ce_meta (sample_entry s p k b q ws) = None"
  by (simp_all add: sample_entry_def)

lemmas replay_eval = check_authority_def entry_seal_def apply_entry_def seat_member_def drop_member_def shares_key_def
  require_threshold_def require_majority_def required_signatures_def has_kind_def has_device_def member_verifiers_def
  passphrase_kind_def device_kinds_def

lemma sample_valid: "validate_genesis_pubkey sample_lib (Some (chain_sample_key n)) ''ed25519'' = Some ''ed25519''"
proof -
  have "py_lower (strip ''ed25519'') = ''ed25519''" by code_simp
  then show ?thesis
    by (simp add: validate_genesis_pubkey_def genesis_algorithms_def public_key_from_b64u_def sample_lib_def chain_sample_key_def)
qed

lemma sample_reads:
  assumes "p \<in> {OpAdd, OpRemove}"
  shows "entry_of_record sample_lib (as_record (sample_entry s p k b q ws)) = Inr (sample_entry s p k b q ws)"
proof (rule record_reads)
  show "build_entry sample_lib (ce_seq (sample_entry s p k b q ws)) (PStr (op_name (ce_op (sample_entry s p k b q ws))))
      (ce_kind (sample_entry s p k b q ws)) (ce_pubkey (sample_entry s p k b q ws))
      (PStr (ce_algorithm (sample_entry s p k b q ws))) (ce_prev (sample_entry s p k b q ws))
      (ce_signatures (sample_entry s p k b q ws)) (ce_meta (sample_entry s p k b q ws)) = Inr (sample_entry s p k b q ws)"
    using assms sample_valid[of b]
    by (auto simp: build_entry_def supported_algorithms_def sample_entry_def)
qed

text \<open>The chain of a passphrase and a first device.\<close>

definition genesis_entry :: chain_entry where "genesis_entry = sample_entry 0 OpAdd ''passphrase'' 1 None []"
definition device_entry :: chain_entry where
  "device_entry = sample_entry 1 OpAdd ''primary-phone'' 2 (Some (entry_hash genesis_entry)) [1]"

definition after_genesis :: replay_vars where
  "after_genesis = replay_start\<lparr>members := [(''passphrase'', genesis_entry)], tip_hash := Some (entry_hash genesis_entry),
     chain_length := 1\<rparr>"

lemma genesis_step: "replay_step sample_lib fl genesis_entry replay_start = Inr after_genesis"
  by (simp add: replay_step_Inr after_genesis_def replay_start_def genesis_entry_def replay_eval)

definition after_device :: replay_vars where
  "after_device = after_genesis\<lparr>members := [(''passphrase'', genesis_entry), (''primary-phone'', device_entry)],
     device_ever := True, tip_hash := Some (entry_hash device_entry), chain_length := 2\<rparr>"

lemma device_step: "replay_step sample_lib fl device_entry after_genesis = Inr after_device"
  by (simp add: replay_step_Inr after_device_def after_genesis_def replay_start_def device_entry_def
      genesis_entry_def replay_eval)

lemma genesis_run: "replay_run sample_lib fl [genesis_entry, device_entry] = Inr after_device"
  by (simp add: replay_run_def genesis_step device_step)

lemma sample_chain:
  "replay_state sample_lib fl ([genesis_entry] @ [device_entry]) = Inr (chain_state.truncate after_device)"
  by (simp add: replay_state_def genesis_run)


theorem passphrase_chain_operable_witness:
  "has_kind passphrase_kind (members after_device) \<and> has_device (members after_device)"
proof -
  have "replay_state sample_lib id (genesis_entry # [device_entry]) = Inr (chain_state.truncate after_device)"
    using sample_chain[of id] by simp
  moreover have "ce_kind genesis_entry = passphrase_kind" by (simp add: genesis_entry_def passphrase_kind_def)
  moreover have "device_ever after_device" by (simp add: after_device_def)
  ultimately show ?thesis using passphrase_chain_operable[of sample_lib id genesis_entry "[device_entry]"] by fastforce
qed

theorem tip_determines_history_witness:
  "map bare [genesis_entry, device_entry] = map bare [genesis_entry, device_entry]
    \<or> (\<exists>a \<in> set [genesis_entry, device_entry]. \<exists>b \<in> set [genesis_entry, device_entry].
         sha_collision (entry_bytes a) (entry_bytes b))"
proof -
  have chain: "replay_state sample_lib id [genesis_entry, device_entry] = Inr (chain_state.truncate after_device)"
    using sample_chain[of id] by simp
  have "\<forall>e \<in> set [genesis_entry, device_entry] \<union> set [genesis_entry, device_entry]. int_prints (ce_seq e)"
    by (simp add: genesis_entry_def device_entry_def int_prints_def) code_simp
  from tip_determines_history[OF chain chain refl this] show ?thesis .
qed

theorem act_message_binds_witness:
  "OpAdd = OpAdd \<and> Some ''vault'' = Some ''vault''
    \<or> sha_collision (signing_bytes 3 OpAdd ''primary-phone'' (chain_sample_key 2) ''ed25519'' None None (Some ''vault''))
       (signing_bytes 3 OpAdd ''primary-phone'' (chain_sample_key 2) ''ed25519'' None None (Some ''vault''))"
proof -
  have "int_prints 3" by code_simp
  from act_message_binds[OF refl this this] show ?thesis by blast
qed

theorem chain_records_roundtrip_witness:
  "entries_from_records sample_lib (map as_record [genesis_entry]) = Inr [genesis_entry]"
proof -
  have "entry_of_record sample_lib (as_record genesis_entry) = Inr genesis_entry"
    unfolding genesis_entry_def by (rule sample_reads) simp
  then have "entries_from_records sample_lib [as_record genesis_entry] = Inr [genesis_entry]"
    by (simp add: entries_from_records_def)
  from chain_records_roundtrip[OF this] show ?thesis .
qed

text \<open>A chain older than the passphrase rule: a phone, a laptop, the phone removed by both, and only then
  the passphrase.\<close>

definition legacy_phone :: chain_entry where "legacy_phone = sample_entry 0 OpAdd ''primary-phone'' 2 None []"
definition legacy_laptop :: chain_entry where
  "legacy_laptop = sample_entry 1 OpAdd ''laptop'' 3 (Some (entry_hash legacy_phone)) [2]"
definition legacy_removal :: chain_entry where
  "legacy_removal = sample_entry 2 OpRemove ''primary-phone'' 2 (Some (entry_hash legacy_laptop)) [2, 3]"
definition legacy_passphrase :: chain_entry where
  "legacy_passphrase = sample_entry 3 OpAdd ''passphrase'' 1 (Some (entry_hash legacy_removal)) [3]"

definition legacy_chain :: "chain_entry list" where
  "legacy_chain = [legacy_phone, legacy_laptop, legacy_removal, legacy_passphrase]"

definition legacy_vars :: "chain_entry \<Rightarrow> chain_members \<Rightarrow> replay_vars" where
  "legacy_vars e ms = replay_start\<lparr>members := ms, device_ever := True, tip_hash := Some (entry_hash e),
     chain_length := nat (ce_seq e) + 1\<rparr>"

lemma legacy_steps:
  "replay_step sample_lib fl legacy_phone replay_start = Inr (legacy_vars legacy_phone [(''primary-phone'', legacy_phone)])"
  "replay_step sample_lib fl legacy_laptop (legacy_vars legacy_phone [(''primary-phone'', legacy_phone)])
     = Inr (legacy_vars legacy_laptop [(''primary-phone'', legacy_phone), (''laptop'', legacy_laptop)])"
  "replay_step sample_lib fl legacy_removal (legacy_vars legacy_laptop [(''primary-phone'', legacy_phone), (''laptop'', legacy_laptop)])
     = Inr (legacy_vars legacy_removal [(''laptop'', legacy_laptop)])"
  "replay_step sample_lib fl legacy_passphrase (legacy_vars legacy_removal [(''laptop'', legacy_laptop)])
     = Inr (legacy_vars legacy_passphrase [(''laptop'', legacy_laptop), (''passphrase'', legacy_passphrase)])"
  by (simp_all add: replay_step_Inr legacy_vars_def replay_start_def legacy_phone_def legacy_laptop_def
      legacy_removal_def legacy_passphrase_def replay_eval)

lemma no_device_stuck:
  assumes "replay_run cl fl es = Inr st" and "has_kind passphrase_kind (members st)" and "device_ever st"
    and "\<not> has_device (members st)" and "sealed_id st = None"
  shows "\<exists>r. replay_state cl fl (es @ [e]) = Inl r"
proof (rule ccontr)
  assume "\<nexists>r. replay_state cl fl (es @ [e]) = Inl r"
  then obtain s' where "replay_state cl fl (es @ [e]) = Inr s'" by (cases "replay_state cl fl (es @ [e])") auto
  then obtain st' where "replay_step cl fl e st = Inr st'"
    using assms(1) unfolding replay_state_Inr replay_run_snoc by auto
  then have auth: "check_authority cl fl e st = Inr ()" and seq: "ce_seq e = int (chain_length st)"
    unfolding replay_step_Inr by auto
  have "es \<noteq> []" using assms(1,3) by (auto simp: replay_start_def)
  then have later: "ce_seq e \<noteq> 0" using seq replay_run_length[OF assms(1)] by simp
  obtain seal where seal: "entry_seal e st = Inr seal"
    and need: "if ce_op e = OpReset then require_reset cl fl (members st) e (entry_message e seal) = Inr ()
     else require_threshold cl (members st) e (entry_message e seal) (device_ever st) = Inr ()"
    by (rule check_authority_later[OF auth later])
  have "ce_op e \<noteq> OpReset" using seal assms(5) by (auto simp: entry_seal_def)
  then have "require_threshold cl (members st) e (entry_message e seal) True = Inr ()" using need assms(3) by simp
  then have "threshold_met cl (members st) (ce_signatures e) (entry_message e seal) True"
    using replay_run_inv[OF assms(1)] by (auto simp: replay_inv_def members_inv_def intro: require_threshold_met)
  then obtain k where "k \<in> set device_kinds" "has_kind k (members st)"
    using assms(2) by (auto simp: threshold_met_def signed_by_def has_kind_def)
  then show False using assms(4) by (auto simp: has_device_iff)
qed

text \<open>A chain that predates the passphrase can lock itself. The rule that keeps a last device guards
  only a set that holds the passphrase, so a legacy set may remove its phone and seat the passphrase
  afterwards; the accepted chain then has the passphrase and a device on record but no device among
  its members, and every further entry is refused, whoever signs it.\<close>

theorem legacy_chain_stuck:
  "\<exists>st. replay_state sample_lib fl legacy_chain = Inr st \<and> has_kind passphrase_kind (members st)
    \<and> device_ever st \<and> \<not> has_device (members st)
    \<and> (\<forall>e. \<exists>r. replay_state sample_lib fl (legacy_chain @ [e]) = Inl r)"
proof -
  let ?st = "legacy_vars legacy_passphrase [(''laptop'', legacy_laptop), (''passphrase'', legacy_passphrase)]"
  have run: "replay_run sample_lib fl legacy_chain = Inr ?st"
    by (simp add: replay_run_def legacy_chain_def legacy_steps)
  have facts: "has_kind passphrase_kind (members ?st)" "device_ever ?st" "\<not> has_device (members ?st)" "sealed_id ?st = None"
    by (simp_all add: legacy_vars_def has_kind_def has_device_def passphrase_kind_def device_kinds_def replay_start_def)
  have "replay_state sample_lib fl legacy_chain = Inr (chain_state.truncate ?st)" using run by (auto simp: replay_state_Inr)
  then show ?thesis using no_device_stuck[OF run facts] facts by auto
qed

end
