(* ===== verification/GenesisStore.thy ===== *)
theory GenesisStore
  imports GenesisChain
begin

text \<open>
  The high-water mark of a sealed chain (\<^verbatim>\<open>src/recto/bootloader/genesis_chain.py\<close>) and the file store
  of members, chain and mark (\<^verbatim>\<open>src/recto/bootloader/state.py\<close>), with the command that seals a
  passphrase (\<^verbatim>\<open>src/recto/cli.py\<close>). The state is the pair of files \<^verbatim>\<open>genesis_members.json\<close> and
  \<^verbatim>\<open>genesis_seal_mark.json\<close>; an operation that writes returns the files after each of its atomic
  writes, in order, so that a crash between two writes is a prefix of that list. \<open>None\<close> in Python,
  or a mark that is absent, is \<open>PNone\<close>. The clock reading is an argument.
\<close>

section \<open>The seal mark\<close>

definition is_sealed :: "chain_state option \<Rightarrow> bool" where
  "is_sealed st \<longleftrightarrow> (case st of None \<Rightarrow> False | Some s \<Rightarrow> sealed_id s \<noteq> None)"

text \<open>\<open>xs[i]\<close>, with Python's negative positions.\<close>

definition py_index :: "'a list \<Rightarrow> int \<Rightarrow> 'a option" where
  "py_index xs i = (let j = (if i < 0 then i + int (length xs) else i)
     in if 0 \<le> j \<and> j < int (length xs) then Some (xs ! nat j) else None)"

definition seal_mark_of :: "chain_entry list \<Rightarrow> chain_state \<Rightarrow> chain_error + pyval" where
  "seal_mark_of es st = (case sealed_id st of
     None \<Rightarrow> Inr PNone
   | Some i \<Rightarrow> (case find (\<lambda>e. ce_op e = OpSealId) es of
       None \<Rightarrow> Inl ChainIndex
     | Some seal \<Rightarrow> Inr (PDict [(''length'', PInt (int (chain_length st))), (''seal_hash'', PStr (entry_hash seal)),
         (''seal_seq'', PInt (ce_seq seal)), (''sealed_id'', PStr i), (''tip'', opt_str (tip_hash st))])))"

definition check_one_mark :: "chain_entry list \<Rightarrow> chain_state option \<Rightarrow> pyval \<Rightarrow> chain_error + unit" where
  "check_one_mark es state mark =
     (if \<not> is_dict mark \<or> \<not> truthy (get (the_dict mark) ''sealed_id'') then Inl (ChainError MarkMalformed)
      else case state of None \<Rightarrow> Inl (ChainError MarkUnsealed)
      | Some st \<Rightarrow>
        let m = the_dict mark in
        if sealed_id st = None then Inl (ChainError MarkUnsealed)
        else if opt_str (sealed_id st) \<noteq> get m ''sealed_id'' then Inl (ChainError MarkOtherId)
        else bind_err (conv (int_of (get_or m ''length'' (PInt 0)))) (\<lambda>len.
          if int (chain_length st) < len then Inl (ChainError MarkTruncated)
          else (case py_index es (len - 1) of
            None \<Rightarrow> Inl ChainIndex
          | Some e \<Rightarrow>
              if PStr (entry_hash e) \<noteq> get m ''tip'' then Inl (ChainError MarkReplaced)
              else bind_err (conv (int_of (get_or m ''seal_seq'' (PInt (- 1))))) (\<lambda>seq.
                if 0 \<le> seq \<and> seq < int (length es) \<and> PStr (entry_hash (es ! nat seq)) = get m ''seal_hash''
                then Inr () else Inl (ChainError MarkSealDiffers)))))"

text \<open>The loop over the sides of a mark in flight: the side the chain matches.\<close>

fun matching_side :: "chain_entry list \<Rightarrow> chain_state option \<Rightarrow> pyval list \<Rightarrow> chain_error + pyval" where
  "matching_side es st [] = Inl (ChainError MarkNeitherSide)"
| "matching_side es st (side # sides) =
     (if side = PNone then (if is_sealed st then matching_side es st sides else Inr PNone)
      else case check_one_mark es st side of
             Inr _ \<Rightarrow> Inr side
           | Inl (ChainError _) \<Rightarrow> matching_side es st sides
           | Inl err \<Rightarrow> Inl err)"

definition mark_sides :: "pyval \<Rightarrow> pyval list" where
  "mark_sides mark = [get (the_dict mark) ''next'', get (the_dict mark) ''prev'']"

definition in_flight :: "pyval \<Rightarrow> bool" where
  "in_flight mark \<longleftrightarrow> is_dict mark \<and> has_key (the_dict mark) ''next''"

definition check_seal_mark :: "chain_entry list \<Rightarrow> chain_state option \<Rightarrow> pyval \<Rightarrow> chain_error + unit" where
  "check_seal_mark es st mark =
     (if mark = PNone then (if is_sealed st then Inl (ChainError MarkDeleted) else Inr ())
      else if \<not> is_dict mark \<or> the_dict mark = [] then Inl (ChainError MarkMalformed)
      else if in_flight mark then bind_err (matching_side es st (mark_sides mark)) (\<lambda>_. Inr ())
      else check_one_mark es st mark)"

definition resolve_seal_mark :: "chain_entry list \<Rightarrow> chain_state option \<Rightarrow> pyval \<Rightarrow> chain_error + pyval" where
  "resolve_seal_mark es st mark =
     bind_err (check_seal_mark es st mark) (\<lambda>_.
       if \<not> in_flight mark then Inr mark else matching_side es st (mark_sides mark))"

section \<open>The files\<close>

type_synonym chain_files = "blob \<times> blob"

definition read_chain :: "blob \<Rightarrow> chain_error + pyval list" where
  "read_chain b = (case b of
     Absent \<Rightarrow> Inr []
   | Stored v \<Rightarrow> if \<not> is_dict v then Inl (ChainConv ConvAttribute)
       else (case get (the_dict v) ''chain'' of
          PNone \<Rightarrow> Inr []
        | PList rs \<Rightarrow> Inr rs
        | _ \<Rightarrow> Inl (ChainError ChainNotList))
   | _ \<Rightarrow> Inl (ChainError FileUnparseable))"

definition read_seal_mark :: "blob \<Rightarrow> chain_error + pyval" where
  "read_seal_mark b = (case b of Absent \<Rightarrow> Inr PNone | Stored v \<Rightarrow> Inr v | _ \<Rightarrow> Inl (ChainError FileUnparseable))"

text \<open>\<open>_atomic_write\<close>: the file then holds what JSON reads back, keys sorted.\<close>

definition atomic_write :: "pyval \<Rightarrow> blob" where
  "atomic_write v = Stored (norm_json v)"

definition optional_state ::
  "crypto_lib \<Rightarrow> (string \<Rightarrow> string) \<Rightarrow> chain_entry list \<Rightarrow> chain_error + chain_state option" where
  "optional_state cl fl es = (if es = [] then Inr None else bind_err (replay_state cl fl es) (\<lambda>st. Inr (Some st)))"

definition genesis_chain_state ::
  "crypto_lib \<Rightarrow> (string \<Rightarrow> string) \<Rightarrow> chain_files \<Rightarrow> chain_error + chain_state option" where
  "genesis_chain_state cl fl files =
     bind_err (read_chain (fst files)) (\<lambda>records.
     bind_err (read_seal_mark (snd files)) (\<lambda>mark.
     bind_err (entries_from_records cl records) (\<lambda>es.
     bind_err (optional_state cl fl es) (\<lambda>st.
     bind_err (check_seal_mark es st mark) (\<lambda>_. Inr st)))))"

definition settle_seal_mark :: "crypto_lib \<Rightarrow> (string \<Rightarrow> string) \<Rightarrow> chain_files \<Rightarrow> chain_error + chain_files" where
  "settle_seal_mark cl fl files =
     bind_err (read_seal_mark (snd files)) (\<lambda>mark.
       if \<not> in_flight mark then Inr files
       else bind_err (read_chain (fst files)) (\<lambda>records.
         bind_err (entries_from_records cl records) (\<lambda>es.
         bind_err (optional_state cl fl es) (\<lambda>st.
         bind_err (resolve_seal_mark es st mark) (\<lambda>plain.
           Inr (fst files, if plain = PNone then Absent else atomic_write plain))))))"

definition stored_body :: "blob \<Rightarrow> (string, pyval) dict" where
  "stored_body b = (case b of Stored v \<Rightarrow> the_dict v | _ \<Rightarrow> [])"

text \<open>Any exception of a malformed record becomes a \<open>ChainError\<close>; the writes are the mark in flight,
  the chain, and the plain mark when the chain is sealed, and the chain alone when it is not.\<close>

definition well_formed_record :: "chain_error + 'a \<Rightarrow> chain_error + 'a" where
  "well_formed_record r = (case r of
     Inl (ChainConv _) \<Rightarrow> Inl (ChainError RecordMalformed) | Inl ChainIndex \<Rightarrow> Inl (ChainError RecordMalformed) | _ \<Rightarrow> r)"

definition append_genesis_chain_entry ::
  "crypto_lib \<Rightarrow> (string \<Rightarrow> string) \<Rightarrow> int \<Rightarrow> (string, pyval) dict \<Rightarrow> chain_files
     \<Rightarrow> chain_error + chain_files list \<times> chain_state" where
  "append_genesis_chain_entry cl fl now record files =
     bind_err (read_chain (fst files)) (\<lambda>stored.
     let candidate = stored @ [PDict record] in
     bind_err (well_formed_record (entries_from_records cl candidate)) (\<lambda>es.
     bind_err (replay_state cl fl es) (\<lambda>new_state.
     let stored_es = butlast es in
     bind_err (optional_state cl fl stored_es) (\<lambda>old_state.
     bind_err (read_seal_mark (snd files)) (\<lambda>recorded.
     bind_err (resolve_seal_mark stored_es old_state recorded) (\<lambda>mark.
     let body = dict_set ''stored_at_unix'' (PInt now) (dict_set ''chain'' (PList candidate) (stored_body (fst files)));
         chain_file = atomic_write (PDict body) in
     bind_err (seal_mark_of es new_state) (\<lambda>new_mark.
       let flight = atomic_write (PDict [(''prev'', mark), (''next'', new_mark)])
       in Inr (if new_mark = PNone then [(chain_file, snd files)]
               else [(fst files, flight), (chain_file, flight), (chain_file, atomic_write new_mark)], new_state))))))))"

section \<open>Members\<close>

record genesis_member =
  gm_kind :: string
  gm_pubkey :: bytes
  gm_algorithm :: string

definition legacy_algorithm :: string where "legacy_algorithm = ''ed25519''"

datatype unreadable = UnreadableFile | UnreadableChain | EntryMalformed | EntryType | EntryNotHex | EntryKey

definition replay_stored_chain ::
  "crypto_lib \<Rightarrow> (string \<Rightarrow> string) \<Rightarrow> pyval
     \<Rightarrow> chain_error + (string, genesis_member) dict \<times> (string, unreadable) dict" where
  "replay_stored_chain cl fl stored =
     (case (if truthy stored then bind_err (conv (iterate stored)) (entries_from_records cl) else Inr []) of
        Inl ChainUnmodelled \<Rightarrow> Inl ChainUnmodelled
      | Inl _ \<Rightarrow> Inr ([], [(''<chain>'', UnreadableChain)])
      | Inr [] \<Rightarrow> Inr ([], [])
      | Inr es \<Rightarrow> (case replay cl fl es of
          Inl (ChainError _) \<Rightarrow> Inr ([], [(''<chain>'', UnreadableChain)])
        | Inl err \<Rightarrow> Inl err
        | Inr ms \<Rightarrow> Inr (map (\<lambda>(k, e). (k, \<lparr>gm_kind = k, gm_pubkey = ce_pubkey e, gm_algorithm = ce_algorithm e\<rparr>)) ms, [])))"

definition read_member :: "crypto_lib \<Rightarrow> string \<Rightarrow> pyval \<Rightarrow> unreadable + genesis_member" where
  "read_member cl k v =
     (let hexed = (if is_dict v then get (the_dict v) ''pubkey'' else v);
          algo = (if is_dict v \<and> truthy (get (the_dict v) ''algorithm'') then get (the_dict v) ''algorithm''
                  else PStr legacy_algorithm)
      in if \<not> is_str v \<and> \<not> is_dict v then Inl EntryType
         else if \<not> is_str hexed \<or> \<not> is_str algo then Inl EntryMalformed
         else (case fromhex (the_str hexed) of
             None \<Rightarrow> Inl EntryNotHex
           | Some pk \<Rightarrow> (case validate_genesis_pubkey cl (Some pk) (the_str algo) of
               None \<Rightarrow> Inl EntryKey
             | Some a \<Rightarrow> Inr \<lparr>gm_kind = k, gm_pubkey = pk, gm_algorithm = a\<rparr>)))"

fun read_flat_members ::
  "crypto_lib \<Rightarrow> (string, pyval) dict \<Rightarrow> (string, genesis_member) dict \<times> (string, unreadable) dict" where
  "read_flat_members cl [] = ([], [])"
| "read_flat_members cl ((k, v) # rest) =
     (case (read_member cl k v, read_flat_members cl rest) of
        (Inr m, (good, bad)) \<Rightarrow> ((k, m) # good, bad)
      | (Inl u, (good, bad)) \<Rightarrow> (good, (k, u) # bad))"

definition read_genesis_members ::
  "crypto_lib \<Rightarrow> (string \<Rightarrow> string) \<Rightarrow> blob \<Rightarrow> chain_error + (string, genesis_member) dict \<times> (string, unreadable) dict" where
  "read_genesis_members cl fl b = (case b of
     Absent \<Rightarrow> Inr ([], [])
   | Stored v \<Rightarrow>
       if \<not> is_dict v then Inl (ChainConv ConvAttribute)
       else if get (the_dict v) ''chain'' \<noteq> PNone then replay_stored_chain cl fl (get (the_dict v) ''chain'')
       else (let ms = get (the_dict v) ''members''
             in if \<not> truthy ms then Inr ([], [])
                else if \<not> is_dict ms then Inl (ChainConv ConvAttribute)
                else Inr (read_flat_members cl (the_dict ms)))
   | _ \<Rightarrow> Inr ([], [(''<file>'', UnreadableFile)]))"

definition list_genesis_members_full ::
  "crypto_lib \<Rightarrow> (string \<Rightarrow> string) \<Rightarrow> chain_files \<Rightarrow> chain_error + (string, genesis_member) dict" where
  "list_genesis_members_full cl fl files = bind_err (read_genesis_members cl fl (fst files)) (\<lambda>r. Inr (fst r))"

definition list_unreadable_genesis_members ::
  "crypto_lib \<Rightarrow> (string \<Rightarrow> string) \<Rightarrow> chain_files \<Rightarrow> chain_error + (string, unreadable) dict" where
  "list_unreadable_genesis_members cl fl files = bind_err (read_genesis_members cl fl (fst files)) (\<lambda>r. Inr (snd r))"

definition get_genesis_member ::
  "crypto_lib \<Rightarrow> (string \<Rightarrow> string) \<Rightarrow> string \<Rightarrow> chain_files \<Rightarrow> chain_error + bytes option" where
  "get_genesis_member cl fl kind files =
     bind_err (list_genesis_members_full cl fl files) (\<lambda>ms. Inr (map_option gm_pubkey (dict_get ms (py_lower (strip kind)))))"

text \<open>The flat writer: it keeps the members and nothing else of the file.\<close>

definition put_genesis_member ::
  "crypto_lib \<Rightarrow> int \<Rightarrow> string \<Rightarrow> bytes \<Rightarrow> string \<Rightarrow> chain_files \<Rightarrow> chain_error + chain_files" where
  "put_genesis_member cl now kind pubkey algorithm files =
     (let k = py_lower (strip kind)
      in if k = [] \<or> \<not> py_isalnum (filter (\<lambda>c. c \<noteq> CHR ''-'') k) then Inl (ChainConv ConvValue)
         else case validate_genesis_pubkey cl (Some pubkey) algorithm of
           None \<Rightarrow> Inl (ChainConv ConvValue)
         | Some algo \<Rightarrow>
             bind_err (case fst files of Stored v \<Rightarrow> if is_dict v then conv (dict_of (get (the_dict v) ''members''))
                                                    else Inl (ChainConv ConvAttribute)
                       | _ \<Rightarrow> Inr []) (\<lambda>members.
               Inr (atomic_write (PDict [(''members'', PDict (dict_set k
                      (PDict [(''pubkey'', PStr (hexlify pubkey)), (''algorithm'', PStr algo)]) members)),
                    (''stored_at_unix'', PInt now)]), snd files)))"

text \<open>\<^verbatim>\<open>recto vault seal-passphrase\<close>, from its guards to its write: the exit code and the files. The key
  derived from the words, their agreement and the confirmation typed are arguments.\<close>

definition seal_passphrase ::
  "crypto_lib \<Rightarrow> (string \<Rightarrow> string) \<Rightarrow> int \<Rightarrow> bool \<Rightarrow> bytes option \<Rightarrow> bool \<Rightarrow> chain_files \<Rightarrow> chain_error + nat \<times> chain_files" where
  "seal_passphrase cl fl now force pubkey confirmed files =
     bind_err (get_genesis_member cl fl passphrase_kind files) (\<lambda>existing.
       if existing \<noteq> None \<and> \<not> force then Inr (2, files)
       else bind_err (if existing = None \<and> \<not> force then list_unreadable_genesis_members cl fl files else Inr []) (\<lambda>bad.
         if dict_get bad passphrase_kind \<noteq> None \<or> dict_get bad ''<file>'' \<noteq> None then Inr (3, files)
         else case pubkey of
           None \<Rightarrow> Inr (2, files)
         | Some pk \<Rightarrow> if \<not> confirmed then Inr (2, files)
             else bind_err (put_genesis_member cl now passphrase_kind pk legacy_algorithm files) (\<lambda>files'. Inr (0, files'))))"

section \<open>What a replayed chain says of its entries\<close>

lemma replay_prefix_entry:
  assumes "replay_run cl fl es = Inr st" "i < length es"
  shows "ce_seq (es ! i) = int i"
  using assms
proof (induction es arbitrary: st rule: rev_induct)
  case (snoc e es)
  then obtain s where s: "replay_run cl fl es = Inr s" "replay_step cl fl e s = Inr st"
    unfolding replay_run_snoc by blast
  show ?case
  proof (cases "i < length es")
    case True
    then show ?thesis using snoc.IH[OF s(1)] by (simp add: nth_append)
  next
    case False
    then show ?thesis using s(2) replay_run_length[OF s(1)] snoc.prems(2)
      by (simp add: replay_step_Inr nth_append)
  qed
qed simp

lemma apply_entry_sealed_id:
  assumes "apply_entry cl fl e st = Inr st'"
  shows "if ce_op e = OpSealId then \<exists>i. sealed_id st' = Some i \<and> i \<noteq> [] else sealed_id st' = sealed_id st"
  using assms by (auto simp: apply_entry_def bind_err_Inr decode_id_def Let_def seat_member_Inr drop_member_Inr
      elim!: take_seat_Inr split: chain_op.splits if_splits)

lemma sealed_chain_has_seal:
  assumes "replay_run cl fl es = Inr st" "sealed_id st = Some i"
  shows "i \<noteq> [] \<and> (\<exists>e \<in> set es. ce_op e = OpSealId)"
  using assms
proof (induction es arbitrary: st rule: rev_induct)
  case Nil
  then show ?case by (auto simp: replay_start_def)
next
  case (snoc e es)
  then obtain s s1 where s: "replay_run cl fl es = Inr s" "apply_entry cl fl e s = Inr s1" "sealed_id st = sealed_id s1"
    unfolding replay_run_snoc replay_step_Inr by auto
  show ?case
  proof (cases "ce_op e = OpSealId")
    case True
    then show ?thesis using apply_entry_sealed_id[OF s(2)] s(3) snoc.prems(2) by auto
  next
    case False
    then have "sealed_id s = Some i" using apply_entry_sealed_id[OF s(2)] s(3) snoc.prems(2) by auto
    then show ?thesis using snoc.IH[OF s(1)] by auto
  qed
qed

text \<open>Once sealed, a chain stays sealed with the same id.\<close>

lemma seal_stays:
  assumes "replay_step cl fl e st = Inr st'" "sealed_id st = Some i"
  shows "sealed_id st' = Some i"
proof -
  obtain st1 where a: "check_authority cl fl e st = Inr ()" "apply_entry cl fl e st = Inr st1" "sealed_id st' = sealed_id st1"
    using assms(1) unfolding replay_step_Inr by auto
  have "ce_op e \<noteq> OpSealId" using check_authority_seal[OF a(1)] assms(2) by auto
  then show ?thesis using apply_entry_sealed_id[OF a(2)] a(3) assms(2) by simp
qed

section \<open>Marks and chains\<close>

lemma find_nth: "find P xs = Some x \<Longrightarrow> \<exists>i < length xs. x = xs ! i"
  by (auto simp: find_Some_iff)

lemma seal_mark_matches:
  assumes "replay_state cl fl es = Inr st" "seal_mark_of es st = Inr m" "sealed_id st \<noteq> None"
  shows "check_one_mark es (Some st) m = Inr ()" and "m \<noteq> PNone" and "norm_json m = m"
    and "get_or (the_dict m) ''length'' (PInt 0) = PInt (int (length es))" and "int_of (get_or (the_dict m) ''length'' (PInt 0)) = Inr (int (length es))"
proof -
  obtain s where s: "replay_run cl fl es = Inr s" "st = chain_state.truncate s" using assms(1) replay_state_Inr by blast
  obtain i where i: "sealed_id st = Some i" using assms(3) by blast
  then have seal: "i \<noteq> []" "\<exists>e \<in> set es. ce_op e = OpSealId" using sealed_chain_has_seal[OF s(1)] s(2) by auto
  obtain e where e: "find (\<lambda>e. ce_op e = OpSealId) es = Some e"
    using seal(2) by (cases "find (\<lambda>e. ce_op e = OpSealId) es") (auto simp: find_None_iff)
  obtain k where k: "k < length es" "e = es ! k" using find_nth[OF e] by blast
  have seq: "ce_seq e = int k" using replay_prefix_entry[OF s(1) k(1)] k(2) by simp
  have len: "chain_length st = length es" "tip_hash st = Some (entry_hash (last es))"
    using replay_run_length[OF s(1)] s(2) k(1) by auto
  have m: "m = PDict [(''length'', PInt (int (length es))), (''seal_hash'', PStr (entry_hash e)), (''seal_seq'', PInt (int k)),
      (''sealed_id'', PStr i), (''tip'', PStr (entry_hash (last es)))]"
    using assms(2) by (simp add: seal_mark_of_def i e len seq opt_str_def)
  have "py_index es (int (length es) - 1) = Some (last es)"
    using k(1) by (auto simp: py_index_def last_conv_nth nat_diff_distrib)
  then show "check_one_mark es (Some st) m = Inr ()"
    using k seal(1) by (simp add: check_one_mark_def m i len get_def get_or_def opt_str_def conv_def)
  show "m \<noteq> PNone" "get_or (the_dict m) ''length'' (PInt 0) = PInt (int (length es))"
    "int_of (get_or (the_dict m) ''length'' (PInt 0)) = Inr (int (length es))" by (simp_all add: m get_or_def)
  show "norm_json m = m" by (simp add: m)
qed

lemma seal_mark_total:
  assumes "replay_state cl fl es = Inr st"
  shows "\<exists>m. seal_mark_of es st = Inr m \<and> (m = PNone \<longleftrightarrow> sealed_id st = None)"
proof -
  obtain s where s: "replay_run cl fl es = Inr s" "st = chain_state.truncate s" using assms replay_state_Inr by blast
  show ?thesis
  proof (cases "sealed_id st")
    case (Some i)
    then have "\<exists>e \<in> set es. ce_op e = OpSealId" using sealed_chain_has_seal[OF s(1)] s(2) by auto
    then obtain e where "find (\<lambda>e. ce_op e = OpSealId) es = Some e"
      by (cases "find (\<lambda>e. ce_op e = OpSealId) es") (auto simp: find_None_iff)
    then show ?thesis using Some by (simp add: seal_mark_of_def)
  qed (simp add: seal_mark_of_def)
qed

lemma seal_mark_of_plain: "seal_mark_of es st = Inr m \<Longrightarrow> \<not> in_flight m"
  by (auto simp: seal_mark_of_def in_flight_def has_key_def split: option.splits)

lemma unsealed_mismatch: "\<not> is_sealed st \<Longrightarrow> \<exists>r. check_one_mark es st m = Inl (ChainError r)"
  by (auto simp: check_one_mark_def is_sealed_def Let_def split: option.split)

lemma matching_side_Inr:
  "matching_side es st sides = Inr p \<Longrightarrow> p \<in> set sides
     \<and> (if p = PNone then \<not> is_sealed st else check_one_mark es st p = Inr ())"
  by (induction sides) (auto split: if_splits sum.splits chain_error.splits)

lemma plain_check:
  assumes "check_one_mark es st m = Inr ()" "m \<noteq> PNone" "\<not> in_flight m"
  shows "check_seal_mark es st m = Inr ()"
proof -
  have "is_dict m \<and> truthy (get (the_dict m) ''sealed_id'')"
    using assms(1) by (simp add: check_one_mark_def split: if_splits)
  then have "is_dict m \<and> the_dict m \<noteq> []" by (auto simp: get_def)
  then show ?thesis using assms by (simp add: check_seal_mark_def)
qed

text \<open>The plain mark a chain answers to.\<close>

lemma resolve_plain:
  assumes "resolve_seal_mark es st mark = Inr p"
  shows "if p = PNone then \<not> is_sealed st else check_one_mark es st p = Inr ()"
    and "p = mark \<or> p \<in> set (mark_sides mark)"
proof -
  have "(if p = PNone then \<not> is_sealed st else check_one_mark es st p = Inr ()) \<and> (p = mark \<or> p \<in> set (mark_sides mark))"
  proof (cases "in_flight mark")
    case True
    then have "matching_side es st (mark_sides mark) = Inr p" using assms by (auto simp: resolve_seal_mark_def bind_err_Inr)
    then show ?thesis using matching_side_Inr by blast
  next
    case False
    then have "p = mark" "check_seal_mark es st mark = Inr ()" using assms by (auto simp: resolve_seal_mark_def bind_err_Inr)
    then show ?thesis using False by (auto simp: check_seal_mark_def split: if_splits)
  qed
  then show "if p = PNone then \<not> is_sealed st else check_one_mark es st p = Inr ()"
    and "p = mark \<or> p \<in> set (mark_sides mark)" by blast+
qed

text \<open>An unsealed chain that a mark accepts stays accepted when it grows unsealed.\<close>

lemma unsealed_sides:
  assumes "\<not> is_sealed st" "\<not> is_sealed st'" "matching_side es st sides = Inr p"
  shows "matching_side es' st' sides = Inr PNone"
  using assms(3)
proof (induction sides)
  case (Cons m ms)
  obtain r r' where "check_one_mark es st m = Inl (ChainError r)" "check_one_mark es' st' m = Inl (ChainError r')"
    using unsealed_mismatch[OF assms(1)] unsealed_mismatch[OF assms(2)] by blast
  then show ?case using Cons assms(1,2) by (auto split: if_splits)
qed simp

lemma unsealed_grows:
  assumes "check_seal_mark es st mark = Inr ()" "\<not> is_sealed st" "\<not> is_sealed st'"
  shows "check_seal_mark es' st' mark = Inr ()"
proof -
  obtain r where "check_one_mark es st mark = Inl (ChainError r)" using unsealed_mismatch[OF assms(2)] by blast
  then show ?thesis using assms unsealed_sides[OF assms(2,3)]
    by (auto simp: check_seal_mark_def bind_err_Inr split: if_splits)
qed

section \<open>Reading what was written\<close>

text \<open>A file as JSON reads it back: keys sorted and none twice.\<close>

definition canonical_blob :: "blob \<Rightarrow> bool" where
  "canonical_blob b \<longleftrightarrow> (\<forall>v. b = Stored v \<longrightarrow> norm_json v = v \<and> distinct (map fst (the_dict v)))"

text \<open>A record given to the writer: no key twice, and its signatures no object.\<close>

definition plain_record :: "(string, pyval) dict \<Rightarrow> bool" where
  "plain_record d \<longleftrightarrow> distinct (map fst d) \<and> \<not> is_dict (get d ''signatures'')"

lemma get_norm: "distinct (map fst d) \<Longrightarrow> get (the_dict (norm_json (PDict d))) k = norm_json (get d k)"
  by (simp add: get_def dict_get_norm split: option.split)

lemma item_norm:
  "distinct (map fst d) \<Longrightarrow> item (the_dict (norm_json (PDict d))) k = map_sum id norm_json (item d k)"
  by (simp add: item_def dict_get_norm split: option.split)

lemma get_canonical: "norm_json (PDict d) = PDict d \<Longrightarrow> distinct (map fst d) \<Longrightarrow> norm_json (get d k) = get d k"
  using get_norm[of d k] by simp

lemma conv_Inr: "conv r = Inr x \<longleftrightarrow> r = Inr x"
  by (cases r) (simp_all add: conv_def)

lemma norm_scalars [simp]:
  "is_str v \<Longrightarrow> norm_json v = v" "is_int v \<Longrightarrow> norm_json v = v" "norm_json (opt_str s) = opt_str s"
  by (cases v; simp)+ (simp add: opt_str_def split: option.split)

lemma truthy_norm [simp]: "truthy (norm_json v) = truthy v"
  by (cases v) (auto simp: norm_list_map norm_items_map dest: arg_cong[where f = set])

lemma signature_of_str: "signature_of v = Inr s \<Longrightarrow> is_str v"
  by (auto simp: signature_of_def split: if_splits)

lemma signatures_norm:
  assumes "conv (if truthy sv then iterate sv else Inr []) = Inr texts" and "map_err signature_of texts = Inr sigs"
    and "\<not> is_dict sv"
  shows "conv (if truthy (norm_json sv) then iterate (norm_json sv) else Inr []) = Inr texts"
proof (cases sv)
  case (PList vs)
  show ?thesis
  proof (cases "vs = []")
    case False
    then have vs: "texts = vs" using assms(1) PList by (simp add: conv_def)
    have "\<forall>v \<in> set vs. is_str v"
      using assms(2) signature_of_str unfolding vs map_err_Inr_iff by (auto dest: list_all2_left)
    then have "map norm_json vs = vs" by (induction vs) auto
    then show ?thesis using assms(1)[unfolded PList] False by (simp add: PList norm_list_map)
  qed (use assms(1) PList in simp)
qed (use assms in auto)

lemma entry_of_norm:
  assumes "entry_of_record cl (PDict d) = Inr e" and "plain_record d"
  shows "entry_of_record cl (norm_json (PDict d)) = Inr e"
proof -
  have dist: "distinct (map fst d)" using assms(2) by (simp add: plain_record_def)
  obtain seq p kind pk pubkey alg texts sigs where
    items: "item d ''seq'' = Inr seq" "item d ''op'' = Inr p" "item d ''kind'' = Inr kind" "item d ''pubkey'' = Inr pk"
      "item d ''algorithm'' = Inr alg"
    and hex: "hex_field pk = Inr pubkey"
    and texts: "conv (if truthy (get d ''signatures'') then iterate (get d ''signatures'') else Inr []) = Inr texts"
    and sigs: "map_err signature_of texts = Inr sigs"
    and b: "build_entry cl (the_int seq) p (the_str kind) pubkey alg (opt_text (get d ''prev'')) sigs (opt_text (get d ''meta'')) = Inr e"
    and w: "well_typed seq kind (get d ''prev'') (get d ''meta'')"
    using assms(1) unfolding entry_of_record_def Let_def
    by (auto simp: bind_err_Inr conv_Inr split: if_splits)
  have str: "is_str p" "is_str alg" using build_entry_Inr[OF b] by auto
  have "is_str pk" using hex by (auto simp: hex_field_def split: if_splits)
  moreover have "norm_json v = v" if "v = PNone \<or> is_str v" for v using that by auto
  ultimately have norm: "norm_json seq = seq" "norm_json p = p" "norm_json kind = kind" "norm_json pk = pk"
    "norm_json alg = alg" "norm_json (get d ''prev'') = get d ''prev''" "norm_json (get d ''meta'') = get d ''meta''"
    using w str unfolding well_typed_def by auto
  have dict: "is_dict (norm_json (PDict d))" by simp
  note texts' = signatures_norm[OF texts sigs] 
  have plain: "\<not> is_dict (get d ''signatures'')" using assms(2) by (simp add: plain_record_def)
  show ?thesis
    unfolding entry_of_record_def Let_def get_norm[OF dist] item_norm[OF dist] items map_sum.simps id_apply norm
      texts'[OF plain]
    using dict by (simp add: conv_def hex sigs b w del: norm_json.simps)
qed

lemma canonical_chain:
  assumes "canonical_blob b" "read_chain b = Inr rs"
  shows "map norm_json rs = rs"
proof (cases b)
  case (Stored v)
  then obtain d where d: "v = PDict d" "norm_json (PDict d) = PDict d" "distinct (map fst d)"
    using assms by (cases v) (auto simp: canonical_blob_def read_chain_def)
  have "norm_json (get d ''chain'') = get d ''chain''" by (rule get_canonical[OF d(2,3)])
  then show ?thesis using assms(2) Stored d(1)
    by (auto simp: read_chain_def norm_list_map split: pyval.splits)
qed (use assms(2) in \<open>auto simp: read_chain_def\<close>)

lemma read_chain_written:
  assumes "distinct (map fst body)" "get body ''chain'' = PList rs"
  shows "read_chain (atomic_write (PDict body)) = Inr (map norm_json rs)"
  using get_norm[OF assms(1), of "''chain''"] assms(2)
  by (simp add: read_chain_def atomic_write_def norm_list_map)

lemma mark_written: "norm_json m = m \<Longrightarrow> m \<noteq> PNone \<Longrightarrow> read_seal_mark (atomic_write m) = Inr m"
  by (simp add: read_seal_mark_def atomic_write_def)

lemma flight_written:
  assumes "norm_json p = p" "norm_json n = n"
  shows "read_seal_mark (atomic_write (PDict [(''prev'', p), (''next'', n)])) = Inr (PDict [(''next'', n), (''prev'', p)])"
  using assms by (simp add: read_seal_mark_def atomic_write_def)

lemma flight_check:
  "check_seal_mark es st (PDict [(''next'', n), (''prev'', p)])
     = bind_err (matching_side es st [n, p]) (\<lambda>_. Inr ())"
  by (simp add: check_seal_mark_def in_flight_def has_key_def mark_sides_def get_def)

section \<open>Appending\<close>

lemma well_formed_Inr [simp]: "well_formed_record r = Inr x \<longleftrightarrow> r = Inr x"
  by (auto simp: well_formed_record_def split: sum.splits chain_error.splits)

lemma map_err_append:
  "map_err f (xs @ [y]) = Inr zs \<longleftrightarrow> (\<exists>ys z. map_err f xs = Inr ys \<and> f y = Inr z \<and> zs = ys @ [z])"
  unfolding map_err_Inr_iff by (auto simp: list_all2_append1 list_all2_Cons1) (simp add: list_all2_lengthD)

lemma chain_state_ok:
  assumes "read_chain b = Inr rs" "entries_from_records cl rs = Inr es" "read_seal_mark k = Inr m"
    "optional_state cl fl es = Inr st" "check_seal_mark es st m = Inr ()"
  shows "genesis_chain_state cl fl (b, k) = Inr st"
  using assms by (simp add: genesis_chain_state_def)

text \<open>The parts of a successful append.\<close>

lemma append_parts:
  assumes "append_genesis_chain_entry cl fl now record (b, k) = Inr (writes, new)"
  obtains rs es e old recorded mark new_mark where
    "read_chain b = Inr rs" "entries_from_records cl rs = Inr es" "entry_of_record cl (PDict record) = Inr e"
    "replay_state cl fl (es @ [e]) = Inr new" "optional_state cl fl es = Inr old" "read_seal_mark k = Inr recorded"
    "resolve_seal_mark es old recorded = Inr mark" "seal_mark_of (es @ [e]) new = Inr new_mark"
    "writes = (let chain_file = atomic_write (PDict (dict_set ''stored_at_unix'' (PInt now)
                   (dict_set ''chain'' (PList (rs @ [PDict record])) (stored_body b))));
                   flight = atomic_write (PDict [(''prev'', mark), (''next'', new_mark)])
               in if new_mark = PNone then [(chain_file, k)]
                  else [(b, flight), (chain_file, flight), (chain_file, atomic_write new_mark)])"
proof -
  obtain rs es where rs: "read_chain b = Inr rs" and es: "entries_from_records cl (rs @ [PDict record]) = Inr es"
    using assms by (auto simp: append_genesis_chain_entry_def bind_err_Inr Let_def)
  obtain fs e where fs: "entries_from_records cl rs = Inr fs" "entry_of_record cl (PDict record) = Inr e" "es = fs @ [e]"
    using es unfolding entries_from_records_def map_err_append by blast
  show thesis
    using assms that[OF rs fs(1,2)] unfolding append_genesis_chain_entry_def bind_err_Inr Let_def
    by (auto simp: rs es fs(3))
qed

lemma optional_snoc: "optional_state cl fl (es @ [e]) = map_sum id Some (replay_state cl fl (es @ [e]))"
  by (cases "replay_state cl fl (es @ [e])") (simp_all add: optional_state_def)

lemma is_sealed_simps [simp]: "is_sealed (Some st) \<longleftrightarrow> sealed_id st \<noteq> None" "\<not> is_sealed None"
  by (simp_all add: is_sealed_def)

text \<open>A mark over more entries than the chain has is refused as such.\<close>

lemma longer_mark_refused:
  assumes "optional_state cl fl es = Inr st" "int_of (get_or (the_dict m) ''length'' (PInt 0)) = Inr (int n)" "length es < n"
  shows "\<exists>r. check_one_mark es st m = Inl (ChainError r)"
proof (cases st)
  case (Some s)
  then obtain v where "replay_run cl fl es = Inr v" "s = chain_state.truncate v"
    using assms(1) by (auto simp: optional_state_def bind_err_Inr replay_state_Inr split: if_splits)
  then have "chain_length s = length es" using replay_run_length by simp
  then show ?thesis using assms(2,3) Some by (auto simp: check_one_mark_def Let_def conv_def)
qed (auto simp: check_one_mark_def)

lemma sealed_grows:
  assumes "optional_state cl fl es = Inr old" "replay_state cl fl (es @ [e]) = Inr new" "sealed_id new = None"
  shows "\<not> is_sealed old"
proof (cases "es = []")
  case True
  then show ?thesis using assms(1) by (auto simp: optional_state_def)
next
  case False
  obtain v w where v: "replay_run cl fl es = Inr v" "replay_step cl fl e v = Inr w" "new = chain_state.truncate w"
    using assms(2) unfolding replay_state_Inr replay_run_snoc by blast
  then have "old = Some (chain_state.truncate v)" using assms(1) False by (simp add: optional_state_def replay_state_def)
  then show ?thesis using seal_stays[OF v(2)] assms(3) v(3) by (cases "sealed_id v") auto
qed

lemma run_take:
  "replay_run cl fl es = Inr st \<Longrightarrow> \<exists>s. replay_run cl fl (take n es) = Inr s"
  using append_take_drop_id[of n es] unfolding replay_run_def
  by (metis fold_err_append isl_def sum.case(1) sum.distinct(1) sumE)

lemma chain_state_parts:
  assumes "genesis_chain_state cl fl (b, k) = Inr s"
  obtains rs es m where "read_chain b = Inr rs" "entries_from_records cl rs = Inr es" "read_seal_mark k = Inr m"
    "optional_state cl fl es = Inr s" "check_seal_mark es s m = Inr ()"
  using assms by (auto simp: genesis_chain_state_def bind_err_Inr)

lemma check_one_parts:
  assumes "check_one_mark es (Some st) m = Inr ()" "int_of (get_or (the_dict m) ''length'' (PInt 0)) = Inr (int n)" "0 < n"
  shows "n \<le> chain_length st \<and> opt_str (sealed_id st) = get (the_dict m) ''sealed_id''
    \<and> (n \<le> length es \<longrightarrow> PStr (entry_hash (es ! (n - 1))) = get (the_dict m) ''tip'')"
  using assms by (auto simp: check_one_mark_def Let_def conv_def py_index_def nat_diff_distrib
      split: if_splits option.splits)

section \<open>Properties\<close>

text \<open>The files after each write of an append, as the store and as the reader of the records see them.\<close>

lemma append_writes:
  assumes "append_genesis_chain_entry cl fl now record (b, k) = Inr (writes, new)"
    and "canonical_blob b" and "canonical_blob k" and "plain_record record"
  shows "\<exists>old rs. genesis_chain_state cl fl (b, k) = Inr old \<and> read_chain b = Inr rs \<and>
    map (genesis_chain_state cl fl) writes =
      (if sealed_id new = None then [Inr (Some new)] else [Inr old, Inr (Some new), Inr (Some new)]) \<and>
    map (\<lambda>f. read_chain (fst f)) writes = (let after = rs @ [norm_json (PDict record)] in
      (if sealed_id new = None then [Inr after] else [Inr rs, Inr after, Inr after]))"
proof -
  obtain rs es e old recorded mark new_mark where
    rs: "read_chain b = Inr rs" and es: "entries_from_records cl rs = Inr es" and e: "entry_of_record cl (PDict record) = Inr e"
    and new: "replay_state cl fl (es @ [e]) = Inr new" and old: "optional_state cl fl es = Inr old"
    and recorded: "read_seal_mark k = Inr recorded" and mark: "resolve_seal_mark es old recorded = Inr mark"
    and nm: "seal_mark_of (es @ [e]) new = Inr new_mark"
    and writes: "writes = (let chain_file = atomic_write (PDict (dict_set ''stored_at_unix'' (PInt now)
                   (dict_set ''chain'' (PList (rs @ [PDict record])) (stored_body b))));
                   flight = atomic_write (PDict [(''prev'', mark), (''next'', new_mark)])
               in if new_mark = PNone then [(chain_file, k)]
                  else [(b, flight), (chain_file, flight), (chain_file, atomic_write new_mark)])"
    by (rule append_parts[OF assms(1)])
  define chain_file where "chain_file = atomic_write (PDict (dict_set ''stored_at_unix'' (PInt now)
                   (dict_set ''chain'' (PList (rs @ [PDict record])) (stored_body b))))"
  have accepted: "check_seal_mark es old recorded = Inr ()" using mark by (auto simp: resolve_seal_mark_def bind_err_Inr)
  have before: "genesis_chain_state cl fl (b, k) = Inr old" by (rule chain_state_ok[OF rs es recorded old accepted])
  have body: "distinct (map fst (stored_body b))"
    using assms(2) by (auto simp: stored_body_def canonical_blob_def split: blob.split)
  have "distinct (map fst (dict_set ''stored_at_unix'' (PInt now) (dict_set ''chain'' (PList (rs @ [PDict record])) (stored_body b))))"
    by (intro dict_wf_set[unfolded dict_wf_def] body)
  then have rs': "read_chain chain_file = Inr (map norm_json (rs @ [PDict record]))"
    unfolding chain_file_def by (rule read_chain_written) (simp add: get_def dict_facts)
  have norm: "map norm_json (rs @ [PDict record]) = rs @ [norm_json (PDict record)]"
    using canonical_chain[OF assms(2) rs] by simp
  have es': "entries_from_records cl (map norm_json (rs @ [PDict record])) = Inr (es @ [e])"
    unfolding norm using es entry_of_norm[OF e assms(4)] unfolding entries_from_records_def map_err_append by blast
  have st': "optional_state cl fl (es @ [e]) = Inr (Some new)" using new by (simp add: optional_snoc)
  show ?thesis
  proof (cases "sealed_id new = None")
    case True
    then have "new_mark = PNone" using seal_mark_total[OF new] nm by auto
    then have w: "writes = [(chain_file, k)]" using writes by (simp add: chain_file_def)
    have "\<not> is_sealed old" by (rule sealed_grows[OF old new True])
    then have "check_seal_mark (es @ [e]) (Some new) recorded = Inr ()"
      by (rule unsealed_grows[OF accepted]) (simp add: True)
    then have "genesis_chain_state cl fl (chain_file, k) = Inr (Some new)" by (rule chain_state_ok[OF rs' es' recorded st'])
    then show ?thesis using before w True rs rs'[unfolded norm] by (simp add: Let_def)
  next
    case False
    note m = seal_mark_matches[OF new nm False]
    let ?flight = "atomic_write (PDict [(''prev'', mark), (''next'', new_mark)])"
    have w: "writes = [(b, ?flight), (chain_file, ?flight), (chain_file, atomic_write new_mark)]"
      using writes m(2) by (simp add: chain_file_def Let_def)
    have side: "norm_json v = v" if "v = recorded \<or> v \<in> set (mark_sides recorded)" for v
    proof (cases k)
      case (Stored d)
      then have d: "recorded = d" "norm_json d = d" "distinct (map fst (the_dict d))"
        using recorded assms(3) by (auto simp: read_seal_mark_def canonical_blob_def)
      have "norm_json (get (the_dict d) f) = get (the_dict d) f" for f
        using get_canonical[OF _ d(3)] d(2) by (cases d) (auto simp: get_def)
      then show ?thesis using that d by (auto simp: mark_sides_def)
    qed (use that recorded in \<open>auto simp: read_seal_mark_def mark_sides_def get_def\<close>)
    have flight: "read_seal_mark ?flight = Inr (PDict [(''next'', new_mark), (''prev'', mark)])"
      by (rule flight_written[OF side m(3)]) (rule resolve_plain(2)[OF mark])
    obtain r where "check_one_mark es old new_mark = Inl (ChainError r)"
      using longer_mark_refused[OF old m(5)] by auto
    then have "check_seal_mark es old (PDict [(''next'', new_mark), (''prev'', mark)]) = Inr ()"
      using resolve_plain(1)[OF mark] m(2) unfolding flight_check by (cases "mark = PNone") simp_all
    then have s1: "genesis_chain_state cl fl (b, ?flight) = Inr old" by (rule chain_state_ok[OF rs es flight old])
    have "check_seal_mark (es @ [e]) (Some new) (PDict [(''next'', new_mark), (''prev'', mark)]) = Inr ()"
      using m(1,2) unfolding flight_check by simp
    then have s2: "genesis_chain_state cl fl (chain_file, ?flight) = Inr (Some new)" by (rule chain_state_ok[OF rs' es' flight st'])
    have "check_seal_mark (es @ [e]) (Some new) new_mark = Inr ()"
      by (rule plain_check[OF m(1) m(2) seal_mark_of_plain[OF nm]])
    then have s3: "genesis_chain_state cl fl (chain_file, atomic_write new_mark) = Inr (Some new)"
      by (rule chain_state_ok[OF rs' es' mark_written[OF m(3,2)] st'])
    show ?thesis using before w False s1 s2 s3 rs rs'[unfolded norm] by (simp add: Let_def)
  qed
qed

text \<open>C3: an append survives a crash. Take the files as the writes of a successful append leave them, one
  after the other, so also as a crash between two of them leaves them. The store reads from each
  either the state before the append or the state after it, never an error and never anything else,
  and once it reads the state after it, it keeps reading it.\<close>

theorem append_survives_crash:
  assumes "append_genesis_chain_entry cl fl now record (b, k) = Inr (writes, new)"
    and "canonical_blob b" and "canonical_blob k" and "plain_record record"
  shows "\<exists>old. genesis_chain_state cl fl (b, k) = Inr old \<and>
    map (genesis_chain_state cl fl) writes =
      (if sealed_id new = None then [Inr (Some new)] else [Inr old, Inr (Some new), Inr (Some new)])"
  using append_writes[OF assms] by blast

text \<open>C9: a recorded seal cannot be rolled back. Once the mark of a sealed chain is on disk, whatever the
  members file is replaced by, the store accepts it only as an extension: the accepted chain has at
  least as many entries, begins with the recorded ones up to their signatures (or shows an explicit
  SHA-256 collision), and is sealed with the same id. A missing file, an unsealed chain, a shorter
  one and one that differs are refused.\<close>

theorem seal_forbids_rollback:
  assumes "replay_state cl fl es = Inr st" and "seal_mark_of es st = Inr m" and "sealed_id st \<noteq> None"
    and "genesis_chain_state cl fl (b, Stored m) = Inr s'"
    and "read_chain b = Inr rs" and "entries_from_records cl rs = Inr es'"
    and "\<forall>e \<in> set es \<union> set es'. int_prints (ce_seq e)"
  shows "\<exists>st'. s' = Some st' \<and> sealed_id st' = sealed_id st \<and> length es \<le> length es'
    \<and> (map bare (take (length es) es') = map bare es
       \<or> (\<exists>x \<in> set es'. \<exists>y \<in> set es. sha_collision (entry_bytes x) (entry_bytes y)))"
proof -
  note m = seal_mark_matches[OF assms(1-3)]
  have st: "optional_state cl fl es' = Inr s'" "check_seal_mark es' s' m = Inr ()"
    by (rule chain_state_parts[OF assms(4)]; use assms(5,6) in \<open>simp add: read_seal_mark_def\<close>)+
  have one: "check_one_mark es' s' m = Inr ()"
    using st(2) m(2) seal_mark_of_plain[OF assms(2)] by (auto simp: check_seal_mark_def split: if_splits)
  then obtain st' where st': "s' = Some st'" by (cases s') (auto simp: check_one_mark_def split: if_splits)
  then obtain v' where v': "replay_run cl fl es' = Inr v'" "st' = chain_state.truncate v'"
    using st(1) by (auto simp: optional_state_def bind_err_Inr replay_state_Inr split: if_splits)
  obtain v where v: "replay_run cl fl es = Inr v" "st = chain_state.truncate v"
    using assms(1) replay_state_Inr by blast
  have ne: "es \<noteq> []" using v assms(3) by (auto simp: replay_start_def)
  then have pos: "0 < length es" by simp
  have parts: "length es \<le> chain_length st'" "opt_str (sealed_id st') = get (the_dict m) ''sealed_id''"
    "length es \<le> length es' \<longrightarrow> PStr (entry_hash (es' ! (length es - 1))) = get (the_dict m) ''tip''"
    using check_one_parts[OF one[unfolded st'] m(5) pos] by auto
  have own: "opt_str (sealed_id st) = get (the_dict m) ''sealed_id''"
    "PStr (entry_hash (es ! (length es - 1))) = get (the_dict m) ''tip''"
    using check_one_parts[OF m(1) m(5) pos] by auto
  have len: "length es \<le> length es'" using parts(1) replay_run_length[OF v'(1)] v'(2) by simp
  obtain w where w: "replay_run cl fl (take (length es) es') = Inr w" using run_take[OF v'(1)] by blast
  have "take (length es) es' \<noteq> []" using ne len by auto
  then have "tip_hash w = Some (entry_hash (es' ! (length es - 1)))"
    using replay_run_length[OF w] len ne by (simp add: last_conv_nth min_def)
  moreover have "entry_hash (es' ! (length es - 1)) = entry_hash (es ! (length es - 1))"
    using parts(3) own(2) len by (metis pyval.inject(4))
  ultimately have "tip_hash w = tip_hash v" using replay_run_length[OF v(1)] ne by (simp add: last_conv_nth)
  then have "map bare (take (length es) es') = map bare es
       \<or> (\<exists>x \<in> set (take (length es) es'). \<exists>y \<in> set es. sha_collision (entry_bytes x) (entry_bytes y))"
    by (rule run_history[OF w v(1)]) (use assms(7) in \<open>auto dest: in_set_takeD\<close>)
  moreover have "sealed_id st' = sealed_id st" using parts(2) own(1) opt_str_inj by metis
  ultimately show ?thesis using st' len in_set_takeD[of _ "length es" es'] by blast
qed

text \<open>Settling at start loses nothing. When the store reads a state, settling the mark succeeds, the
  store then reads the same state, the members file is untouched, and the mark left is a plain one
  or none, so that from then on a rollback to before it is refused.\<close>

theorem settle_keeps_state:
  assumes "genesis_chain_state cl fl (b, k) = Inr s" and "canonical_blob k"
    and "read_seal_mark k = Inr m" and "\<forall>p \<in> set (mark_sides m). \<not> in_flight p"
  shows "\<exists>k' m'. settle_seal_mark cl fl (b, k) = Inr (b, k') \<and> genesis_chain_state cl fl (b, k') = Inr s
    \<and> read_seal_mark k' = Inr m' \<and> \<not> in_flight m'"
proof (cases "in_flight m")
  case False
  then show ?thesis using assms(1,3) by (auto simp: settle_seal_mark_def)
next
  case True
  obtain rs es where parts: "read_chain b = Inr rs" "entries_from_records cl rs = Inr es" "optional_state cl fl es = Inr s"
    and check: "check_seal_mark es s m = Inr ()"
    by (rule chain_state_parts[OF assms(1)]) (use assms(3) in auto)
  obtain p where p: "matching_side es s (mark_sides m) = Inr p"
    using check True by (auto simp: check_seal_mark_def bind_err_Inr in_flight_def split: if_splits)
  then have side: "p \<in> set (mark_sides m)" "if p = PNone then \<not> is_sealed s else check_one_mark es s p = Inr ()"
    using matching_side_Inr by blast+
  have settle: "settle_seal_mark cl fl (b, k) = Inr (b, if p = PNone then Absent else atomic_write p)"
    using True assms(3) parts p check by (simp add: settle_seal_mark_def resolve_seal_mark_def)
  show ?thesis
  proof (cases "p = PNone")
    case p0: True
    have "read_seal_mark Absent = Inr PNone" by (simp add: read_seal_mark_def)
    moreover have "check_seal_mark es s PNone = Inr ()" using side(2) p0 by (simp add: check_seal_mark_def)
    ultimately have "genesis_chain_state cl fl (b, Absent) = Inr s" by (intro chain_state_ok[OF parts(1,2) _ parts(3)])
    then show ?thesis using settle p0 by (auto simp: read_seal_mark_def in_flight_def)
  next
    case p1: False
    obtain d where k: "k = Stored (PDict d)" "m = PDict d"
      using assms(3) True by (cases k; cases m) (auto simp: read_seal_mark_def in_flight_def)
    have "norm_json p = p"
      using side(1) get_canonical[of d] assms(2) by (auto simp: k mark_sides_def canonical_blob_def)
    then have read: "read_seal_mark (atomic_write p) = Inr p" by (rule mark_written[OF _ p1])
    have "check_seal_mark es s p = Inr ()" using side(2) p1 assms(4) side(1) by (intro plain_check) auto
    then have "genesis_chain_state cl fl (b, atomic_write p) = Inr s" by (rule chain_state_ok[OF parts(1,2) read parts(3)])
    then show ?thesis using settle p1 read assms(4) side(1) by auto
  qed
qed

text \<open>The roster the gate reads does not look at the mark. After an append to a sealed chain, put back
  the members file as it was before: the chain's state is then refused, but the list of members, and
  with it the check of an act's two signatures, answers with the members of the chain that fell behind.\<close>

theorem rolled_back_members_answer:
  assumes "append_genesis_chain_entry cl fl now record (b, k) = Inr (writes, new)"
    and "sealed_id new \<noteq> None" and "genesis_chain_state cl fl (b, k) = Inr (Some old)"
  shows "(\<exists>r. genesis_chain_state cl fl (b, snd (last writes)) = Inl (ChainError r))
    \<and> list_genesis_members_full cl fl (b, snd (last writes)) = Inr (map (\<lambda>(i, e). (i,
        \<lparr>gm_kind = i, gm_pubkey = ce_pubkey e, gm_algorithm = ce_algorithm e\<rparr>)) (members old))"
proof -
  obtain rs es e old' recorded mark new_mark where
    rs: "read_chain b = Inr rs" and es: "entries_from_records cl rs = Inr es" and e: "entry_of_record cl (PDict record) = Inr e"
    and new: "replay_state cl fl (es @ [e]) = Inr new" and old': "optional_state cl fl es = Inr old'"
    and nm: "seal_mark_of (es @ [e]) new = Inr new_mark"
    and writes: "writes = (let chain_file = atomic_write (PDict (dict_set ''stored_at_unix'' (PInt now)
                   (dict_set ''chain'' (PList (rs @ [PDict record])) (stored_body b))));
                   flight = atomic_write (PDict [(''prev'', mark), (''next'', new_mark)])
               in if new_mark = PNone then [(chain_file, k)]
                  else [(b, flight), (chain_file, flight), (chain_file, atomic_write new_mark)])"
    by (rule append_parts[OF assms(1)])
  note m = seal_mark_matches[OF new nm assms(2)]
  have final: "snd (last writes) = atomic_write new_mark" using writes m(2) by (simp add: Let_def)
  have "optional_state cl fl es = Inr (Some old)" using assms(3) rs es by (auto elim: chain_state_parts)
  then have ne: "es \<noteq> []" and rep: "replay_state cl fl es = Inr old"
    by (auto simp: optional_state_def bind_err_Inr split: if_splits)
  obtain r where "check_one_mark es (Some old) new_mark = Inl (ChainError r)"
    using longer_mark_refused[OF \<open>optional_state cl fl es = Inr (Some old)\<close> m(5)] by auto
  then have "\<exists>r. check_seal_mark es (Some old) new_mark = Inl (ChainError r)"
    using m(2) seal_mark_of_plain[OF nm] by (auto simp: check_seal_mark_def)
  then have refused: "\<exists>r. genesis_chain_state cl fl (b, atomic_write new_mark) = Inl (ChainError r)"
    using rs es \<open>optional_state cl fl es = Inr (Some old)\<close> mark_written[OF m(3,2)] by (auto simp: genesis_chain_state_def)
  have "rs \<noteq> []" using es ne by (auto simp: entries_from_records_def)
  then obtain d where b: "b = Stored (PDict d)" "get d ''chain'' = PList rs" "rs \<noteq> []"
    using rs by (cases b) (auto simp: read_chain_def entries_from_records_def is_dict_iff split: pyval.splits if_splits)
  obtain f fs where fs: "es = f # fs" using ne by (cases es) auto
  have "replay_stored_chain cl fl (PList rs) = Inr (map (\<lambda>(i, e). (i,
        \<lparr>gm_kind = i, gm_pubkey = ce_pubkey e, gm_algorithm = ce_algorithm e\<rparr>)) (members old), [])"
    using es b(3) rep by (simp add: replay_stored_chain_def conv_def fs replay_def)
  then show ?thesis using refused final
    by (simp add: list_genesis_members_full_def read_genesis_members_def b)
qed

text \<open>C27: sealing a passphrase over a chain that does not verify destroys the chain. The members of such a
  file are reported unreadable under the name of the chain, which the command's guard against
  overwriting does not look at: without any force flag it goes on to the flat writer, which keeps the
  members of the file and drops everything else, so the store afterwards holds no chain at all.\<close>

theorem seal_passphrase_drops_chain:
  assumes "read_genesis_members cl fl b = Inr ([], [(''<chain>'', UnreadableChain)])"
    and "b = Stored (PDict d)" and "dict_of (get d ''members'') = Inr ms"
    and "validate_genesis_pubkey cl (Some pk) legacy_algorithm = Some legacy_algorithm"
  shows "\<exists>b'. seal_passphrase cl fl now False (Some pk) True (b, k) = Inr (0, b', k) \<and> read_chain b' = Inr []
    \<and> genesis_chain_state cl fl (b', Absent) = Inr None"
proof -
  define members where "members = PDict (dict_set passphrase_kind
    (PDict [(''pubkey'', PStr (hexlify pk)), (''algorithm'', PStr legacy_algorithm)]) ms)"
  have kind: "py_lower (strip passphrase_kind) = passphrase_kind" by code_simp
  have name: "filter (\<lambda>c. c \<noteq> CHR ''-'') passphrase_kind = passphrase_kind \<and> py_isalnum passphrase_kind
      \<and> passphrase_kind \<noteq> [] \<and> passphrase_kind \<noteq> ''<chain>''" by code_simp
  have put: "put_genesis_member cl now passphrase_kind pk legacy_algorithm (b, k)
      = Inr (atomic_write (PDict [(''members'', members), (''stored_at_unix'', PInt now)]), k)"
    using name assms(2-4) unfolding put_genesis_member_def Let_def kind
    by (simp add: conv_def members_def)
  have "seal_passphrase cl fl now False (Some pk) True (b, k)
      = Inr (0, atomic_write (PDict [(''members'', members), (''stored_at_unix'', PInt now)]), k)"
    unfolding seal_passphrase_def get_genesis_member_def list_genesis_members_full_def
      list_unreadable_genesis_members_def assms(1) fst_conv snd_conv
    using name by (simp add: put)
  moreover have empty: "read_chain (atomic_write (PDict [(''members'', members), (''stored_at_unix'', PInt now)])) = Inr []"
  proof -
    have "get (the_dict (norm_json (PDict [(''members'', members), (''stored_at_unix'', PInt now)]))) ''chain'' = PNone"
      by (subst get_norm) (simp_all add: get_def)
    then show ?thesis by (simp add: read_chain_def atomic_write_def)
  qed
  ultimately show ?thesis
    by (auto simp: genesis_chain_state_def read_seal_mark_def entries_from_records_def optional_state_def check_seal_mark_def)
qed

section \<open>Examples\<close>

theorem seal_passphrase_drops_chain_witness:
  "\<exists>b'. seal_passphrase sample_lib id 7 False (Some (chain_sample_key 9)) True
      (Stored (PDict [(''chain'', PList [PStr ''tampered''])]), Absent) = Inr (0, b', Absent)
    \<and> read_chain b' = Inr [] \<and> genesis_chain_state sample_lib id (b', Absent) = Inr None"
proof (rule seal_passphrase_drops_chain[OF _ refl])
  show "read_genesis_members sample_lib id (Stored (PDict [(''chain'', PList [PStr ''tampered''])]))
      = Inr ([], [(''<chain>'', UnreadableChain)])"
    by (simp add: read_genesis_members_def get_def replay_stored_chain_def conv_def entries_from_records_def entry_of_record_def)
  show "dict_of (get [(''chain'', PList [PStr ''tampered''])] ''members'') = Inr []" by (simp add: dict_of_def get_def)
  show "validate_genesis_pubkey sample_lib (Some (chain_sample_key 9)) legacy_algorithm = Some legacy_algorithm"
    using sample_valid by (simp add: legacy_algorithm_def)
qed

text \<open>The chain of a passphrase, a device and the sealed id, built entry by entry.\<close>

definition seal_fields :: "(string, pyval) dict" where
  "seal_fields = [(''identity_members'', PList []), (''operator_pubkey'', PStr (hexlify (replicate 64 7)))]"

definition seal_entry :: chain_entry where
  "seal_entry = \<lparr>ce_seq = 2, ce_op = OpSealId, ce_kind = ''bootloader-id'', ce_pubkey = utf8 ''vault'', ce_algorithm = ''none'',
     ce_prev = Some (entry_hash device_entry), ce_signatures = [sample_sig 1, sample_sig 2], ce_meta = Some (canonical_meta seal_fields)\<rparr>"

definition after_seal :: replay_vars where
  "after_seal = after_device\<lparr>sealed_id := Some ''vault'', sealed_operator_pubkey := Some (replicate 64 7),
     tip_hash := Some (entry_hash seal_entry), chain_length := 3\<rparr>"

lemma seal_meta_object: "meta_object fl (Some (canonical_meta seal_fields)) = Inr (Some seal_fields)"
proof -
  have "json_plain (PDict seal_fields)" "norm_json (PDict seal_fields) = PDict seal_fields"
    by (simp_all add: seal_fields_def)
  then have "json_loads fl (json_dumps (PDict seal_fields)) = Inr (PDict seal_fields)"
    using json_loads_dumps[of "PDict seal_fields" fl] by simp
  then show ?thesis by (simp add: meta_object_def canonical_meta_def del: json_dumps.simps)
qed

lemma decode_vault: "decode_id seal_entry = Inr ''vault''"
proof -
  have "map (\<lambda>b. char_of (nat_of b)) (utf8 ''vault'') = ''vault''" "list_all (\<lambda>b. nat_of b < 128) (utf8 ''vault'')"
    "list_all char_isprintable ''vault''"
    by code_simp+
  then show ?thesis by (simp add: decode_id_def seal_entry_def)
qed

lemma seal_step: "replay_step sample_lib fl seal_entry after_device = Inr after_seal"
proof -
  have fields: "ce_seq seal_entry = 2" "ce_op seal_entry = OpSealId" "ce_prev seal_entry = Some (entry_hash device_entry)"
    "ce_meta seal_entry = Some (canonical_meta seal_fields)" "ce_signatures seal_entry = [sample_sig 1, sample_sig 2]"
    by (simp_all add: seal_entry_def)
  have gets: "get seal_fields ''operator_pubkey'' = PStr (hexlify (replicate 64 7))" "get seal_fields ''identity_members'' = PList []"
    by (simp_all add: seal_fields_def get_def)
  have "has_device (members after_device)" "sealed_id after_device = None" "tip_hash after_device = Some (entry_hash device_entry)"
    "chain_length after_device = 2" "device_ever after_device"
    by (simp_all add: after_device_def after_genesis_def replay_start_def has_device_def device_kinds_def)
  moreover have "require_threshold sample_lib (members after_device) seal_entry msg True = Inr ()" for msg
    by (simp add: after_device_def fields replay_eval genesis_entry_def device_entry_def)
  moreover have "seal_operator_key sample_lib fl seal_entry = Inr (replicate 64 7)"
    using gets by (simp add: seal_operator_key_def fields seal_meta_object hex_of_text_def secp256k1_point_def sample_lib_def)
  ultimately show ?thesis
    unfolding replay_step_Inr
    by (simp add: fields check_authority_def entry_seal_def decode_vault apply_entry_def after_seal_def)
qed

definition sample_chain_entries :: "chain_entry list" where
  "sample_chain_entries = [genesis_entry, device_entry, seal_entry]"

lemma sealed_sample: "replay_run sample_lib fl sample_chain_entries = Inr after_seal"
  by (simp add: replay_run_def sample_chain_entries_def genesis_step device_step seal_step)


definition sample_file :: "chain_entry list \<Rightarrow> blob" where
  "sample_file es = atomic_write (PDict [(''chain'', PList (map as_record es))])"

lemma as_record_plain: "plain_record (the_dict (as_record e))" and as_record_dict: "PDict (the_dict (as_record e)) = as_record e"
  by (simp_all add: plain_record_def record_fields) (auto simp: as_record_def opt_field_def split: option.split)

lemma sample_file_canonical: "canonical_blob (sample_file es)"
proof -
  have "the_dict (norm_json (PDict [(''chain'', v)])) = [(''chain'', norm_json v)]" for v by simp
  then show ?thesis unfolding canonical_blob_def sample_file_def atomic_write_def by (auto simp: norm_json_idem)
qed

lemma sample_file_chain: "read_chain (sample_file es) = Inr (map norm_json (map as_record es))"
  unfolding sample_file_def by (rule read_chain_written) (simp_all add: get_def)

lemma sample_file_entries:
  assumes "\<And>e. e \<in> set es \<Longrightarrow> entry_of_record cl (as_record e) = Inr e"
  shows "entries_from_records cl (map norm_json (map as_record es)) = Inr es"
  using assms
proof (induction es)
  case (Cons e es)
  have "entry_of_record cl (norm_json (as_record e)) = Inr e"
    using entry_of_norm[OF _ as_record_plain, of cl e] Cons.prems by (simp add: as_record_dict)
  then show ?case using Cons by (simp add: entries_from_records_def)
qed (simp add: entries_from_records_def)

lemma seal_reads: "entry_of_record sample_lib (as_record seal_entry) = Inr seal_entry"
proof (rule record_reads)
  have "dict_get chain_ops ''seal-id'' = Some OpSealId" using chain_ops_name[of OpSealId] by simp
  then show "build_entry sample_lib (ce_seq seal_entry) (PStr (op_name (ce_op seal_entry))) (ce_kind seal_entry)
      (ce_pubkey seal_entry) (PStr (ce_algorithm seal_entry)) (ce_prev seal_entry) (ce_signatures seal_entry)
      (ce_meta seal_entry) = Inr seal_entry"
    by (simp add: build_entry_def seal_entry_def value_algorithm_def)
qed

lemma sample_two_entries:
  "entries_from_records sample_lib (map norm_json (map as_record [genesis_entry, device_entry])) = Inr [genesis_entry, device_entry]"
  by (rule sample_file_entries) (auto simp: genesis_entry_def device_entry_def sample_reads)

definition seal_mark :: pyval where
  "seal_mark = PDict [(''length'', PInt 3), (''seal_hash'', PStr (entry_hash seal_entry)), (''seal_seq'', PInt 2),
     (''sealed_id'', PStr ''vault''), (''tip'', PStr (entry_hash seal_entry))]"

lemma sealed_sample_state:
  "replay_state sample_lib fl sample_chain_entries = Inr (chain_state.truncate after_seal)"
  by (simp add: replay_state_def sealed_sample)

lemma sealed_sample_mark: "seal_mark_of sample_chain_entries (chain_state.truncate after_seal) = Inr seal_mark"
proof -
  have "ce_op genesis_entry = OpAdd" "ce_op device_entry = OpAdd" "ce_op seal_entry = OpSealId" "ce_seq seal_entry = 2"
    by (simp_all add: genesis_entry_def device_entry_def seal_entry_def)
  then show ?thesis
    by (simp add: seal_mark_of_def after_seal_def sample_chain_entries_def seal_mark_def opt_str_def)
qed

definition sealed_file :: blob where
  "sealed_file = atomic_write (PDict (dict_set ''stored_at_unix'' (PInt 9) (dict_set ''chain''
     (PList (map norm_json (map as_record [genesis_entry, device_entry]) @ [as_record seal_entry]))
     (stored_body (sample_file [genesis_entry, device_entry])))))"

definition flight_file :: blob where "flight_file = atomic_write (PDict [(''prev'', PNone), (''next'', seal_mark)])"

lemma sample_append:
  "append_genesis_chain_entry sample_lib fl 9 (the_dict (as_record seal_entry)) (sample_file [genesis_entry, device_entry], Absent)
     = Inr ([(sample_file [genesis_entry, device_entry], flight_file), (sealed_file, flight_file),
             (sealed_file, atomic_write seal_mark)], chain_state.truncate after_seal)"
proof -
  have es: "entries_from_records sample_lib (map norm_json (map as_record [genesis_entry, device_entry]) @ [as_record seal_entry])
      = Inr sample_chain_entries"
    using sample_two_entries seal_reads unfolding entries_from_records_def map_err_append sample_chain_entries_def by auto
  have two: "butlast sample_chain_entries = [genesis_entry, device_entry]" by (simp add: sample_chain_entries_def)
  have old: "optional_state sample_lib fl [genesis_entry, device_entry] = Inr (Some (chain_state.truncate after_device))"
    by (simp add: optional_state_def replay_state_def genesis_run)
  have "\<not> is_sealed (Some (chain_state.truncate after_device))"
    by (simp add: after_device_def after_genesis_def replay_start_def)
  then have res: "resolve_seal_mark [genesis_entry, device_entry] (Some (chain_state.truncate after_device)) PNone = Inr PNone"
    by (simp add: resolve_seal_mark_def check_seal_mark_def in_flight_def)
  show ?thesis
    unfolding append_genesis_chain_entry_def fst_conv snd_conv sample_file_chain bind_err_simps Let_def as_record_dict es
      well_formed_record_def sum.case sealed_sample_state two old res sealed_sample_mark
    by (simp add: read_seal_mark_def res sealed_sample_mark sealed_file_def flight_file_def seal_mark_def[THEN arg_cong[of _ _ "\<lambda>m. m = PNone"]]
        del: map_append list.map)
qed

theorem append_survives_crash_witness:
  "\<exists>old. map (genesis_chain_state sample_lib id)
      [(sample_file [genesis_entry, device_entry], flight_file), (sealed_file, flight_file), (sealed_file, atomic_write seal_mark)]
    = [Inr old, Inr (Some (chain_state.truncate after_seal)), Inr (Some (chain_state.truncate after_seal))]"
proof -
  have "sealed_id (chain_state.truncate after_seal) \<noteq> None" by (simp add: after_seal_def)
  then show ?thesis
    using append_survives_crash[OF sample_append[of id] sample_file_canonical _ as_record_plain]
    by (fastforce simp: canonical_blob_def)
qed

text \<open>The state and checks of the sample chain under its own mark.\<close>

lemma sample_mark_matches: "check_one_mark sample_chain_entries (Some (chain_state.truncate after_seal)) seal_mark = Inr ()"
  by (rule seal_mark_matches[OF sealed_sample_state sealed_sample_mark]) (simp add: after_seal_def)

lemma seal_mark_simps: "norm_json seal_mark = seal_mark" "seal_mark \<noteq> PNone" "\<not> in_flight seal_mark" "is_dict seal_mark"
    "the_dict seal_mark \<noteq> []"
  by (simp_all add: seal_mark_def in_flight_def has_key_def)

lemma sample_chain_reads:
  "entries_from_records sample_lib (map norm_json (map as_record sample_chain_entries)) = Inr sample_chain_entries"
  by (rule sample_file_entries)
    (auto simp: sample_chain_entries_def seal_reads genesis_entry_def device_entry_def sample_reads)

lemma sample_optional: "optional_state sample_lib fl sample_chain_entries = Inr (Some (chain_state.truncate after_seal))"
  by (simp add: optional_state_def sealed_sample_state) (simp add: sample_chain_entries_def)

lemma sample_sealed_reads:
  "genesis_chain_state sample_lib fl (sample_file sample_chain_entries, Stored seal_mark)
     = Inr (Some (chain_state.truncate after_seal))"
  by (rule chain_state_ok[OF sample_file_chain sample_chain_reads _ sample_optional, of _ seal_mark])
    (simp_all add: read_seal_mark_def check_seal_mark_def sample_mark_matches seal_mark_simps)

lemma sample_flight_reads:
  "genesis_chain_state sample_lib fl (sample_file sample_chain_entries, flight_file)
     = Inr (Some (chain_state.truncate after_seal))"
proof (rule chain_state_ok[OF sample_file_chain sample_chain_reads _ sample_optional])
  show "read_seal_mark flight_file = Inr (PDict [(''next'', seal_mark), (''prev'', PNone)])"
    unfolding flight_file_def by (rule flight_written) (simp_all add: seal_mark_simps)
  show "check_seal_mark sample_chain_entries (Some (chain_state.truncate after_seal))
      (PDict [(''next'', seal_mark), (''prev'', PNone)]) = Inr ()"
    by (simp add: flight_check sample_mark_matches seal_mark_simps)
qed

theorem seal_forbids_rollback_witness:
  "\<exists>st'. Some (chain_state.truncate after_seal) = Some st'
    \<and> sealed_id st' = sealed_id (chain_state.truncate after_seal) \<and> length sample_chain_entries \<le> length sample_chain_entries"
proof -
  have ints: "int_prints 0" "int_prints 1" "int_prints 2" by code_simp+
  have "\<forall>e \<in> set sample_chain_entries \<union> set sample_chain_entries. int_prints (ce_seq e)"
    using ints by (simp add: sample_chain_entries_def genesis_entry_def device_entry_def seal_entry_def)
  moreover have "sealed_id (chain_state.truncate after_seal) \<noteq> None" by (simp add: after_seal_def)
  ultimately show ?thesis
    using seal_forbids_rollback[OF sealed_sample_state sealed_sample_mark _ sample_sealed_reads sample_file_chain
        sample_chain_reads] by blast
qed

theorem settle_keeps_state_witness:
  "\<exists>k' m'. settle_seal_mark sample_lib id (sample_file sample_chain_entries, flight_file) = Inr (sample_file sample_chain_entries, k')
    \<and> genesis_chain_state sample_lib id (sample_file sample_chain_entries, k') = Inr (Some (chain_state.truncate after_seal))
    \<and> read_seal_mark k' = Inr m' \<and> \<not> in_flight m'"
proof (rule settle_keeps_state[OF sample_flight_reads])
  show "read_seal_mark flight_file = Inr (PDict [(''next'', seal_mark), (''prev'', PNone)])"
    unfolding flight_file_def by (rule flight_written) (simp_all add: seal_mark_simps)
  show "canonical_blob flight_file"
    by (auto simp: canonical_blob_def flight_file_def atomic_write_def seal_mark_simps)
  show "\<forall>p \<in> set (mark_sides (PDict [(''next'', seal_mark), (''prev'', PNone)])). \<not> in_flight p"
    by (simp add: mark_sides_def get_def seal_mark_simps) (simp add: in_flight_def)
qed

theorem rolled_back_members_answer_witness:
  "(\<exists>r. genesis_chain_state sample_lib id (sample_file [genesis_entry, device_entry], atomic_write seal_mark) = Inl (ChainError r))
    \<and> list_genesis_members_full sample_lib id (sample_file [genesis_entry, device_entry], atomic_write seal_mark)
      = Inr (map (\<lambda>(i, e). (i, \<lparr>gm_kind = i, gm_pubkey = ce_pubkey e, gm_algorithm = ce_algorithm e\<rparr>))
          (members (chain_state.truncate after_device)))"
proof -
  have "optional_state sample_lib id [genesis_entry, device_entry] = Inr (Some (chain_state.truncate after_device))"
    by (simp add: optional_state_def replay_state_def genesis_run)
  moreover have "\<not> is_sealed (Some (chain_state.truncate after_device))"
    by (simp add: after_device_def after_genesis_def replay_start_def)
  ultimately have "genesis_chain_state sample_lib id (sample_file [genesis_entry, device_entry], Absent)
      = Inr (Some (chain_state.truncate after_device))"
    by (intro chain_state_ok[OF sample_file_chain sample_two_entries, of _ PNone]) (simp_all add: read_seal_mark_def check_seal_mark_def)
  moreover have "sealed_id (chain_state.truncate after_seal) \<noteq> None" by (simp add: after_seal_def)
  ultimately show ?thesis using rolled_back_members_answer[OF sample_append[of id]] by simp
qed

end
