(* ===== verification/Registry.thy ===== *)
theory Registry
  imports Sessions Sha256 SubjectHandle
begin

text \<open>
  The bootloader's state store (\<^verbatim>\<open>src/recto/bootloader/state.py\<close>, the file backend): registered phones,
  sessions, cards waiting for a phone, one-time codes and challenges, the revocation list and the
  owner-slot entries. The store's lock serialises its operations, so an operation is a function on
  the store; its clock reading and its random draws are arguments. Disk and memory agree after every
  operation that writes (the write comes first), so one value stands for both; what a restart drops is
  \<open>restarted\<close>.
\<close>

section \<open>Phones\<close>

record phone =
  ph_id :: string
  ph_label :: string
  ph_key :: string
  ph_algorithms :: "string list"
  ph_registered_at :: int
  ph_last_seen :: int
  ph_push_token :: "string option"
  ph_push_platform :: "string option"
  ph_poll_key :: "string option"
  ph_slot :: string
  ph_bindings :: "(string \<times> string) list"

definition slots :: "string list" where "slots = [''primary'', ''recovery'']"
definition member_slot :: string where "member_slot = ''member''"

definition phone_ref_of :: "string \<Rightarrow> string" where
  "phone_ref_of public_key_b64u = ''pk_'' @ take 16 (hexlify (sha256
     (case unb64u public_key_b64u of Inr raw \<Rightarrow> raw | Inl _ \<Rightarrow> utf8 public_key_b64u)))"

text \<open>\<open>PhoneRegistration.new\<close>: the identifier is derived from the key.\<close>

definition new_phone ::
  "int \<Rightarrow> string \<Rightarrow> string \<Rightarrow> string list \<Rightarrow> string option \<Rightarrow> string option \<Rightarrow> string option \<Rightarrow> string
     \<Rightarrow> (string \<times> string) list \<Rightarrow> phone" where
  "new_phone now lbl key algos token platform poll slt bindings =
     \<lparr>ph_id = phone_ref_of key, ph_label = lbl, ph_key = key, ph_algorithms = algos, ph_registered_at = now,
      ph_last_seen = now, ph_push_token = token, ph_push_platform = platform, ph_poll_key = poll, ph_slot = slt,
      ph_bindings = bindings\<rparr>"

definition merge_onto_existing :: "phone option \<Rightarrow> phone \<Rightarrow> phone" where
  "merge_onto_existing existing incoming =
     (case existing of None \<Rightarrow> incoming
      | Some p \<Rightarrow> incoming\<lparr>ph_id := ph_id p, ph_registered_at := ph_registered_at p\<rparr>)"

section \<open>The other rows\<close>

record session =
  ss_service :: string
  ss_secret :: string
  ss_phone_id :: string
  ss_jwt :: string
  ss_expires_at :: int
  ss_issued_at :: int
  ss_max_uses :: int
  ss_uses_so_far :: int

definition session_expired :: "int \<Rightarrow> session \<Rightarrow> bool" where
  "session_expired now s \<longleftrightarrow> now \<ge> ss_expires_at s"

definition session_exhausted :: "session \<Rightarrow> bool" where
  "session_exhausted s \<longleftrightarrow> 0 < ss_max_uses s \<and> ss_uses_so_far s \<ge> ss_max_uses s"

text \<open>A card: the fields every kind of request has.\<close>

record pending_card =
  cd_id :: string
  cd_kind :: string
  cd_service :: string
  cd_secret :: string
  cd_phone_id :: string
  cd_description :: string
  cd_payload_hash :: string
  cd_requested_at :: int
  cd_expires_at :: int

definition new_card :: "int \<Rightarrow> string \<Rightarrow> string \<Rightarrow> string \<Rightarrow> string \<Rightarrow> string \<Rightarrow> string \<Rightarrow> string \<Rightarrow> int \<Rightarrow> pending_card" where
  "new_card now rid knd service secret phone_id description payload_hash ttl =
     \<lparr>cd_id = rid, cd_kind = knd, cd_service = service, cd_secret = secret, cd_phone_id = phone_id,
      cd_description = description, cd_payload_hash = payload_hash, cd_requested_at = now, cd_expires_at = now + ttl\<rparr>"

definition card_expired :: "int \<Rightarrow> pending_card \<Rightarrow> bool" where
  "card_expired now c \<longleftrightarrow> now \<ge> cd_expires_at c"

record revocation_entry =
  rev_jti :: string
  rev_at :: int
  rev_original_exp :: int
  rev_reason :: "string option"

definition revocation_aged :: "int \<Rightarrow> revocation_entry \<Rightarrow> bool" where
  "revocation_aged now r \<longleftrightarrow> now \<ge> rev_original_exp r"

text \<open>A phone that asks for an occupied owner slot; \<open>oe_sealed\<close> is whether the entry carries a draft.\<close>

record owner_enroll =
  oe_request_id :: string
  oe_cards :: "(string, string) dict"
  oe_slot :: string
  oe_incoming_ref :: string
  oe_occupant_ref :: "string option"
  oe_state :: string
  oe_approved_by :: "string option"
  oe_sealed :: bool
  oe_expires_at :: int

text \<open>What a phone's answer leaves for the agent that asked.\<close>

record answer =
  an_request_id :: string
  an_status :: string
  an_value :: "string option"
  an_resolved_at :: int
  an_expires_at :: int

record store =
  phones :: "(string, phone) dict"
  sessions :: "(string \<times> string, session) dict"
  pending :: "(string, pending_card) dict"
  challenges :: "(string, int) dict"
  pairing_codes :: "(string, int) dict"
  member_pairing_codes :: "(string, int) dict"
  member_challenges :: "(string, int) dict"
  member_bindings_by_value :: "(string, (string \<times> string) option) dict"
  owner_challenges :: "(string, int) dict"
  owner_genesis :: "string option"
  owner_enrolls :: "(string, owner_enroll) dict"
  capability_results :: "(string, answer) dict"
  revocations :: "(string, revocation_entry) dict"

definition empty_store :: store where
  "empty_store = \<lparr>phones = [], sessions = [], pending = [], challenges = [], pairing_codes = [],
     member_pairing_codes = [], member_challenges = [], member_bindings_by_value = [], owner_challenges = [],
     owner_genesis = None, owner_enrolls = [], capability_results = [], revocations = []\<rparr>"

section \<open>Operations on phones\<close>

definition find_by_pubkey :: "string \<Rightarrow> store \<Rightarrow> phone option" where
  "find_by_pubkey key st = find (\<lambda>p. ph_key p = key) (dict_values (phones st))"

definition register_phone :: "phone \<Rightarrow> store \<Rightarrow> phone \<times> store" where
  "register_phone reg st =
     (let stored = merge_onto_existing (find_by_pubkey (ph_key reg) st) reg
      in (stored, st\<lparr>phones := dict_set (ph_id stored) stored (phones st)\<rparr>))"

definition get_phone :: "string \<Rightarrow> store \<Rightarrow> phone option" where
  "get_phone pid st = dict_get (phones st) pid"

definition list_phones :: "store \<Rightarrow> phone list" where
  "list_phones st = dict_values (phones st)"

text \<open>Sessions and cards of a phone that is gone go with it.\<close>

definition drop_phone_rows :: "string \<Rightarrow> store \<Rightarrow> store" where
  "drop_phone_rows pid st =
     st\<lparr>sessions := filter (\<lambda>(k, s). ss_phone_id s \<noteq> pid) (sessions st),
        pending := filter (\<lambda>(k, c). cd_phone_id c \<noteq> pid) (pending st)\<rparr>"

definition revoke_phone :: "string \<Rightarrow> store \<Rightarrow> bool \<times> store" where
  "revoke_phone pid st =
     (if dict_get (phones st) pid = None then (False, st)
      else (True, drop_phone_rows pid (st\<lparr>phones := filter (\<lambda>(k, p). k \<noteq> pid) (phones st)\<rparr>)))"

definition replace_phone :: "string \<Rightarrow> phone \<Rightarrow> store \<Rightarrow> phone option \<times> store" where
  "replace_phone occupant reg st =
     (if dict_get (phones st) occupant = None then (None, st)
      else let ps = filter (\<lambda>(k, p). k \<noteq> occupant) (phones st);
               stored = merge_onto_existing (find (\<lambda>p. ph_key p = ph_key reg) (dict_values ps)) reg
           in (Some stored, drop_phone_rows occupant (st\<lparr>phones := dict_set (ph_id stored) stored ps\<rparr>)))"

definition update_phone_push :: "int \<Rightarrow> string \<Rightarrow> string \<Rightarrow> string \<Rightarrow> store \<Rightarrow> bool \<times> store" where
  "update_phone_push now pid token platform st =
     (case dict_get (phones st) pid of None \<Rightarrow> (False, st)
      | Some p \<Rightarrow> (True, st\<lparr>phones := dict_set pid
          (p\<lparr>ph_push_token := Some token, ph_push_platform := Some platform, ph_last_seen := now\<rparr>) (phones st)\<rparr>))"

section \<open>Sessions and cards\<close>

definition get_session :: "int \<Rightarrow> string \<Rightarrow> string \<Rightarrow> store \<Rightarrow> session option \<times> store" where
  "get_session now service secret st =
     (case dict_get (sessions st) (service, secret) of None \<Rightarrow> (None, st)
      | Some s \<Rightarrow> if session_expired now s \<or> session_exhausted s
          then (None, st\<lparr>sessions := dict_pop (service, secret) (sessions st)\<rparr>) else (Some s, st))"

definition put_session :: "session \<Rightarrow> store \<Rightarrow> store" where
  "put_session s st = st\<lparr>sessions := dict_set (ss_service s, ss_secret s) s (sessions st)\<rparr>"

definition increment_session_uses :: "string \<Rightarrow> string \<Rightarrow> store \<Rightarrow> session option \<times> store" where
  "increment_session_uses service secret st =
     (case dict_get (sessions st) (service, secret) of None \<Rightarrow> (None, st)
      | Some s \<Rightarrow> let s' = s\<lparr>ss_uses_so_far := ss_uses_so_far s + 1\<rparr>
          in (Some s', st\<lparr>sessions := dict_set (service, secret) s' (sessions st)\<rparr>))"

definition has_any_session :: "store \<Rightarrow> bool" where
  "has_any_session st \<longleftrightarrow> sessions st \<noteq> []"

definition add_pending :: "pending_card \<Rightarrow> store \<Rightarrow> store" where
  "add_pending c st = st\<lparr>pending := dict_set (cd_id c) c (pending st)\<rparr>"

definition purge_expired_pending :: "int \<Rightarrow> store \<Rightarrow> store" where
  "purge_expired_pending now st = st\<lparr>pending := filter (\<lambda>(k, c). \<not> card_expired now c) (pending st)\<rparr>"

definition list_pending_for_phone :: "int \<Rightarrow> string \<Rightarrow> store \<Rightarrow> pending_card list \<times> store" where
  "list_pending_for_phone now pid st =
     (let st' = purge_expired_pending now st
      in (filter (\<lambda>c. cd_phone_id c = pid) (dict_values (pending st')), st'))"

definition take_pending :: "string \<Rightarrow> store \<Rightarrow> pending_card option \<times> store" where
  "take_pending rid st = (dict_get (pending st) rid, st\<lparr>pending := dict_pop rid (pending st)\<rparr>)"

definition peek_pending :: "string \<Rightarrow> store \<Rightarrow> pending_card option" where
  "peek_pending rid st = dict_get (pending st) rid"

definition purge_capability_results :: "int \<Rightarrow> store \<Rightarrow> store" where
  "purge_capability_results now st =
     st\<lparr>capability_results := filter (\<lambda>(k, r). \<not> now \<ge> an_expires_at r) (capability_results st)\<rparr>"

definition put_capability_result :: "int \<Rightarrow> answer \<Rightarrow> store \<Rightarrow> store" where
  "put_capability_result now r st = (let st' = purge_capability_results now st
     in st'\<lparr>capability_results := dict_set (an_request_id r) r (capability_results st')\<rparr>)"

definition get_capability_result :: "int \<Rightarrow> string \<Rightarrow> store \<Rightarrow> answer option \<times> store" where
  "get_capability_result now rid st = (let st' = purge_capability_results now st
     in (dict_get (capability_results st') rid, st'))"

definition take_capability_result :: "int \<Rightarrow> string \<Rightarrow> store \<Rightarrow> answer option \<times> store" where
  "take_capability_result now rid st = (let st' = purge_capability_results now st
     in (dict_get (capability_results st') rid, st'\<lparr>capability_results := dict_pop rid (capability_results st')\<rparr>))"

section \<open>The revocation list\<close>

definition purge_revocations :: "int \<Rightarrow> store \<Rightarrow> store" where
  "purge_revocations now st = st\<lparr>revocations := filter (\<lambda>(k, r). \<not> revocation_aged now r) (revocations st)\<rparr>"

definition add_revocation :: "int \<Rightarrow> revocation_entry \<Rightarrow> store \<Rightarrow> store" where
  "add_revocation now r st = (let st' = purge_revocations now st
     in if dict_get (revocations st') (rev_jti r) \<noteq> None then st'
        else st'\<lparr>revocations := dict_set (rev_jti r) r (revocations st')\<rparr>)"

definition is_revoked :: "int \<Rightarrow> string \<Rightarrow> store \<Rightarrow> bool \<times> store" where
  "is_revoked now jti st = (let st' = purge_revocations now st in (dict_get (revocations st') jti \<noteq> None, st'))"

definition list_revocations :: "int \<Rightarrow> store \<Rightarrow> revocation_entry list \<times> store" where
  "list_revocations now st = (let st' = purge_revocations now st
     in (sort_key rev_jti (dict_values (revocations st')), st'))"

definition consume_single_use_capability :: "int \<Rightarrow> revocation_entry \<Rightarrow> store \<Rightarrow> bool \<times> store" where
  "consume_single_use_capability now r st =
     (let (revoked, st') = is_revoked now (rev_jti r) st
      in if revoked then (False, st') else (True, add_revocation now r st'))"

section \<open>One-time codes and challenges\<close>

definition unexpired :: "int \<Rightarrow> (string, int) dict \<Rightarrow> (string, int) dict" where
  "unexpired now = filter (\<lambda>(c, e). e > now)"

definition purge_challenges :: "int \<Rightarrow> store \<Rightarrow> store" where
  "purge_challenges now st =
     (let codes = unexpired now (member_pairing_codes st); chals = unexpired now (member_challenges st)
      in st\<lparr>challenges := unexpired now (challenges st),
            pairing_codes := unexpired now (pairing_codes st),
            member_pairing_codes := codes,
            member_challenges := chals,
            member_bindings_by_value := filter (\<lambda>(v, b). dict_get codes v \<noteq> None \<or> dict_get chals v \<noteq> None)
              (member_bindings_by_value st),
            owner_challenges := unexpired now (owner_challenges st)\<rparr>)"

text \<open>\<open>f"{n:06d}"\<close> for a draw below a million.\<close>

definition digit :: "nat \<Rightarrow> char" where "digit n = char_of (48 + n mod 10 :: nat)"

definition code_text :: "nat \<Rightarrow> string" where
  "code_text n = [digit (n div 100000), digit (n div 10000), digit (n div 1000), digit (n div 100), digit (n div 10), digit n]"

text \<open>The code drawn, of at most 64 draws; \<open>None\<close> is the \<open>RuntimeError\<close>.\<close>

definition unique_code :: "nat list \<Rightarrow> store \<Rightarrow> string option" where
  "unique_code draws st =
     find (\<lambda>c. dict_get (pairing_codes st) c = None \<and> dict_get (member_pairing_codes st) c = None)
       (map code_text (take 64 draws))"

definition issue_pairing_code :: "int \<Rightarrow> int \<Rightarrow> nat list \<Rightarrow> store \<Rightarrow> (string \<times> int) option \<times> store" where
  "issue_pairing_code now ttl draws st =
     (let st' = purge_challenges now st
      in case unique_code draws st' of None \<Rightarrow> (None, st')
         | Some c \<Rightarrow> (Some (c, now + ttl), st'\<lparr>pairing_codes := dict_set c (now + ttl) (pairing_codes st')\<rparr>))"

definition consume_pairing_code :: "int \<Rightarrow> string \<Rightarrow> store \<Rightarrow> bool \<times> store" where
  "consume_pairing_code now given st =
     (let st' = purge_challenges now st; e = dict_get (pairing_codes st') given
      in (e \<noteq> None \<and> now < the e, st'\<lparr>pairing_codes := dict_pop given (pairing_codes st')\<rparr>))"

definition issue_member_pairing_code ::
  "int \<Rightarrow> int \<Rightarrow> (string \<times> string) option \<Rightarrow> nat list \<Rightarrow> store \<Rightarrow> (string \<times> int) option \<times> store" where
  "issue_member_pairing_code now ttl binding draws st =
     (let st' = purge_challenges now st
      in case unique_code draws st' of None \<Rightarrow> (None, st')
         | Some c \<Rightarrow> (Some (c, now + ttl), st'\<lparr>member_pairing_codes := dict_set c (now + ttl) (member_pairing_codes st'),
             member_bindings_by_value := dict_set c binding (member_bindings_by_value st')\<rparr>))"

definition the_binding :: "string \<Rightarrow> store \<Rightarrow> (string \<times> string) option" where
  "the_binding v st = (case dict_get (member_bindings_by_value st) v of None \<Rightarrow> None | Some b \<Rightarrow> b)"

definition consume_member_pairing_code :: "int \<Rightarrow> string \<Rightarrow> store \<Rightarrow> (string \<times> string) option \<times> store" where
  "consume_member_pairing_code now given st =
     (let st' = purge_challenges now st; e = dict_get (member_pairing_codes st') given
      in (if e \<noteq> None \<and> now < the e then the_binding given st' else None,
          st'\<lparr>member_pairing_codes := dict_pop given (member_pairing_codes st'),
              member_bindings_by_value := dict_pop given (member_bindings_by_value st')\<rparr>))"

text \<open>A challenge is the base64url text of 32 drawn bytes.\<close>

definition issue_challenge :: "int \<Rightarrow> int \<Rightarrow> bytes \<Rightarrow> store \<Rightarrow> (string \<times> int) \<times> store" where
  "issue_challenge now ttl token st =
     (let st' = purge_challenges now st; c = b64_encode token
      in ((c, now + ttl), st'\<lparr>challenges := dict_set c (now + ttl) (challenges st')\<rparr>))"

definition consume_challenge :: "int \<Rightarrow> string \<Rightarrow> store \<Rightarrow> bool \<times> store" where
  "consume_challenge now c st =
     (let st' = purge_challenges now st; e = dict_get (challenges st') c
      in (e \<noteq> None \<and> now < the e, st'\<lparr>challenges := dict_pop c (challenges st')\<rparr>))"

definition issue_member_challenge ::
  "int \<Rightarrow> int \<Rightarrow> (string \<times> string) option \<Rightarrow> bytes \<Rightarrow> store \<Rightarrow> (string \<times> int) \<times> store" where
  "issue_member_challenge now ttl binding token st =
     (let st' = purge_challenges now st; c = b64_encode token
      in ((c, now + ttl), st'\<lparr>member_challenges := dict_set c (now + ttl) (member_challenges st'),
            member_bindings_by_value := dict_set c binding (member_bindings_by_value st')\<rparr>))"

definition is_member_challenge :: "int \<Rightarrow> string \<Rightarrow> store \<Rightarrow> bool" where
  "is_member_challenge now c st = (case dict_get (member_challenges st) c of None \<Rightarrow> False | Some e \<Rightarrow> now < e)"

definition consume_member_challenge :: "int \<Rightarrow> string \<Rightarrow> store \<Rightarrow> (string \<times> string) option \<times> store" where
  "consume_member_challenge now c st =
     (let st' = purge_challenges now st; e = dict_get (member_challenges st') c
      in (if e \<noteq> None \<and> now < the e then the_binding c st' else None,
          st'\<lparr>member_challenges := dict_pop c (member_challenges st'),
              member_bindings_by_value := dict_pop c (member_bindings_by_value st')\<rparr>))"

definition issue_owner_challenge :: "int \<Rightarrow> int \<Rightarrow> bytes \<Rightarrow> store \<Rightarrow> (string \<times> int) \<times> store" where
  "issue_owner_challenge now ttl token st =
     (let st' = purge_challenges now st; c = b64_encode token
      in ((c, now + ttl), st'\<lparr>owner_challenges := dict_set c (now + ttl) (owner_challenges st')\<rparr>))"

definition is_owner_challenge :: "int \<Rightarrow> string \<Rightarrow> store \<Rightarrow> bool" where
  "is_owner_challenge now c st = (case dict_get (owner_challenges st) c of None \<Rightarrow> False | Some e \<Rightarrow> now < e)"

definition consume_owner_challenge :: "int \<Rightarrow> string \<Rightarrow> store \<Rightarrow> bool \<times> store" where
  "consume_owner_challenge now c st =
     (let st' = purge_challenges now st; e = dict_get (owner_challenges st') c
      in (e \<noteq> None \<and> now < the e, st'\<lparr>owner_challenges := dict_pop c (owner_challenges st')\<rparr>))"

section \<open>The owner slots\<close>

definition get_owner_genesis :: "store \<Rightarrow> string option" where
  "get_owner_genesis st = owner_genesis st"

text \<open>\<open>None\<close> is the \<open>ValueError\<close>.\<close>

definition set_owner_genesis :: "string \<Rightarrow> store \<Rightarrow> store option" where
  "set_owner_genesis s st = (if s \<notin> set [''open'', ''closed''] then None else Some (st\<lparr>owner_genesis := Some s\<rparr>))"

definition put_owner_enroll :: "owner_enroll \<Rightarrow> store \<Rightarrow> store" where
  "put_owner_enroll r st = st\<lparr>owner_enrolls := dict_set (oe_request_id r) r (owner_enrolls st)\<rparr>"

definition purge_owner_enrolls :: "int \<Rightarrow> store \<Rightarrow> store" where
  "purge_owner_enrolls now st = st\<lparr>owner_enrolls := filter (\<lambda>(k, r). oe_expires_at r > now) (owner_enrolls st)\<rparr>"

definition get_owner_enroll :: "int \<Rightarrow> string \<Rightarrow> store \<Rightarrow> owner_enroll option \<times> store" where
  "get_owner_enroll now rid st = (let st' = purge_owner_enrolls now st in (dict_get (owner_enrolls st') rid, st'))"

definition list_owner_enrolls :: "int \<Rightarrow> store \<Rightarrow> owner_enroll list \<times> store" where
  "list_owner_enrolls now st = (let st' = purge_owner_enrolls now st in (dict_values (owner_enrolls st'), st'))"

definition delete_owner_enroll :: "int \<Rightarrow> string \<Rightarrow> store \<Rightarrow> owner_enroll option \<times> store" where
  "delete_owner_enroll now rid st = (let st' = purge_owner_enrolls now st
     in (dict_get (owner_enrolls st') rid, st'\<lparr>owner_enrolls := dict_pop rid (owner_enrolls st')\<rparr>))"

text \<open>\<open>void_owner_enrolls_for\<close> (\<^verbatim>\<open>owner_slots.py\<close>): the refusal of every entry that names the phone.\<close>

definition names_phone :: "string \<Rightarrow> owner_enroll \<Rightarrow> bool" where
  "names_phone pid r \<longleftrightarrow> oe_state r \<noteq> ''refused'' \<and> (oe_approved_by r = Some pid \<or> oe_occupant_ref r = Some pid)"

definition void_one :: "owner_enroll \<Rightarrow> store \<Rightarrow> store" where
  "void_one r st = fold (\<lambda>c s. snd (take_pending c s)) (dict_keys (oe_cards r)) (put_owner_enroll (r\<lparr>oe_state := ''refused''\<rparr>) st)"

definition void_owner_enrolls_for :: "int \<Rightarrow> string \<Rightarrow> store \<Rightarrow> store" where
  "void_owner_enrolls_for now pid st =
     (let (rs, st') = list_owner_enrolls now st in fold void_one (filter (names_phone pid) rs) st')"

text \<open>A restart: what \<open>_load\<close> reads back.\<close>

definition restarted :: "int \<Rightarrow> store \<Rightarrow> store" where
  "restarted now st = empty_store\<lparr>phones := phones st, sessions := sessions st, owner_genesis := owner_genesis st,
     revocations := filter (\<lambda>(k, r). \<not> revocation_aged now r) (revocations st)\<rparr>"

section \<open>Codes and challenges redeem once\<close>

datatype code_kind = PlainChallenge | OwnerCode | MemberCode | MemberChallenge | OwnerChallenge

fun held :: "code_kind \<Rightarrow> store \<Rightarrow> (string, int) dict" where
  "held PlainChallenge st = challenges st"
| "held OwnerCode st = pairing_codes st"
| "held MemberCode st = member_pairing_codes st"
| "held MemberChallenge st = member_challenges st"
| "held OwnerChallenge st = owner_challenges st"

definition is_member_kind :: "code_kind \<Rightarrow> bool" where
  "is_member_kind k \<longleftrightarrow> k = MemberCode \<or> k = MemberChallenge"

text \<open>The calls on codes and challenges, and a restart of the process.\<close>

datatype code_call =
    IssueChallenge int bytes | ConsumeChallenge string
  | IssueCode int "nat list" | ConsumeCode string
  | IssueMemberCode int "(string \<times> string) option" "nat list" | ConsumeMemberCode string
  | IssueMemberChallenge int "(string \<times> string) option" bytes | ConsumeMemberChallenge string
  | IssueOwnerChallenge int bytes | ConsumeOwnerChallenge string
  | Restart

fun code_call_result :: "int \<Rightarrow> code_call \<Rightarrow> store \<Rightarrow> store" where
  "code_call_result now (IssueChallenge ttl tok) st = snd (issue_challenge now ttl tok st)"
| "code_call_result now (ConsumeChallenge c) st = snd (consume_challenge now c st)"
| "code_call_result now (IssueCode ttl draws) st = snd (issue_pairing_code now ttl draws st)"
| "code_call_result now (ConsumeCode c) st = snd (consume_pairing_code now c st)"
| "code_call_result now (IssueMemberCode ttl b draws) st = snd (issue_member_pairing_code now ttl b draws st)"
| "code_call_result now (ConsumeMemberCode c) st = snd (consume_member_pairing_code now c st)"
| "code_call_result now (IssueMemberChallenge ttl b tok) st = snd (issue_member_challenge now ttl b tok st)"
| "code_call_result now (ConsumeMemberChallenge c) st = snd (consume_member_challenge now c st)"
| "code_call_result now (IssueOwnerChallenge ttl tok) st = snd (issue_owner_challenge now ttl tok st)"
| "code_call_result now (ConsumeOwnerChallenge c) st = snd (consume_owner_challenge now c st)"
| "code_call_result now Restart st = restarted now st"

text \<open>What a history says of a value: issued until a time for a binding, or spent.\<close>

type_synonym code_event = "(code_kind \<times> string) \<times> (int \<times> (string \<times> string) option) option"

definition issued :: "code_kind \<Rightarrow> (string \<times> string) option \<Rightarrow> (string \<times> int) option \<Rightarrow> code_event list" where
  "issued k b r = (case r of None \<Rightarrow> [] | Some (c, e) \<Rightarrow> [((k, c), Some (e, b))])"

fun code_events :: "int \<Rightarrow> code_call \<Rightarrow> store \<Rightarrow> code_event list" where
  "code_events now (IssueChallenge ttl tok) st = issued PlainChallenge None (Some (fst (issue_challenge now ttl tok st)))"
| "code_events now (ConsumeChallenge c) st = [((PlainChallenge, c), None)]"
| "code_events now (IssueCode ttl draws) st = issued OwnerCode None (fst (issue_pairing_code now ttl draws st))"
| "code_events now (ConsumeCode c) st = [((OwnerCode, c), None)]"
| "code_events now (IssueMemberCode ttl b draws) st = issued MemberCode b (fst (issue_member_pairing_code now ttl b draws st))"
| "code_events now (ConsumeMemberCode c) st = [((MemberCode, c), None)]"
| "code_events now (IssueMemberChallenge ttl b tok) st = issued MemberChallenge b (Some (fst (issue_member_challenge now ttl b tok st)))"
| "code_events now (ConsumeMemberChallenge c) st = [((MemberChallenge, c), None)]"
| "code_events now (IssueOwnerChallenge ttl tok) st = issued OwnerChallenge None (Some (fst (issue_owner_challenge now ttl tok st)))"
| "code_events now (ConsumeOwnerChallenge c) st = [((OwnerChallenge, c), None)]"
| "code_events now Restart st = []"

text \<open>A challenge is drawn from 32 random bytes, so its text has 43 characters, and a code has six. The two
  calls that spend a member's value are not given the other kind's: \<open>challenge_spent_as_code\<close> shows
  what happens then.\<close>

fun token_ok :: "code_call \<Rightarrow> bool" where
  "token_ok (IssueMemberChallenge ttl b tok) \<longleftrightarrow> length tok = 32"
| "token_ok (ConsumeMemberCode c) \<longleftrightarrow> length c \<noteq> 43"
| "token_ok (ConsumeMemberChallenge c) \<longleftrightarrow> length c \<noteq> 6"
| "token_ok _ \<longleftrightarrow> True"

text \<open>A run of the store: the clock does not go back. A restart forgets what was issued.\<close>

inductive code_run :: "int \<Rightarrow> code_event list \<Rightarrow> store \<Rightarrow> bool" where
  code_start: "code_run now [] empty_store"
| code_step: "code_run now hist st \<Longrightarrow> now \<le> now' \<Longrightarrow> token_ok c \<Longrightarrow>
    code_run now' (if c = Restart then [] else code_events now' c st @ hist) (code_call_result now' c st)"

text \<open>The last word of a history on a value.\<close>

definition outstanding :: "code_event list \<Rightarrow> code_kind \<Rightarrow> string \<Rightarrow> (int \<times> (string \<times> string) option) option" where
  "outstanding hist k c = (case dict_get hist (k, c) of None \<Rightarrow> None | Some x \<Rightarrow> x)"

text \<open>Storing and dropping one value, over all kinds.\<close>

fun put_code :: "code_kind \<Rightarrow> string \<Rightarrow> int \<Rightarrow> (string \<times> string) option \<Rightarrow> store \<Rightarrow> store" where
  "put_code PlainChallenge c e b st = st\<lparr>challenges := dict_set c e (challenges st)\<rparr>"
| "put_code OwnerCode c e b st = st\<lparr>pairing_codes := dict_set c e (pairing_codes st)\<rparr>"
| "put_code MemberCode c e b st = st\<lparr>member_pairing_codes := dict_set c e (member_pairing_codes st),
     member_bindings_by_value := dict_set c b (member_bindings_by_value st)\<rparr>"
| "put_code MemberChallenge c e b st = st\<lparr>member_challenges := dict_set c e (member_challenges st),
     member_bindings_by_value := dict_set c b (member_bindings_by_value st)\<rparr>"
| "put_code OwnerChallenge c e b st = st\<lparr>owner_challenges := dict_set c e (owner_challenges st)\<rparr>"

fun drop_code :: "code_kind \<Rightarrow> string \<Rightarrow> store \<Rightarrow> store" where
  "drop_code PlainChallenge c st = st\<lparr>challenges := dict_pop c (challenges st)\<rparr>"
| "drop_code OwnerCode c st = st\<lparr>pairing_codes := dict_pop c (pairing_codes st)\<rparr>"
| "drop_code MemberCode c st = st\<lparr>member_pairing_codes := dict_pop c (member_pairing_codes st),
     member_bindings_by_value := dict_pop c (member_bindings_by_value st)\<rparr>"
| "drop_code MemberChallenge c st = st\<lparr>member_challenges := dict_pop c (member_challenges st),
     member_bindings_by_value := dict_pop c (member_bindings_by_value st)\<rparr>"
| "drop_code OwnerChallenge c st = st\<lparr>owner_challenges := dict_pop c (owner_challenges st)\<rparr>"

lemma held_put: "held j (put_code k c e b st) = (if j = k then dict_set c e (held k st) else held j st)"
  by (cases k; cases j) simp_all

lemma held_drop: "held j (drop_code k c st) = (if j = k then dict_pop c (held k st) else held j st)"
  by (cases k; cases j) simp_all

lemma bindings_put: "member_bindings_by_value (put_code k c e b st) =
    (if is_member_kind k then dict_set c b (member_bindings_by_value st) else member_bindings_by_value st)"
  by (cases k) (simp_all add: is_member_kind_def)

lemma bindings_drop: "member_bindings_by_value (drop_code k c st) =
    (if is_member_kind k then dict_pop c (member_bindings_by_value st) else member_bindings_by_value st)"
  by (cases k) (simp_all add: is_member_kind_def)

lemma held_purge: "held k (purge_challenges now st) = unexpired now (held k st)"
  by (cases k) (simp_all add: purge_challenges_def Let_def)

lemma unexpired_get: "dict_wf d \<Longrightarrow> dict_get (unexpired now d) c = Some e \<longleftrightarrow> dict_get d c = Some e \<and> now < e"
  by (auto simp: unexpired_def dict_get_filter split: option.splits)

text \<open>Each kind of value has its own length, so a code is never a challenge.\<close>

definition value_length :: "code_kind \<Rightarrow> string \<Rightarrow> bool" where
  "value_length k c \<longleftrightarrow> (k = MemberCode \<longrightarrow> length c = 6) \<and> (k = MemberChallenge \<longrightarrow> length c = 43)"

definition code_inv :: "int \<Rightarrow> code_event list \<Rightarrow> store \<Rightarrow> bool" where
  "code_inv now hist st \<longleftrightarrow> (\<forall>k. dict_wf (held k st)) \<and> dict_wf (member_bindings_by_value st)
    \<and> (\<forall>k c e. dict_get (held k st) c = Some e \<and> now < e \<longrightarrow> value_length k c
         \<and> (\<exists>b. outstanding hist k c = Some (e, b) \<and> (is_member_kind k \<longrightarrow> dict_get (member_bindings_by_value st) c = Some b)))
    \<and> (\<forall>k c e b. outstanding hist k c = Some (e, b) \<and> now < e \<longrightarrow> dict_get (held k st) c = Some e)
    \<and> (\<forall>c e e'. dict_get (pairing_codes st) c = Some e \<and> now < e \<longrightarrow> dict_get (member_pairing_codes st) c = Some e' \<longrightarrow> e' \<le> now)"

lemma code_invI:
  assumes "\<And>k. dict_wf (held k st)" "dict_wf (member_bindings_by_value st)"
    "\<And>k c e. dict_get (held k st) c = Some e \<Longrightarrow> now < e \<Longrightarrow> value_length k c
         \<and> (\<exists>b. outstanding hist k c = Some (e, b) \<and> (is_member_kind k \<longrightarrow> dict_get (member_bindings_by_value st) c = Some b))"
    "\<And>k c e b. outstanding hist k c = Some (e, b) \<Longrightarrow> now < e \<Longrightarrow> dict_get (held k st) c = Some e"
    "\<And>c e e'. dict_get (pairing_codes st) c = Some e \<Longrightarrow> now < e \<Longrightarrow> dict_get (member_pairing_codes st) c = Some e' \<Longrightarrow> e' \<le> now"
  shows "code_inv now hist st"
  unfolding code_inv_def using assms by blast

lemma code_invD:
  assumes "code_inv now hist st"
  shows "dict_wf (held k st)" "dict_wf (member_bindings_by_value st)"
    "dict_get (held k st) c = Some e \<Longrightarrow> now < e \<Longrightarrow> value_length k c
         \<and> (\<exists>b. outstanding hist k c = Some (e, b) \<and> (is_member_kind k \<longrightarrow> dict_get (member_bindings_by_value st) c = Some b))"
    "outstanding hist k c = Some (e, b) \<Longrightarrow> now < e \<Longrightarrow> dict_get (held k st) c = Some e"
    "dict_get (pairing_codes st) c = Some e \<Longrightarrow> now < e \<Longrightarrow> dict_get (member_pairing_codes st) c = Some e' \<Longrightarrow> e' \<le> now"
  using assms unfolding code_inv_def by blast+

lemma bindings_purge:
  assumes "dict_wf (member_bindings_by_value st)" "is_member_kind k" "dict_get (unexpired now (held k st)) c \<noteq> None"
  shows "dict_get (member_bindings_by_value (purge_challenges now st)) c = dict_get (member_bindings_by_value st) c"
  using assms
  by (auto simp: purge_challenges_def Let_def dict_get_filter is_member_kind_def split: option.split)

lemma purge_code_inv:
  assumes inv: "code_inv now hist st" and le: "now \<le> now'"
  shows "code_inv now' hist (purge_challenges now' st)"
proof (rule code_invI)
  note D = code_invD[OF inv]
  show "dict_wf (held k (purge_challenges now' st))" for k using D(1) by (simp add: held_purge unexpired_def)
  show "dict_wf (member_bindings_by_value (purge_challenges now' st))" using D(2) by (simp add: purge_challenges_def Let_def)
  show "value_length k c \<and> (\<exists>b. outstanding hist k c = Some (e, b)
      \<and> (is_member_kind k \<longrightarrow> dict_get (member_bindings_by_value (purge_challenges now' st)) c = Some b))"
    if "dict_get (held k (purge_challenges now' st)) c = Some e" "now' < e" for k c e
  proof -
    have h: "dict_get (held k st) c = Some e" using that unexpired_get[OF D(1)] by (simp add: held_purge)
    have "dict_get (unexpired now' (held k st)) c \<noteq> None" using that(1) by (simp add: held_purge)
    then show ?thesis using D(3)[OF h] that(2) le bindings_purge[OF D(2)] by auto
  qed
  show "dict_get (held k (purge_challenges now' st)) c = Some e"
    if "outstanding hist k c = Some (e, b)" "now' < e" for k c e b
    using D(4)[OF that(1)] that(2) le unexpired_get[OF D(1)] by (simp add: held_purge)
  show "e' \<le> now'" if "dict_get (pairing_codes (purge_challenges now' st)) c = Some e" "now' < e"
    "dict_get (member_pairing_codes (purge_challenges now' st)) c = Some e'" for c e e'
  proof -
    have "dict_get (held OwnerCode st) c = Some e" "dict_get (held MemberCode st) c = Some e'"
      using that unexpired_get[OF D(1)[of OwnerCode]] unexpired_get[OF D(1)[of MemberCode]]
      by (simp_all add: purge_challenges_def Let_def)
    then show ?thesis using D(5)[of c e e'] that(2) le by simp
  qed
qed

lemma outstanding_Cons: "outstanding (((k, c), x) # hist) j d = (if (j, d) = (k, c) then x else outstanding hist j d)"
  by (simp add: outstanding_def)

lemma put_code_inv:
  assumes inv: "code_inv now hist st" and len: "value_length k c"
    and own: "k = OwnerCode \<Longrightarrow> dict_get (member_pairing_codes st) c = None"
    and mem: "k = MemberCode \<Longrightarrow> dict_get (pairing_codes st) c = None"
  shows "code_inv now (((k, c), Some (e, b)) # hist) (put_code k c e b st)"
proof (rule code_invI)
  note D = code_invD[OF inv]
  show "dict_wf (held j (put_code k c e b st))" for j using D(1) by (simp add: held_put)
  show "dict_wf (member_bindings_by_value (put_code k c e b st))" using D(2) by (simp add: bindings_put)
  show "value_length j d \<and> (\<exists>b'. outstanding (((k, c), Some (e, b)) # hist) j d = Some (e', b')
      \<and> (is_member_kind j \<longrightarrow> dict_get (member_bindings_by_value (put_code k c e b st)) d = Some b'))"
    if "dict_get (held j (put_code k c e b st)) d = Some e'" "now < e'" for j d e'
  proof (cases "(j, d) = (k, c)")
    case True
    then show ?thesis using that len
      by (auto simp: held_put outstanding_Cons dict_get_set bindings_put split: if_splits)
  next
    case False
    then have old: "dict_get (held j st) d = Some e'" using that(1) by (auto simp: held_put dict_get_set split: if_splits)
    have "d \<noteq> c" if "is_member_kind j" "is_member_kind k"
      using False that len D(3)[OF old] \<open>now < e'\<close> by (auto simp: is_member_kind_def value_length_def)
    then show ?thesis using D(3)[OF old \<open>now < e'\<close>] False
      by (auto simp: outstanding_Cons bindings_put dict_get_set)
  qed
  show "dict_get (held j (put_code k c e b st)) d = Some e'"
    if "outstanding (((k, c), Some (e, b)) # hist) j d = Some (e', b')" "now < e'" for j d e' b'
    using D(4)[of j d e' b'] that by (auto simp: outstanding_Cons held_put dict_get_set split: if_splits)
  show "e2 \<le> now" if "dict_get (pairing_codes (put_code k c e b st)) d = Some e1" "now < e1"
    "dict_get (member_pairing_codes (put_code k c e b st)) d = Some e2" for d e1 e2
    using D(5)[of d e1 e2] that own mem by (cases k) (auto simp: dict_get_set split: if_splits)
qed

lemma drop_code_inv:
  assumes inv: "code_inv now hist st" and len: "k = MemberCode \<Longrightarrow> length c \<noteq> 43" "k = MemberChallenge \<Longrightarrow> length c \<noteq> 6"
  shows "code_inv now (((k, c), None) # hist) (drop_code k c st)"
proof (rule code_invI)
  note D = code_invD[OF inv]
  show "dict_wf (held j (drop_code k c st))" for j using D(1) by (simp add: held_drop)
  show "dict_wf (member_bindings_by_value (drop_code k c st))" using D(2) by (simp add: bindings_drop)
  show "value_length j d \<and> (\<exists>b'. outstanding (((k, c), None) # hist) j d = Some (e', b')
      \<and> (is_member_kind j \<longrightarrow> dict_get (member_bindings_by_value (drop_code k c st)) d = Some b'))"
    if "dict_get (held j (drop_code k c st)) d = Some e'" "now < e'" for j d e'
  proof -
    have old: "dict_get (held j st) d = Some e'" "(j, d) \<noteq> (k, c)"
      using that(1) by (auto simp: held_drop dict_get_pop split: if_splits)
    have "d \<noteq> c" if "is_member_kind j" "is_member_kind k"
      using D(3)[OF old(1) \<open>now < e'\<close>] old(2) len that by (auto simp: is_member_kind_def value_length_def)
    then show ?thesis using D(3)[OF old(1) \<open>now < e'\<close>] old(2)
      by (auto simp: outstanding_Cons bindings_drop dict_get_pop)
  qed
  show "dict_get (held j (drop_code k c st)) d = Some e'"
    if "outstanding (((k, c), None) # hist) j d = Some (e', b')" "now < e'" for j d e' b'
    using D(4)[of j d e' b'] that by (auto simp: outstanding_Cons held_drop dict_get_pop split: if_splits)
  show "e2 \<le> now" if "dict_get (pairing_codes (drop_code k c st)) d = Some e1" "now < e1"
    "dict_get (member_pairing_codes (drop_code k c st)) d = Some e2" for d e1 e2
    using D(5)[of d e1 e2] that by (cases k) (auto simp: dict_get_pop split: if_splits)
qed

text \<open>Each call is a purge followed by at most one such change.\<close>

declare put_code.simps [simp del] drop_code.simps [simp del]

lemma consume_drop:
  "snd (consume_challenge now c st) = drop_code PlainChallenge c (purge_challenges now st)"
  "snd (consume_pairing_code now c st) = drop_code OwnerCode c (purge_challenges now st)"
  "snd (consume_member_pairing_code now c st) = drop_code MemberCode c (purge_challenges now st)"
  "snd (consume_member_challenge now c st) = drop_code MemberChallenge c (purge_challenges now st)"
  "snd (consume_owner_challenge now c st) = drop_code OwnerChallenge c (purge_challenges now st)"
  by (simp_all add: consume_challenge_def consume_pairing_code_def consume_member_pairing_code_def
      consume_member_challenge_def consume_owner_challenge_def Let_def drop_code.simps)

lemma issue_put:
  "issue_challenge now ttl tok st =
     ((b64_encode tok, now + ttl), put_code PlainChallenge (b64_encode tok) (now + ttl) None (purge_challenges now st))"
  "issue_member_challenge now ttl b tok st =
     ((b64_encode tok, now + ttl), put_code MemberChallenge (b64_encode tok) (now + ttl) b (purge_challenges now st))"
  "issue_owner_challenge now ttl tok st =
     ((b64_encode tok, now + ttl), put_code OwnerChallenge (b64_encode tok) (now + ttl) None (purge_challenges now st))"
  by (simp_all add: issue_challenge_def issue_member_challenge_def issue_owner_challenge_def Let_def put_code.simps)

lemma unique_code_new:
  assumes "unique_code draws st = Some c"
  shows "dict_get (pairing_codes st) c = None" "dict_get (member_pairing_codes st) c = None" "length c = 6"
proof -
  have c: "c \<in> set (map code_text (take 64 draws)) \<and> dict_get (pairing_codes st) c = None \<and> dict_get (member_pairing_codes st) c = None"
  proof -
    obtain i where "i < length (map code_text (take 64 draws))" "c = map code_text (take 64 draws) ! i"
      "dict_get (pairing_codes st) c = None \<and> dict_get (member_pairing_codes st) c = None"
      using assms unfolding unique_code_def find_Some_iff by auto
    then show ?thesis using nth_mem by blast
  qed
  then show "dict_get (pairing_codes st) c = None" "dict_get (member_pairing_codes st) c = None" by simp_all
  show "length c = 6" using c by (auto simp: code_text_def)
qed

lemma issue_code_cases:
  "issue_pairing_code now ttl draws st = (None, purge_challenges now st) \<or>
     (\<exists>c. unique_code draws (purge_challenges now st) = Some c \<and> issue_pairing_code now ttl draws st =
        (Some (c, now + ttl), put_code OwnerCode c (now + ttl) None (purge_challenges now st)))"
  "issue_member_pairing_code now ttl b draws st = (None, purge_challenges now st) \<or>
     (\<exists>c. unique_code draws (purge_challenges now st) = Some c \<and> issue_member_pairing_code now ttl b draws st =
        (Some (c, now + ttl), put_code MemberCode c (now + ttl) b (purge_challenges now st)))"
  by (auto simp: issue_pairing_code_def issue_member_pairing_code_def Let_def put_code.simps split: option.split)

lemma code_call_inv:
  assumes inv: "code_inv now hist st" and le: "now \<le> now'" and ok: "token_ok c"
  shows "code_inv now' (if c = Restart then [] else code_events now' c st @ hist) (code_call_result now' c st)"
proof -
  note P = purge_code_inv[OF inv le]
  note drop = drop_code_inv[OF P] and put = put_code_inv[OF P]
  show ?thesis
  proof (cases c)
    case (IssueMemberChallenge ttl b tok)
    then have "length (b64_encode tok) = 43" using ok by (simp add: length_b64_encode)
    then show ?thesis using IssueMemberChallenge
      by (simp add: issue_put issued_def) (rule put; simp add: value_length_def)
  next
    case (IssueCode ttl draws)
    show ?thesis
    proof (rule disjE[OF issue_code_cases(1)[of now' ttl draws st]])
      assume "\<exists>c. unique_code draws (purge_challenges now' st) = Some c \<and> issue_pairing_code now' ttl draws st =
        (Some (c, now' + ttl), put_code OwnerCode c (now' + ttl) None (purge_challenges now' st))"
      then obtain d where d: "unique_code draws (purge_challenges now' st) = Some d" "issue_pairing_code now' ttl draws st =
        (Some (d, now' + ttl), put_code OwnerCode d (now' + ttl) None (purge_challenges now' st))" by blast
      note u = unique_code_new[OF d(1)]
      show ?thesis using IssueCode d(2) put[of OwnerCode d "now' + ttl" None] u
        by (simp add: issued_def value_length_def)
    qed (use IssueCode P in \<open>simp add: issued_def\<close>)
  next
    case (IssueMemberCode ttl b draws)
    show ?thesis
    proof (rule disjE[OF issue_code_cases(2)[of now' ttl b draws st]])
      assume "\<exists>c. unique_code draws (purge_challenges now' st) = Some c \<and> issue_member_pairing_code now' ttl b draws st =
        (Some (c, now' + ttl), put_code MemberCode c (now' + ttl) b (purge_challenges now' st))"
      then obtain d where d: "unique_code draws (purge_challenges now' st) = Some d" "issue_member_pairing_code now' ttl b draws st =
        (Some (d, now' + ttl), put_code MemberCode d (now' + ttl) b (purge_challenges now' st))" by blast
      note u = unique_code_new[OF d(1)]
      show ?thesis using IssueMemberCode d(2) put[of MemberCode d "now' + ttl" b] u
        by (simp add: issued_def value_length_def)
    qed (use IssueMemberCode P in \<open>simp add: issued_def\<close>)
  next
    case Restart
    then show ?thesis
      by (auto simp: restarted_def empty_store_def code_inv_def outstanding_def split: code_kind.split)
        (case_tac k; simp)+
  qed (use ok in \<open>auto simp: consume_drop issue_put issued_def value_length_def is_member_kind_def intro: drop put\<close>)
qed

lemma code_run_inv: "code_run now hist st \<Longrightarrow> code_inv now hist st"
proof (induction rule: code_run.induct)
  case (code_start now)
  have "held k empty_store = []" for k by (cases k) (simp_all add: empty_store_def)
  then show ?case by (simp add: code_inv_def outstanding_def empty_store_def)
qed (rule code_call_inv)

lemma held_later:
  assumes "code_run now hist st" "now \<le> t"
  shows "dict_get (held k (purge_challenges t st)) c = Some e \<longleftrightarrow> (\<exists>b. outstanding hist k c = Some (e, b) \<and> t < e)"
proof -
  note D = code_invD[OF purge_code_inv[OF code_run_inv[OF assms(1)] assms(2)]]
  have "t < e" if "dict_get (held k (purge_challenges t st)) c = Some e"
    using that unexpired_get[OF code_invD(1)[OF code_run_inv[OF assms(1)]]] by (simp add: held_purge)
  then show ?thesis using D(3)[of k c e] D(4)[of k c e] by blast
qed

lemma binding_later:
  assumes "code_run now hist st" "now \<le> t" "outstanding hist k c = Some (e, b)" "t < e" "is_member_kind k"
  shows "the_binding c (purge_challenges t st) = b"
proof -
  have "dict_get (held k (purge_challenges t st)) c = Some e" using held_later[OF assms(1,2)] assms(3,4) by blast
  then show ?thesis
    using code_invD(3)[OF purge_code_inv[OF code_run_inv[OF assms(1)] assms(2)], of k c e] assms(3-5)
    by (auto simp: the_binding_def)
qed


text \<open>A member's challenge handed to the route of member codes is refused, and its binding is gone: the
  challenge is still held, but the registration that spends it gets nothing.\<close>

lemma challenge_spent_as_code:
  assumes "dict_get (member_challenges st) c = Some e" "t < e" "dict_get (member_pairing_codes st) c = None"
    "dict_wf (member_challenges st)" "dict_wf (member_pairing_codes st)" "dict_wf (member_bindings_by_value st)"
  shows "fst (consume_member_pairing_code t c st) = None"
    "is_member_challenge t c (snd (consume_member_pairing_code t c st))"
    "fst (consume_member_challenge t c (snd (consume_member_pairing_code t c st))) = None"
proof -
  have p: "dict_get (member_pairing_codes (purge_challenges t st)) c = None"
    using assms(3) unexpired_get[OF assms(5)] by (cases "dict_get (unexpired t (member_pairing_codes st)) c")
      (auto simp: purge_challenges_def Let_def)
  then show "fst (consume_member_pairing_code t c st) = None" by (simp add: consume_member_pairing_code_def Let_def)
  have "dict_get (unexpired t (member_challenges st)) c = Some e" using assms unexpired_get by blast
  then show "is_member_challenge t c (snd (consume_member_pairing_code t c st))"
    using assms(2) by (simp add: consume_member_pairing_code_def is_member_challenge_def purge_challenges_def Let_def)
  have "dict_get (member_bindings_by_value (snd (consume_member_pairing_code t c st))) c = None"
    by (simp add: consume_member_pairing_code_def Let_def dict_get_pop)
  moreover have "dict_wf (member_bindings_by_value (snd (consume_member_pairing_code t c st)))"
    using assms(6) by (simp add: consume_member_pairing_code_def Let_def purge_challenges_def)
  ultimately have "the_binding c (purge_challenges t (snd (consume_member_pairing_code t c st))) = None"
    by (auto simp: the_binding_def purge_challenges_def Let_def dict_get_filter split: option.split)
  then show "fst (consume_member_challenge t c (snd (consume_member_pairing_code t c st))) = None"
    by (simp add: consume_member_challenge_def Let_def)
qed

section \<open>One key, one phone\<close>

datatype phone_call =
    Register int string string "string list" "string option" "string option" "string option" string "(string \<times> string) list"
  | Revoke string
  | Replace string int string string "string list" "string option" "string option" "string option" string "(string \<times> string) list"
  | UpdatePush int string string string
  | OtherCode int code_call
  | PutSession session | AddPending pending_card | ListPending int string

fun phone_call_result :: "phone_call \<Rightarrow> store \<Rightarrow> store" where
  "phone_call_result (Register now lbl key al tk pf poll slt b) st = snd (register_phone (new_phone now lbl key al tk pf poll slt b) st)"
| "phone_call_result (Revoke pid) st = snd (revoke_phone pid st)"
| "phone_call_result (Replace pid now lbl key al tk pf poll slt b) st = snd (replace_phone pid (new_phone now lbl key al tk pf poll slt b) st)"
| "phone_call_result (UpdatePush now pid tk pf) st = snd (update_phone_push now pid tk pf st)"
| "phone_call_result (OtherCode now c) st = code_call_result now c st"
| "phone_call_result (PutSession s) st = put_session s st"
| "phone_call_result (AddPending c) st = add_pending c st"
| "phone_call_result (ListPending now pid) st = snd (list_pending_for_phone now pid st)"

inductive phone_run :: "store \<Rightarrow> bool" where
  phone_start: "phone_run empty_store"
| phone_step: "phone_run st \<Longrightarrow> phone_run (phone_call_result c st)"

text \<open>The bytes a key's text stands for.\<close>

definition key_bytes :: "string \<Rightarrow> bytes" where
  "key_bytes key = (case unb64u key of Inr raw \<Rightarrow> raw | Inl _ \<Rightarrow> utf8 key)"

definition registry_inv :: "(string, phone) dict \<Rightarrow> bool" where
  "registry_inv ps \<longleftrightarrow> dict_wf ps \<and> (\<forall>(k, p) \<in> set ps. k = ph_id p \<and> ph_id p = phone_ref_of (ph_key p))"

lemma registry_inv_filter: "registry_inv ps \<Longrightarrow> registry_inv (filter P ps)"
  by (auto simp: registry_inv_def)

lemma registry_inv_set:
  assumes "registry_inv ps" "ph_id p = phone_ref_of (ph_key p)"
  shows "registry_inv (dict_set (ph_id p) p ps)"
  using assms dict_set_members[of "ph_id p" p ps] unfolding registry_inv_def by fastforce

lemma merged_ref:
  assumes "registry_inv ps" "ph_id reg = phone_ref_of (ph_key reg)"
  shows "ph_id (merge_onto_existing (find (\<lambda>p. ph_key p = ph_key reg) (dict_values ps)) reg)
    = phone_ref_of (ph_key (merge_onto_existing (find (\<lambda>p. ph_key p = ph_key reg) (dict_values ps)) reg))"
proof (cases "find (\<lambda>p. ph_key p = ph_key reg) (dict_values ps)")
  case None
  then show ?thesis using assms(2) by (simp add: merge_onto_existing_def)
next
  case (Some p)
  then have "p \<in> set (dict_values ps)" "ph_key p = ph_key reg" by (auto simp: find_Some_iff)
  then show ?thesis using assms Some by (auto simp: merge_onto_existing_def registry_inv_def)
qed

lemma code_call_phones [simp]: "phones (code_call_result now c st) = phones st"
  by (cases c) (simp_all add: consume_drop issue_put put_code.simps drop_code.simps purge_challenges_def Let_def
      restarted_def issue_pairing_code_def issue_member_pairing_code_def split: option.split)

lemma phone_call_inv:
  assumes "registry_inv (phones st)"
  shows "registry_inv (phones (phone_call_result c st))"
proof (cases c)
  case (Register now lbl key al tk pf poll slt b)
  have "ph_id (new_phone now lbl key al tk pf poll slt b) = phone_ref_of (ph_key (new_phone now lbl key al tk pf poll slt b))"
    by (simp add: new_phone_def)
  then show ?thesis using Register registry_inv_set[OF assms merged_ref[OF assms]]
    by (simp add: register_phone_def find_by_pubkey_def Let_def)
next
  case (Replace pid now lbl key al tk pf poll slt b)
  have "ph_id (new_phone now lbl key al tk pf poll slt b) = phone_ref_of (ph_key (new_phone now lbl key al tk pf poll slt b))"
    by (simp add: new_phone_def)
  then show ?thesis using Replace assms
      registry_inv_set[OF registry_inv_filter[OF assms] merged_ref[OF registry_inv_filter[OF assms]]]
    by (auto simp: replace_phone_def drop_phone_rows_def Let_def)
next
  case (UpdatePush now pid tk pf)
  show ?thesis
  proof (cases "dict_get (phones st) pid")
    case (Some p)
    then have p: "pid = ph_id p" "ph_id p = phone_ref_of (ph_key p)"
      using assms dict_get_in_set[OF Some] by (auto simp: registry_inv_def)
    show ?thesis
      unfolding UpdatePush phone_call_result.simps update_phone_push_def Some option.case snd_conv
      using registry_inv_set[OF assms, of "p\<lparr>ph_push_token := Some tk, ph_push_platform := Some pf, ph_last_seen := now\<rparr>"] p
      by simp
  qed (use assms UpdatePush in \<open>simp add: update_phone_push_def\<close>)
qed (use assms in \<open>auto simp: revoke_phone_def drop_phone_rows_def registry_inv_filter put_session_def add_pending_def
    list_pending_for_phone_def purge_expired_pending_def Let_def\<close>)

lemma phone_run_inv: "phone_run st \<Longrightarrow> registry_inv (phones st)"
  by (induction rule: phone_run.induct) (simp add: empty_store_def registry_inv_def, rule phone_call_inv)

lemma phone_filed:
  assumes "registry_inv (phones st)" "p \<in> set (list_phones st)"
  shows "get_phone (ph_id p) st = Some p" "ph_id p = phone_ref_of (ph_key p)"
  using assms in_set_dict_get[of "phones st" "ph_id p" p] by (auto simp: registry_inv_def list_phones_def get_phone_def)

lemma same_key_same_phone:
  assumes "registry_inv (phones st)" "p \<in> set (list_phones st)" "q \<in> set (list_phones st)"
    "key_bytes (ph_key p) = key_bytes (ph_key q)"
  shows "p = q"
proof -
  have "phone_ref_of (ph_key p) = phone_ref_of (ph_key q)" using assms(4) by (simp add: phone_ref_of_def key_bytes_def)
  then show ?thesis using phone_filed[OF assms(1,2)] phone_filed[OF assms(1,3)] by simp
qed

lemma revoke_clears:
  assumes "registry_inv (phones st)" "get_phone pid st = Some p"
  shows "fst (revoke_phone pid st)"
    "get_phone q (snd (revoke_phone pid st)) = (if q = pid then None else get_phone q st)"
    "set (sessions (snd (revoke_phone pid st))) = {(k, s) \<in> set (sessions st). ss_phone_id s \<noteq> pid}"
    "set (pending (snd (revoke_phone pid st))) = {(k, c) \<in> set (pending st). cd_phone_id c \<noteq> pid}"
  using assms by (auto simp: registry_inv_def revoke_phone_def get_phone_def drop_phone_rows_def dict_get_filter split: option.split)

lemma values_set:
  assumes "registry_inv (phones st)" "p \<in> set (list_phones st)" "ph_id q = ph_id p"
  shows "set (dict_values (dict_set (ph_id p) q (phones st))) = insert q (set (list_phones st) - {p})"
proof (intro set_eqI iffI)
  have wf: "dict_wf (phones st)" "dict_wf (dict_set (ph_id p) q (phones st))" using assms(1) by (simp_all add: registry_inv_def)
  fix x
  show "x \<in> insert q (set (list_phones st) - {p})" if x: "x \<in> set (dict_values (dict_set (ph_id p) q (phones st)))"
  proof -
    obtain k where "(k, x) \<in> set (dict_set (ph_id p) q (phones st))" using x by force
    then have k: "dict_get (dict_set (ph_id p) q (phones st)) k = Some x" by (rule in_set_dict_get[OF wf(2)])
    show ?thesis
    proof (cases "k = ph_id p")
      case False
      then have "(k, x) \<in> set (phones st)" using k dict_get_in_set by (simp add: dict_get_set) fast
      then show ?thesis using False assms(1) by (auto simp: registry_inv_def list_phones_def intro!: image_eqI[of _ snd "(k, x)"])
    qed (use k in \<open>simp add: dict_get_set\<close>)
  qed
  assume x: "x \<in> insert q (set (list_phones st) - {p})"
  have "\<exists>k. dict_get (dict_set (ph_id p) q (phones st)) k = Some x"
  proof (cases "x = q")
    case False
    then have "x \<in> set (list_phones st)" "x \<noteq> p" using x by auto
    then have "dict_get (phones st) (ph_id x) = Some x" "ph_id x \<noteq> ph_id p"
      using phone_filed(1)[OF assms(1)] assms(2) by (auto simp: get_phone_def) (metis option.inject)
    then show ?thesis by (auto simp: dict_get_set)
  qed (auto simp: dict_get_set)
  then show "x \<in> set (dict_values (dict_set (ph_id p) q (phones st)))" by (force dest: dict_get_in_set)
qed

lemma register_again:
  assumes "registry_inv (phones st)" "p \<in> set (list_phones st)"
    "register_phone (new_phone now lbl (ph_key p) al tk pf poll slt b) st = (q, st')"
  shows "ph_id q = ph_id p" "ph_registered_at q = ph_registered_at p"
    "set (list_phones st') = insert q (set (list_phones st) - {p})"
proof -
  have "find (\<lambda>x. ph_key x = ph_key p) (list_phones st) = Some p"
  proof -
    obtain x where x: "find (\<lambda>x. ph_key x = ph_key p) (list_phones st) = Some x"
      using assms(2) by (metis (mono_tags, lifting) find_None_iff option.exhaust)
    then have "x \<in> set (list_phones st)" "ph_key x = ph_key p" by (auto simp: find_Some_iff)
    then show ?thesis using same_key_same_phone[OF assms(1) _ assms(2)] x by simp
  qed
  then have q: "q = (new_phone now lbl (ph_key p) al tk pf poll slt b)\<lparr>ph_id := ph_id p, ph_registered_at := ph_registered_at p\<rparr>"
      "st' = st\<lparr>phones := dict_set (ph_id p) q (phones st)\<rparr>"
    using assms(3) by (auto simp: register_phone_def find_by_pubkey_def list_phones_def merge_onto_existing_def new_phone_def Let_def)
  show "ph_id q = ph_id p" "ph_registered_at q = ph_registered_at p" using q(1) by simp_all
  show "set (list_phones st') = insert q (set (list_phones st) - {p})"
    using values_set[OF assms(1,2), of q] q by (simp add: list_phones_def)
qed

text \<open>C15: one key, one phone. In every store the operations reach, a phone is filed under the identifier its
  own key gives, so two registered phones never hold the same key, not even in two spellings; a key
  that registers again keeps its identifier and the time it first paired. Revoking a phone leaves no
  registration, session or card of it and touches no other phone's.\<close>

theorem one_key_one_phone:
  assumes "phone_run st"
  shows "(\<forall>p \<in> set (list_phones st). get_phone (phone_ref_of (ph_key p)) st = Some p)
    \<and> (\<forall>p \<in> set (list_phones st). \<forall>q \<in> set (list_phones st). key_bytes (ph_key p) = key_bytes (ph_key q) \<longrightarrow> p = q)
    \<and> (\<forall>pid p. get_phone pid st = Some p \<longrightarrow>
        (let st' = snd (revoke_phone pid st) in fst (revoke_phone pid st)
          \<and> (\<forall>q. get_phone q st' = (if q = pid then None else get_phone q st))
          \<and> set (sessions st') = {(k, s) \<in> set (sessions st). ss_phone_id s \<noteq> pid}
          \<and> set (pending st') = {(k, c) \<in> set (pending st). cd_phone_id c \<noteq> pid}))
    \<and> (\<forall>p now lbl al tk pf poll slt b. p \<in> set (list_phones st) \<longrightarrow>
        (let (q, st') = register_phone (new_phone now lbl (ph_key p) al tk pf poll slt b) st
         in ph_id q = ph_id p \<and> ph_registered_at q = ph_registered_at p
            \<and> set (list_phones st') = insert q (set (list_phones st) - {p})))"
proof -
  have inv: "registry_inv (phones st)" by (rule phone_run_inv[OF assms])
  show ?thesis
    using phone_filed[OF inv] same_key_same_phone[OF inv] revoke_clears[OF inv] register_again[OF inv]
    by (auto simp: Let_def split: prod.split)
qed

section \<open>Revocations and single use\<close>

datatype revocation_call =
    AddRevocation revocation_entry | SpendCapability revocation_entry | CheckRevoked string | ListRevocations | RestartStore

fun revocation_call_result :: "int \<Rightarrow> revocation_call \<Rightarrow> store \<Rightarrow> store" where
  "revocation_call_result now (AddRevocation r) st = add_revocation now r st"
| "revocation_call_result now (SpendCapability r) st = snd (consume_single_use_capability now r st)"
| "revocation_call_result now (CheckRevoked j) st = snd (is_revoked now j st)"
| "revocation_call_result now ListRevocations st = snd (list_revocations now st)"
| "revocation_call_result now RestartStore st = restarted now st"

text \<open>The entries a call hands to the list.\<close>

fun handed :: "revocation_call \<Rightarrow> revocation_entry list" where
  "handed (AddRevocation r) = [r]"
| "handed (SpendCapability r) = [r]"
| "handed _ = []"

inductive revocation_run :: "int \<Rightarrow> revocation_entry list \<Rightarrow> store \<Rightarrow> bool" where
  revocation_start: "revocation_run now [] empty_store"
| revocation_step: "revocation_run now seen st \<Longrightarrow> now \<le> now' \<Longrightarrow>
    revocation_run now' (handed c @ seen) (revocation_call_result now' c st)"

text \<open>All entries for an identifier name one time: the capability's own end.\<close>

definition ends_at :: "revocation_entry list \<Rightarrow> string \<Rightarrow> int \<Rightarrow> bool" where
  "ends_at seen jti e \<longleftrightarrow> (\<forall>r \<in> set seen. rev_jti r = jti \<longrightarrow> rev_original_exp r = e)"

definition revocation_inv :: "int \<Rightarrow> revocation_entry list \<Rightarrow> store \<Rightarrow> bool" where
  "revocation_inv now seen st \<longleftrightarrow> dict_wf (revocations st)
    \<and> (\<forall>(k, r) \<in> set (revocations st). k = rev_jti r \<and> r \<in> set seen)
    \<and> (\<forall>r \<in> set seen. ends_at seen (rev_jti r) (rev_original_exp r) \<and> now < rev_original_exp r
         \<longrightarrow> dict_get (revocations st) (rev_jti r) \<noteq> None)"

lemma revocation_invD:
  assumes "revocation_inv now seen st"
  shows "dict_wf (revocations st)" "dict_get (revocations st) k = Some r \<Longrightarrow> k = rev_jti r \<and> r \<in> set seen"
    "r \<in> set seen \<Longrightarrow> ends_at seen (rev_jti r) (rev_original_exp r) \<Longrightarrow> now < rev_original_exp r
         \<Longrightarrow> dict_get (revocations st) (rev_jti r) \<noteq> None"
  using assms dict_get_in_set[of "revocations st" k r] unfolding revocation_inv_def by blast+

lemma revocation_inv_filter:
  assumes "revocation_inv now seen st" "now \<le> now'"
    "revocations st' = filter (\<lambda>(k, r). \<not> revocation_aged now' r) (revocations st)"
  shows "revocation_inv now' seen st'"
proof -
  note D = revocation_invD[OF assms(1)]
  have "dict_get (revocations st') (rev_jti r) \<noteq> None"
    if r: "r \<in> set seen" "ends_at seen (rev_jti r) (rev_original_exp r)" "now' < rev_original_exp r" for r
  proof -
    obtain x where x: "dict_get (revocations st) (rev_jti r) = Some x" using D(3)[OF r(1,2)] r(3) assms(2) by auto
    then have "rev_original_exp x = rev_original_exp r" using D(2)[OF x] r(2) by (auto simp: ends_at_def)
    then show ?thesis using x r(3) D(1) assms(3) by (simp add: dict_get_filter revocation_aged_def)
  qed
  then show ?thesis using assms(1,3) by (auto simp: revocation_inv_def)
qed

lemma ends_at_Cons: "ends_at (r # seen) jti e \<longleftrightarrow> (rev_jti r = jti \<longrightarrow> rev_original_exp r = e) \<and> ends_at seen jti e"
  by (auto simp: ends_at_def)

lemma add_revocation_inv:
  assumes "revocation_inv now seen st" "now \<le> now'"
  shows "revocation_inv now' (r # seen) (add_revocation now' r st)"
proof -
  let ?p = "purge_revocations now' st"
  have P: "revocation_inv now' seen ?p"
    by (rule revocation_inv_filter[OF assms]) (simp add: purge_revocations_def)
  note D = revocation_invD[OF P]
  show ?thesis
  proof (cases "dict_get (revocations ?p) (rev_jti r)")
    case None
    have "dict_get (dict_set (rev_jti r) r (revocations ?p)) (rev_jti x) \<noteq> None"
      if "x \<in> set (r # seen)" "ends_at (r # seen) (rev_jti x) (rev_original_exp x)" "now' < rev_original_exp x" for x
      using that D(3)[of x] by (auto simp: dict_get_set ends_at_Cons)
    then show ?thesis using P None dict_set_members[of "rev_jti r" r "revocations ?p"]
      by (auto simp: add_revocation_def Let_def revocation_inv_def)
  next
    case (Some y)
    have "dict_get (revocations ?p) (rev_jti x) \<noteq> None"
      if "x \<in> set (r # seen)" "ends_at (r # seen) (rev_jti x) (rev_original_exp x)" "now' < rev_original_exp x" for x
      using that D(3)[of x] Some by (auto simp: ends_at_Cons)
    then show ?thesis using P Some by (auto simp: add_revocation_def Let_def revocation_inv_def)
  qed
qed

lemma revocation_inv_Cons:
  assumes "revocation_inv now seen st" "dict_get (revocations st) (rev_jti r) \<noteq> None"
  shows "revocation_inv now (r # seen) st"
  using assms by (auto simp: revocation_inv_def ends_at_Cons)

lemma revocation_call_inv:
  assumes inv: "revocation_inv now seen st" and le: "now \<le> now'"
  shows "revocation_inv now' (handed c @ seen) (revocation_call_result now' c st)"
proof -
  have P: "revocation_inv now' seen (purge_revocations now' st)"
    by (rule revocation_inv_filter[OF inv le]) (simp add: purge_revocations_def)
  show ?thesis
  proof (cases c)
    case (SpendCapability r)
    show ?thesis
    proof (cases "dict_get (revocations (purge_revocations now' st)) (rev_jti r) = None")
      case True
      then show ?thesis using SpendCapability add_revocation_inv[OF P, of now' r]
        by (simp add: consume_single_use_capability_def is_revoked_def Let_def)
    qed (use SpendCapability revocation_inv_Cons[OF P] in \<open>simp add: consume_single_use_capability_def is_revoked_def Let_def\<close>)
  next
    case RestartStore
    then show ?thesis using revocation_inv_filter[OF inv le, of "restarted now' st"] by (simp add: restarted_def)
  qed (use P add_revocation_inv[OF inv le] in \<open>simp_all add: is_revoked_def list_revocations_def Let_def\<close>)
qed

lemma revocation_run_inv: "revocation_run now seen st \<Longrightarrow> revocation_inv now seen st"
proof (induction rule: revocation_run.induct)
  case (revocation_start now)
  show ?case by (simp add: revocation_inv_def empty_store_def)
qed (rule revocation_call_inv)

lemma revoked_iff_seen:
  assumes "revocation_run now seen st" "now \<le> t" "t < e" "ends_at seen jti e"
  shows "fst (is_revoked t jti st) \<longleftrightarrow> jti \<in> rev_jti ` set seen"
proof -
  have P: "revocation_inv t seen (purge_revocations t st)"
    by (rule revocation_inv_filter[OF revocation_run_inv[OF assms(1)] assms(2)]) (simp add: purge_revocations_def)
  show ?thesis
  proof
    assume "fst (is_revoked t jti st)"
    then obtain r where "dict_get (revocations (purge_revocations t st)) jti = Some r" by (auto simp: is_revoked_def Let_def)
    then show "jti \<in> rev_jti ` set seen" using revocation_invD(2)[OF P] by blast
  next
    assume "jti \<in> rev_jti ` set seen"
    then obtain r where r: "r \<in> set seen" "rev_jti r = jti" by auto
    then have "rev_original_exp r = e" using assms(4) by (auto simp: ends_at_def)
    then show "fst (is_revoked t jti st)"
      using revocation_invD(3)[OF P r(1)] r assms(3,4) by (simp add: is_revoked_def Let_def)
  qed
qed

text \<open>C12: a single-use capability is spent once. In any run of the revocation list, restarts included, as
  long as every entry for an identifier names the capability's own end, an identifier is on the list
  at a time before that end exactly when it was revoked or spent before; spending it succeeds exactly
  when it was not, and from then until its end every further attempt fails.\<close>

theorem single_use_spent_once:
  assumes "revocation_run now seen st" and "now \<le> t" and "t < e" and "ends_at seen jti e"
    and "rev_jti r = jti" and "rev_original_exp r = e"
  shows "fst (is_revoked t jti st) = (jti \<in> rev_jti ` set seen)
    \<and> fst (consume_single_use_capability t r st) = (jti \<notin> rev_jti ` set seen)
    \<and> (\<forall>t'. t \<le> t' \<and> t' < e \<longrightarrow> fst (is_revoked t' jti (snd (consume_single_use_capability t r st)))
        \<and> \<not> fst (consume_single_use_capability t' r (snd (consume_single_use_capability t r st))))"
proof -
  have spend: "fst (consume_single_use_capability u r s) = (\<not> fst (is_revoked u jti s))" for u s
    using assms(5) by (simp add: consume_single_use_capability_def split: prod.split)
  have "revocation_run t (r # seen) (snd (consume_single_use_capability t r st))"
    using revocation_step[OF assms(1,2), of "SpendCapability r"] by simp
  moreover have "ends_at (r # seen) jti e" using assms(4-6) by (simp add: ends_at_Cons)
  ultimately have "fst (is_revoked u jti (snd (consume_single_use_capability t r st)))" if "t \<le> u" "u < e" for u
    using revoked_iff_seen[of t "r # seen" _ u e jti] that assms(5) by simp
  then show ?thesis using revoked_iff_seen[OF assms(1-4)] spend by simp
qed

section \<open>Examples\<close>

definition sample_calls :: "(int \<times> code_call) list" where
  "sample_calls = [(100, IssueCode 300 [7]), (110, IssueMemberCode 300 (Some (''App'', ''sub'')) [7, 8]), (120, ConsumeCode ''000007'')]"

definition sample_store :: store where
  "sample_store = fold (\<lambda>(now, c). code_call_result now c) sample_calls empty_store"

lemma sample_code_run:
  "code_run 120 [((OwnerCode, ''000007''), None), ((MemberCode, ''000008''), Some (410, Some (''App'', ''sub''))),
      ((OwnerCode, ''000007''), Some (400, None))] sample_store"
proof -
  note s1 = code_step[OF code_start[of 0], of 100 "IssueCode 300 [7]", simplified]
  note s2 = code_step[OF s1, of 110 "IssueMemberCode 300 (Some (''App'', ''sub'')) [7, 8]", simplified]
  note s3 = code_step[OF s2, of 120 "ConsumeCode ''000007''", simplified]
  have "char_of (48::nat) = CHR ''0''" "char_of (55::nat) = CHR ''7''" "char_of (56::nat) = CHR ''8''" by code_simp+
  then show ?thesis using s3
    by (simp add: sample_store_def sample_calls_def issue_pairing_code_def issue_member_pairing_code_def issued_def
        empty_store_def purge_challenges_def unexpired_def unique_code_def code_text_def digit_def Let_def)
qed


theorem one_key_one_phone_witness:
  "get_phone (phone_ref_of ''AAEC'') (phone_call_result (Register 5 ''phone'' ''AAEC'' [] None None None ''primary'' []) empty_store)
    = Some (new_phone 5 ''phone'' ''AAEC'' [] None None None ''primary'' [])"
  using conjunct1[OF one_key_one_phone[OF phone_step[OF phone_start, of "Register 5 ''phone'' ''AAEC'' [] None None None ''primary'' []"]]]
  by (simp add: Let_def register_phone_def find_by_pubkey_def merge_onto_existing_def empty_store_def list_phones_def new_phone_def)

theorem single_use_spent_once_witness:
  "fst (consume_single_use_capability 5 \<lparr>rev_jti = ''j'', rev_at = 5, rev_original_exp = 9, rev_reason = None\<rparr> empty_store)
    \<and> \<not> fst (consume_single_use_capability 8 \<lparr>rev_jti = ''j'', rev_at = 5, rev_original_exp = 9, rev_reason = None\<rparr>
        (snd (consume_single_use_capability 5 \<lparr>rev_jti = ''j'', rev_at = 5, rev_original_exp = 9, rev_reason = None\<rparr> empty_store)))"
  using single_use_spent_once[OF revocation_start[of 0], of 5 9 "''j''" "\<lparr>rev_jti = ''j'', rev_at = 5, rev_original_exp = 9, rev_reason = None\<rparr>"]
  by (simp add: ends_at_def)

end
