(* ===== verification/TopPlane.thy ===== *)
theory TopPlane
  imports GenesisStore Registry
begin

text \<open>
  The top plane (\<^verbatim>\<open>src/recto/bootloader/top_plane.py\<close>): acts that need the passphrase and an owner device,
  drafted on the chain's tip and signed as one 32-byte digest; and the check of the sealed set
  (\<^verbatim>\<open>src/recto/bootloader/genesis_authority.py\<close>). A store without a chain is \<open>None\<close>; the file store is
  the pair of files of \<open>GenesisStore\<close>. A refusal is its stable name and its HTTP status.
\<close>

datatype top_error = Refused string int | Raised chain_error | Unmodelled

definition act_card_ttl_seconds :: int where "act_card_ttl_seconds = 300"
definition owner_reset_window_seconds :: int where "owner_reset_window_seconds = 72 * 3600"
definition reset_intent_domain :: string where "reset_intent_domain = ''recto-owner-reset-intent-v1|''"
definition reset_arm_domain :: string where "reset_arm_domain = ''recto-owner-reset-arm-v1|''"
definition reset_abort_domain :: string where "reset_abort_domain = ''recto-owner-reset-abort-v1|''"
definition revoked_reset_prefix :: string where "revoked_reset_prefix = ''ownerreset:''"
definition act_fresh_seconds :: int where "act_fresh_seconds = 900"
definition reset_arm_grace_seconds :: int where "reset_arm_grace_seconds = 24 * 3600"

section \<open>Drafts\<close>

record draft =
  dr_op :: string
  dr_kind :: string
  dr_value :: bytes
  dr_algorithm :: string
  dr_seq :: int
  dr_prev :: "string option"
  dr_meta :: "string option"

definition draft_as_wire :: "draft \<Rightarrow> (string, pyval) dict" where
  "draft_as_wire d =
     [(''op'', PStr (dr_op d)), (''kind'', PStr (dr_kind d)), (''value_hex'', PStr (hexlify (dr_value d))),
      (''algorithm'', PStr (dr_algorithm d)), (''seq'', PInt (dr_seq d)), (''prev'', opt_str (dr_prev d)),
      (''meta'', opt_str (dr_meta d))]"

text \<open>\<open>Draft.from_wire\<close>. A conversion that raises \<open>KeyError\<close>, \<open>TypeError\<close> or \<open>ValueError\<close> is the named
  refusal; a field whose text Python would make of another type is outside the model.\<close>

definition draft_refused :: top_error where "draft_refused = Refused ''top_plane_draft_invalid'' 400"

definition caught_conv :: "top_error \<Rightarrow> conv_error + 'a \<Rightarrow> top_error + 'a" where
  "caught_conv e r = (case r of Inr x \<Rightarrow> Inr x | Inl ConvOutside \<Rightarrow> Inl Unmodelled | Inl ConvAttribute \<Rightarrow> Inl Unmodelled
     | Inl _ \<Rightarrow> Inl e)"

definition text_field :: "top_error \<Rightarrow> (string, pyval) dict \<Rightarrow> string \<Rightarrow> top_error + string" where
  "text_field e d k = caught_conv e (bind_err (item d k) text_of)"

definition int_field :: "top_error \<Rightarrow> (string, pyval) dict \<Rightarrow> string \<Rightarrow> top_error + int" where
  "int_field e d k = caught_conv e (bind_err (item d k) int_of)"

definition hex_value :: "(string, pyval) dict \<Rightarrow> string \<Rightarrow> conv_error + bytes" where
  "hex_value d k = bind_err (item d k) (\<lambda>v. if \<not> is_str v then Inl ConvType
     else case fromhex (the_str v) of None \<Rightarrow> Inl ConvValue | Some raw \<Rightarrow> Inr raw)"

definition opt_text_field :: "(string, pyval) dict \<Rightarrow> string \<Rightarrow> top_error + string option" where
  "opt_text_field d k = (case get d k of PNone \<Rightarrow> Inr None | PStr s \<Rightarrow> Inr (Some s) | _ \<Rightarrow> Inl Unmodelled)"

definition draft_from_wire :: "pyval \<Rightarrow> top_error + draft" where
  "draft_from_wire v =
     (if \<not> is_dict v then (if is_str v \<or> is_list v \<or> is_int v \<or> v = PNone then Inl draft_refused else Inl Unmodelled)
      else let d = the_dict v in
        bind_err (text_field draft_refused d ''op'') (\<lambda>p.
        bind_err (text_field draft_refused d ''kind'') (\<lambda>knd.
        bind_err (caught_conv draft_refused (hex_value d ''value_hex'')) (\<lambda>raw.
        bind_err (text_field draft_refused d ''algorithm'') (\<lambda>alg.
        bind_err (int_field draft_refused d ''seq'') (\<lambda>seq.
        bind_err (opt_text_field d ''prev'') (\<lambda>prev.
        bind_err (opt_text_field d ''meta'') (\<lambda>meta.
        Inr \<lparr>dr_op = p, dr_kind = knd, dr_value = raw, dr_algorithm = alg, dr_seq = seq, dr_prev = prev, dr_meta = meta\<rparr>))))))))"

section \<open>The chain an act appends to\<close>

definition chain_unreadable :: top_error where "chain_unreadable = Refused ''genesis_chain_unreadable'' 503"

definition expected_id :: "string option \<Rightarrow> bool" where
  "expected_id expect \<longleftrightarrow> (case expect of None \<Rightarrow> False | Some i \<Rightarrow> i \<noteq> [])"

definition top_chain_state ::
  "crypto_lib \<Rightarrow> (string \<Rightarrow> string) \<Rightarrow> chain_files option \<Rightarrow> string option \<Rightarrow> top_error + chain_state option" where
  "top_chain_state cl fl files expect = (case files of
     None \<Rightarrow> if expected_id expect then Inl chain_unreadable else Inr None
   | Some fs \<Rightarrow> (case genesis_chain_state cl fl fs of
       Inl (ChainError _) \<Rightarrow> Inl chain_unreadable
     | Inl e \<Rightarrow> Inl (Raised e)
     | Inr cs \<Rightarrow> if expected_id expect \<and> (case cs of None \<Rightarrow> True | Some s \<Rightarrow> sealed_id s \<noteq> expect)
         then Inl chain_unreadable else Inr cs))"

definition require_sealed ::
  "crypto_lib \<Rightarrow> (string \<Rightarrow> string) \<Rightarrow> chain_files option \<Rightarrow> bool \<Rightarrow> string option \<Rightarrow> top_error + chain_state" where
  "require_sealed cl fl files for_seal expect =
     bind_err (top_chain_state cl fl files expect) (\<lambda>st. case st of
       None \<Rightarrow> Inl (Refused ''top_plane_unavailable'' 404)
     | Some cs \<Rightarrow>
         if \<not> has_kind passphrase_kind (members cs) then Inl (Refused ''top_plane_no_passphrase'' 403)
         else if \<not> has_device (members cs) then Inl (Refused ''top_plane_no_device'' 403)
         else if for_seal then (if sealed_id cs \<noteq> None then Inl (Refused ''top_plane_already_sealed'' 409) else Inr cs)
         else if sealed_id cs = None then Inl (Refused ''top_plane_unsealed'' 409)
         else Inr cs)"

text \<open>\<open>value.decode("ascii", "replace")\<close>: a byte outside ASCII becomes a character the model has not.\<close>

definition ascii_text :: "bytes \<Rightarrow> string option" where
  "ascii_text raw = (if list_all (\<lambda>b. nat_of b < 128) raw then Some (map (\<lambda>b. char_of (nat_of b)) raw) else None)"

text \<open>The bytes an act is signed over; an operation outside the chain's is outside the model.\<close>

definition draft_message :: "chain_state \<Rightarrow> draft \<Rightarrow> top_error + bytes" where
  "draft_message cs d =
     (if dr_seq d \<noteq> int (chain_length cs) \<or> dr_prev d \<noteq> tip_hash cs then Inl (Refused ''top_plane_chain_moved'' 409)
      else case dict_get chain_ops (dr_op d) of
        None \<Rightarrow> Inl Unmodelled
      | Some p \<Rightarrow>
          if p = OpSealId \<and> ascii_text (dr_value d) = None then Inl Unmodelled
          else Inr (act_message (dr_seq d) p (dr_kind d) (dr_value d) (dr_algorithm d) (dr_prev d) (dr_meta d)
            (if p = OpSealId then ascii_text (dr_value d) else sealed_id cs)))"

definition verify_passphrase :: "crypto_lib \<Rightarrow> chain_state \<Rightarrow> bytes \<Rightarrow> pyval \<Rightarrow> bool" where
  "verify_passphrase cl cs message sig = (case dict_get (members cs) passphrase_kind of
     None \<Rightarrow> False
   | Some m \<Rightarrow> is_str sig \<and> the_str sig \<noteq> []
       \<and> verify_signature cl message (the_str sig) (b64_encode (ce_pubkey m)) (ce_algorithm m) = Inr True)"

definition device_kind_of :: "chain_state \<Rightarrow> phone \<Rightarrow> string option" where
  "device_kind_of cs p = map_option fst
     (find (\<lambda>(k, m). k \<in> set device_kinds \<and> b64_encode (ce_pubkey m) = ph_key p) (members cs))"

definition device_member_phones :: "store \<Rightarrow> chain_state \<Rightarrow> phone list" where
  "device_member_phones st cs = filter (\<lambda>p. device_kind_of cs p \<noteq> None) (list_phones st)"

definition record_of :: "draft \<Rightarrow> string list \<Rightarrow> (string, pyval) dict" where
  "record_of d sigs =
     [(''seq'', PInt (dr_seq d)), (''op'', PStr (dr_op d)), (''kind'', PStr (dr_kind d)),
      (''pubkey'', PStr (hexlify (dr_value d))), (''algorithm'', PStr (dr_algorithm d)), (''prev'', opt_str (dr_prev d)),
      (''signatures'', PList (map PStr sigs))] @ opt_field ''meta'' (dr_meta d)"

section \<open>Freshness\<close>

text \<open>The bounds both readers apply: \<open>None\<close> is the \<open>ValueError\<close>.\<close>

definition fresh_pair :: "int \<Rightarrow> string \<Rightarrow> int \<Rightarrow> (string \<times> int) option" where
  "fresh_pair now nonce not_after =
     (if length nonce < 16 \<or> not_after \<le> now \<or> not_after > now + act_fresh_seconds then None else Some (nonce, not_after))"

definition stale :: top_error where "stale = Refused ''top_plane_draft_stale'' 400"

definition act_freshness :: "(string \<Rightarrow> string) \<Rightarrow> int \<Rightarrow> draft \<Rightarrow> top_error + string \<times> int" where
  "act_freshness fl now d =
     (case json_loads fl (case dr_meta d of None \<Rightarrow> [] | Some s \<Rightarrow> s) of
        Inl e \<Rightarrow> if e = JsonUnmodelled then Inl Unmodelled else Inl stale
      | Inr v \<Rightarrow> if \<not> is_dict v then Inl stale
          else bind_err (text_field stale (the_dict v) ''nonce'') (\<lambda>nonce.
               bind_err (int_field stale (the_dict v) ''not_after'') (\<lambda>not_after.
               case fresh_pair now nonce not_after of None \<Rightarrow> Inl stale | Some p \<Rightarrow> Inr p)))"

definition leg_stale :: top_error where "leg_stale = Refused ''owner_reset_leg_stale'' 400"

definition leg_freshness :: "int \<Rightarrow> (string, pyval) dict \<Rightarrow> top_error + unit" where
  "leg_freshness now leg =
     bind_err (text_field leg_stale leg ''nonce'') (\<lambda>nonce.
     bind_err (int_field leg_stale leg ''not_after'') (\<lambda>not_after.
     case fresh_pair now nonce not_after of None \<Rightarrow> Inl leg_stale | Some p \<Rightarrow> Inr ()))"

section \<open>What a person reads\<close>

definition ref_of :: "bytes \<Rightarrow> string" where
  "ref_of raw_key = ''pk_'' @ take 16 (hexlify (sha256 raw_key))"

definition act_in_words :: "draft \<Rightarrow> string option" where
  "act_in_words d =
     (if dr_op d = ''seal-id'' then map_option (\<lambda>i. ''SEAL this bootloader'' @ [CHR 0x27] @ ''s id as '' @ i) (ascii_text (dr_value d))
      else if dr_op d = ''rotate-operator'' then Some (''ROTATE the operator key to '' @ take 16 (hexlify (dr_value d)) @ ''...'')
      else if dr_op d = ''add'' \<and> dr_kind d = passphrase_kind then Some ''REPLACE the recovery passphrase''
      else if dr_op d = ''add'' then Some (''SEAT '' @ ref_of (dr_value d) @ '' as the '' @ dr_kind d)
      else if dr_op d = ''remove'' then Some (''REMOVE the '' @ dr_kind d @ '' '' @ ref_of (dr_value d))
      else Some (dr_op d @ '' '' @ dr_kind d))"

text \<open>The text of the card; \<open>None\<close> is a text the model's characters cannot hold.\<close>

definition describe :: "draft \<Rightarrow> string option" where
  "describe d = map_option (\<lambda>what. ''TOP-PLANE ACT, entry '' @ str_int (dr_seq d) @ '': '' @ what @
     ''. The passphrase has signed it on the host. Approve ONLY if you started this at the host just now; it expires in ''
     @ str_int (act_card_ttl_seconds div 60) @ '' minutes.'') (act_in_words d)"

section \<open>The owner reset's digests\<close>

definition reset_digest :: "string \<Rightarrow> (string, pyval) dict \<Rightarrow> bytes" where
  "reset_digest domain d = sha256 (utf8 domain @ utf8 (canonical_meta d))"

definition reset_intent_digest :: "(string, pyval) dict \<Rightarrow> bytes" where
  "reset_intent_digest = reset_digest reset_intent_domain"

definition reset_arm_digest :: "(string, pyval) dict \<Rightarrow> bytes" where
  "reset_arm_digest = reset_digest reset_arm_domain"

definition reset_abort_digest :: "(string, pyval) dict \<Rightarrow> bytes" where
  "reset_abort_digest = reset_digest reset_abort_domain"

definition new_intent :: "int \<Rightarrow> string \<Rightarrow> string \<Rightarrow> string list \<Rightarrow> string list \<Rightarrow> int \<Rightarrow> (string, pyval) dict" where
  "new_intent now token bootloader_id slts lost window =
     [(''intent_id'', PStr (''reset-'' @ token)), (''bootloader_id'', PStr bootloader_id),
      (''slots'', PList (map PStr (sort slts))), (''lost'', PList (map PStr (sort lost))),
      (''not_before'', PInt (now + window)), (''started_at'', PInt now)]"

section \<open>The sealed set\<close>

datatype genesis_set_error = NoGenesisMembers | NoPassphraseMember | NoDeviceMember | UnverifiableMembers
  | QuorumConfig quorum_config_error | SetRaised chain_error

type_synonym genesis_members = "(string, genesis_member) dict"

definition collect_genesis_set ::
  "crypto_lib \<Rightarrow> (string \<Rightarrow> string) \<Rightarrow> chain_files \<Rightarrow> genesis_set_error + genesis_members" where
  "collect_genesis_set cl fl files = (case list_genesis_members_full cl fl files of
     Inl e \<Rightarrow> Inl (SetRaised e) | Inr ms \<Rightarrow> if ms = [] then Inl NoGenesisMembers else Inr ms)"

text \<open>A member's verifier raises where \<open>verify_signature\<close> does.\<close>

definition member_verifier :: "crypto_lib \<Rightarrow> genesis_member \<Rightarrow> verifier" where
  "member_verifier cl m = (\<lambda>sig msg.
     case verify_signature cl msg (b64_encode sig) (b64_encode (gm_pubkey m)) (gm_algorithm m) of
       Inl _ \<Rightarrow> None | Inr b \<Rightarrow> Some b)"

definition build_member_verifiers :: "crypto_lib \<Rightarrow> genesis_members \<Rightarrow> genesis_set_error + (string, verifier) dict" where
  "build_member_verifiers cl ms =
     (if list_ex (\<lambda>(k, m). gm_algorithm m \<notin> set supported_algorithms) ms then Inl UnverifiableMembers
      else Inr (map (\<lambda>(k, m). (k, member_verifier cl m)) ms))"

record top_plane_result =
  tp_met :: bool
  tp_passphrase :: bool
  tp_devices :: "string set"

text \<open>The loop of the gate: unlike the quorum's it does not skip an empty signature.\<close>

fun gate_loop :: "bytes \<Rightarrow> (string, verifier) dict \<Rightarrow> bytes list \<Rightarrow> string set \<Rightarrow> string set" where
  "gate_loop msg vs [] sat = sat"
| "gate_loop msg vs (sig # sigs) sat = (case match_member msg sig sat vs of
     None \<Rightarrow> gate_loop msg vs sigs sat | Some k \<Rightarrow> gate_loop msg vs sigs (insert k sat))"

definition gate_members :: "genesis_members \<Rightarrow> genesis_member \<Rightarrow> genesis_members" where
  "gate_members ms p = (passphrase_kind, p) # filter (\<lambda>(k, m). k \<in> set device_kinds) ms"

definition verify_top_plane ::
  "crypto_lib \<Rightarrow> (string \<Rightarrow> string) \<Rightarrow> bytes \<Rightarrow> bytes list \<Rightarrow> chain_files \<Rightarrow> genesis_set_error + top_plane_result" where
  "verify_top_plane cl fl message signatures files =
     bind_err (collect_genesis_set cl fl files) (\<lambda>ms. case dict_get ms passphrase_kind of
       None \<Rightarrow> Inl NoPassphraseMember
     | Some p \<Rightarrow>
         if filter (\<lambda>(k, m). k \<in> set device_kinds) ms = [] then Inl NoDeviceMember
         else bind_err (build_member_verifiers cl (gate_members ms p)) (\<lambda>vs.
           let satisfied = gate_loop message vs signatures {};
               hits = satisfied \<inter> set device_kinds
           in Inr \<lparr>tp_met = (passphrase_kind \<in> satisfied \<and> hits \<noteq> {}), tp_passphrase = (passphrase_kind \<in> satisfied),
                   tp_devices = hits\<rparr>))"

definition verify_tier3 ::
  "crypto_lib \<Rightarrow> (string \<Rightarrow> string) \<Rightarrow> bytes \<Rightarrow> bytes list \<Rightarrow> chain_files \<Rightarrow> pyval \<Rightarrow> genesis_set_error + quorum_result" where
  "verify_tier3 cl fl message signatures files k =
     bind_err (collect_genesis_set cl fl files) (\<lambda>ms.
     bind_err (build_member_verifiers cl ms) (\<lambda>vs.
       case verify_quorum message signatures vs k of Inl e \<Rightarrow> Inl (QuorumConfig e) | Inr r \<Rightarrow> Inr r))"

section \<open>The members a chain leaves\<close>

lemma members_from_entries:
  "replay_run cl fl es = Inr st \<Longrightarrow> (k, m) \<in> set (members st) \<Longrightarrow> m \<in> set es \<and> ce_op m \<in> {OpAdd, OpReset}"
proof (induction es arbitrary: st rule: rev_induct)
  case Nil
  then show ?case by (auto simp: replay_start_def)
next
  case (snoc e es)
  then obtain s s' where s: "replay_run cl fl es = Inr s" "apply_entry cl fl e s = Inr s'"
    "st = s'\<lparr>tip_hash := Some (entry_hash e), chain_length := chain_length s' + 1\<rparr>"
    unfolding replay_run_snoc replay_step_Inr by blast
  then have "(k, m) \<in> set (roster_after e (members s))" using snoc.prems(2) apply_entry_roster[OF s(2)] by simp
  then have "(k, m) \<in> set (members s) \<or> (m = e \<and> ce_op e \<in> {OpAdd, OpReset})"
    using dict_set_members[of "ce_kind e" e "members s"] dict_pop_members[of "ce_kind e" "members s"]
    by (cases "ce_op e") (auto simp: roster_after_def)
  then show ?case using snoc.IH[OF s(1)] by auto
qed

lemma read_algorithm:
  assumes "entry_of_record cl v = Inr e" "ce_op e \<in> {OpAdd, OpReset}"
  shows "ce_algorithm e \<in> set supported_algorithms"
proof -
  obtain seq p kind pk alg prev sigs meta where b: "build_entry cl seq p kind pk alg prev sigs meta = Inr e"
    using assms(1) by (auto simp: entry_of_record_def bind_err_Inr Let_def split: if_splits)
  then have "p = PStr (op_name (ce_op e))" "alg = PStr (ce_algorithm e)" using build_entry_Inr by blast+
  then show ?thesis using b assms(2) chain_ops_name[of "ce_op e"]
    by (auto simp: build_entry_def split: if_splits)
qed

definition listed :: "chain_members \<Rightarrow> genesis_members" where
  "listed ms = map (\<lambda>(k, e). (k, \<lparr>gm_kind = k, gm_pubkey = ce_pubkey e, gm_algorithm = ce_algorithm e\<rparr>)) ms"

text \<open>What the store's state says of its members, and what the gate then reads.\<close>

lemma chain_members_listed:
  assumes "genesis_chain_state cl fl (b, k) = Inr (Some cs)"
  shows "list_genesis_members_full cl fl (b, k) = Inr (listed (members cs))" "dict_wf (members cs)"
    "\<forall>(i, m) \<in> set (members cs). ce_algorithm m \<in> set supported_algorithms"
    "has_device (members cs) \<Longrightarrow> device_ever cs"
proof -
  obtain rs es m where rs: "read_chain b = Inr rs" and es: "entries_from_records cl rs = Inr es"
    and st: "optional_state cl fl es = Inr (Some cs)"
    by (rule chain_state_parts[OF assms])
  then have ne: "es \<noteq> []" and rep: "replay_state cl fl es = Inr cs"
    by (auto simp: optional_state_def bind_err_Inr split: if_splits)
  obtain v where v: "replay_run cl fl es = Inr v" "cs = chain_state.truncate v" using rep replay_state_Inr by blast
  have "rs \<noteq> []" using es ne by (auto simp: entries_from_records_def)
  then obtain d where b: "b = Stored (PDict d)" "get d ''chain'' = PList rs" "rs \<noteq> []"
    using rs by (cases b) (auto simp: read_chain_def is_dict_iff split: pyval.splits if_splits)
  obtain f fs where fs: "es = f # fs" using ne by (cases es) auto
  have "replay_stored_chain cl fl (PList rs) = Inr (listed (members cs), [])"
    using es b(3) rep by (simp add: replay_stored_chain_def conv_def fs replay_def listed_def)
  then show "list_genesis_members_full cl fl (b, k) = Inr (listed (members cs))"
    by (simp add: list_genesis_members_full_def read_genesis_members_def b)
  have inv: "replay_inv v" by (rule replay_run_inv[OF v(1)])
  then show "dict_wf (members cs)" by (simp add: v(2) replay_inv_def members_inv_def)
  show "has_device (members cs) \<Longrightarrow> device_ever cs" using inv by (simp add: v(2) replay_inv_def)
  show "\<forall>(i, m) \<in> set (members cs). ce_algorithm m \<in> set supported_algorithms"
  proof (clarsimp)
    fix i m assume "(i, m) \<in> set (members cs)"
    then have "m \<in> set es" "ce_op m \<in> {OpAdd, OpReset}" using members_from_entries[OF v(1)] v(2) by auto
    moreover then obtain r where "entry_of_record cl r = Inr m"
      using es unfolding entries_from_records_def by (blast elim: map_err_mem)
    ultimately show "ce_algorithm m \<in> set supported_algorithms" using read_algorithm by blast
  qed
qed

lemma member_verifier_signs [simp]:
  "safe_verify (member_verifier cl m) sig msg \<longleftrightarrow> signs cl (gm_pubkey m) (gm_algorithm m) sig msg"
proof -
  have "safe_verify (member_verifier cl m) sig msg
      \<longleftrightarrow> verify_signature cl msg (b64_encode sig) (b64_encode (gm_pubkey m)) (gm_algorithm m) = Inr True"
    by (cases "verify_signature cl msg (b64_encode sig) (b64_encode (gm_pubkey m)) (gm_algorithm m)")
      (auto simp: safe_verify_def member_verifier_def)
  then show ?thesis by (simp add: verify_signature_signs)
qed

text \<open>The gate's loop is the quorum's: no member accepts an empty signature.\<close>

lemma gate_quorum:
  assumes "\<forall>(k, v) \<in> set vs. \<not> safe_verify v [] msg"
  shows "gate_loop msg vs sigs sat = fst (quorum_loop msg vs sigs sat un)"
proof (induction sigs arbitrary: sat un)
  case (Cons sig sigs)
  have "match_member msg [] sat vs = None" using assms unfolding match_member_None by auto
  then show ?case using Cons by (cases "sig = []") (auto split: option.split)
qed simp

definition gate_verifiers :: "crypto_lib \<Rightarrow> genesis_members \<Rightarrow> (string, verifier) dict" where
  "gate_verifiers cl ms = map (\<lambda>(k, m). (k, member_verifier cl m)) ms"

lemma gate_verifiers_get: "dict_get (gate_verifiers cl ms) k = map_option (member_verifier cl) (dict_get ms k)"
  by (induction ms) (auto simp: gate_verifiers_def)

lemma gate_accepts:
  "accepts (gate_verifiers cl ms) msg sig k \<longleftrightarrow>
     (\<exists>m. dict_get ms k = Some m \<and> signs cl (gm_pubkey m) (gm_algorithm m) sig msg)"
  unfolding accepts_def gate_verifiers_get by (auto dest: signs_nonempty)

lemma passphrase_no_device [simp]: "passphrase_kind \<notin> set device_kinds"
  using device_not_passphrase by blast

lemma gate_members_wf:
  assumes "dict_wf ms"
  shows "dict_wf (gate_members ms p)"
  using assms by (auto simp: gate_members_def dict_wf_def distinct_map_filter)

lemma gate_members_get:
  assumes "dict_wf ms" "dict_get ms passphrase_kind = Some p"
  shows "dict_get (gate_members ms p) k = (if k \<in> insert passphrase_kind (set device_kinds) then dict_get ms k else None)"
  using assms by (auto simp: gate_members_def dict_get_filter split: option.split)

lemma gate_verifiers_wf [simp]: "dict_wf (gate_verifiers cl ms) = dict_wf ms"
  by (simp add: gate_verifiers_def dict_wf_def comp_def case_prod_unfold)

lemma verify_top_plane_satisfied:
  assumes "verify_top_plane cl fl msg sigs files = Inr r"
  obtains ms p sat where "list_genesis_members_full cl fl files = Inr ms" "dict_get ms passphrase_kind = Some p"
    "sat = fst (quorum_loop msg (gate_verifiers cl (gate_members ms p)) sigs {} 0)"
    "r = \<lparr>tp_met = (passphrase_kind \<in> sat \<and> sat \<inter> set device_kinds \<noteq> {}), tp_passphrase = (passphrase_kind \<in> sat),
          tp_devices = sat \<inter> set device_kinds\<rparr>"
proof -
  obtain ms p vs where ms: "list_genesis_members_full cl fl files = Inr ms" and p: "dict_get ms passphrase_kind = Some p"
    and vs: "build_member_verifiers cl (gate_members ms p) = Inr vs"
    and r: "r = (let satisfied = gate_loop msg vs sigs {}; hits = satisfied \<inter> set device_kinds
           in \<lparr>tp_met = (passphrase_kind \<in> satisfied \<and> hits \<noteq> {}), tp_passphrase = (passphrase_kind \<in> satisfied), tp_devices = hits\<rparr>)"
    using assms by (auto simp: verify_top_plane_def collect_genesis_set_def bind_err_Inr Let_def split: sum.splits option.splits if_splits)
  have "vs = gate_verifiers cl (gate_members ms p)"
    using vs by (auto simp: build_member_verifiers_def gate_verifiers_def split: if_splits)
  moreover have "\<forall>(k, v) \<in> set (gate_verifiers cl (gate_members ms p)). \<not> safe_verify v [] msg"
    by (auto simp: gate_verifiers_def dest: signs_nonempty)
  ultimately show thesis using that[OF ms p refl] r gate_quorum by (simp add: Let_def)
qed

text \<open>The entry an act's record reads as.\<close>

lemma draft_record_fields:
  "item (record_of d sigs) ''seq'' = Inr (PInt (dr_seq d))" "item (record_of d sigs) ''op'' = Inr (PStr (dr_op d))"
  "item (record_of d sigs) ''kind'' = Inr (PStr (dr_kind d))"
  "item (record_of d sigs) ''pubkey'' = Inr (PStr (hexlify (dr_value d)))"
  "item (record_of d sigs) ''algorithm'' = Inr (PStr (dr_algorithm d))"
  "get (record_of d sigs) ''signatures'' = PList (map PStr sigs)"
  "get (record_of d sigs) ''prev'' = opt_str (dr_prev d)" "get (record_of d sigs) ''meta'' = opt_str (dr_meta d)"
  by (simp_all add: record_of_def item_def get_def opt_str_def opt_field_def map_add_def split: option.split)

lemma draft_record_entry:
  assumes "entry_of_record cl (PDict (record_of d sigs)) = Inr e"
  shows "ce_seq e = dr_seq d" "op_name (ce_op e) = dr_op d" "ce_kind e = dr_kind d" "ce_pubkey e = dr_value d"
    "ce_algorithm e = dr_algorithm d" "ce_prev e = dr_prev d" "ce_meta e = dr_meta d"
    "map_err signature_of (map PStr sigs) = Inr (ce_signatures e)"
proof -
  have texts: "conv (if truthy (PList vs) then iterate (PList vs) else Inr []) = Inr vs" for vs
    by (cases vs) (simp_all add: conv_def)
  obtain raws where raws: "map_err signature_of (map PStr sigs) = Inr raws"
    and b: "build_entry cl (dr_seq d) (PStr (dr_op d)) (dr_kind d) (dr_value d) (PStr (dr_algorithm d)) (dr_prev d) raws (dr_meta d) = Inr e"
    using assms
    by (auto simp: entry_of_record_def Let_def draft_record_fields texts bind_err_Inr conv_def hex_field_def split: if_splits)
  then show "ce_seq e = dr_seq d" "op_name (ce_op e) = dr_op d" "ce_kind e = dr_kind d" "ce_pubkey e = dr_value d"
    "ce_algorithm e = dr_algorithm d" "ce_prev e = dr_prev d" "ce_meta e = dr_meta d"
    "map_err signature_of (map PStr sigs) = Inr (ce_signatures e)"
    using build_entry_Inr[OF b] by (metis chain_entry.select_convs pyval.inject(4))+
qed

text \<open>A set that holds the passphrase passes the chain's threshold exactly when the loop satisfies the
  passphrase and, where one is needed, a device.\<close>

lemma require_threshold_iff:
  assumes "has_kind passphrase_kind ms"
  shows "require_threshold cl ms e msg dev = Inr () \<longleftrightarrow>
    passphrase_kind \<in> satisfied_kinds cl ms (ce_signatures e) msg {}
    \<and> (dev \<longrightarrow> satisfied_kinds cl ms (ce_signatures e) msg {} \<inter> set device_kinds \<noteq> {})"
proof -
  have "ms \<noteq> []" using assms by (auto simp: has_kind_def)
  then show ?thesis using assms by (auto simp: require_threshold_def Let_def)
qed

lemma listed_get: "dict_get (listed ms) k = map_option (\<lambda>e. \<lparr>gm_kind = k, gm_pubkey = ce_pubkey e, gm_algorithm = ce_algorithm e\<rparr>) (dict_get ms k)"
  by (induction ms) (auto simp: listed_def)

lemma listed_wf [simp]: "dict_wf (listed ms) = dict_wf ms"
  by (simp add: dict_wf_def listed_def comp_def case_prod_unfold)

lemma listed_accepts:
  assumes "dict_wf ms" "dict_get (listed ms) passphrase_kind = Some p"
  shows "accepts (gate_verifiers cl (gate_members (listed ms) p)) msg sig k
    \<longleftrightarrow> k \<in> insert passphrase_kind (set device_kinds) \<and> signed_by cl ms k sig msg"
  using gate_members_get[of "listed ms" p] assms
  by (auto simp: gate_accepts listed_get signed_by_def)

lemma require_sealed_parts:
  assumes "require_sealed cl fl (Some files) False expect = Inr cs"
  shows "genesis_chain_state cl fl files = Inr (Some cs)" "has_kind passphrase_kind (members cs)"
    "has_device (members cs)" "sealed_id cs \<noteq> None"
proof -
  have step: "(if c then Inl err else x) = Inr y \<longleftrightarrow> \<not> c \<and> x = Inr y" for c and err :: top_error and x and y :: "'x"
    by simp
  obtain r where r: "top_chain_state cl fl (Some files) expect = Inr r"
    using assms unfolding require_sealed_def bind_err_Inr by blast
  have "require_sealed cl fl (Some files) False expect = Inl (Refused ''top_plane_unavailable'' 404)" if "r = None"
    using r that by (simp add: require_sealed_def)
  then obtain st where st: "r = Some st" using assms by (cases r) auto
  have all: "\<not> \<not> has_kind passphrase_kind (members st) \<and> \<not> \<not> has_device (members st) \<and> sealed_id st \<noteq> None \<and> st = cs"
    using assms unfolding require_sealed_def r st bind_err_simps option.case step if_False sum.inject by blast
  then show "has_kind passphrase_kind (members cs)" "has_device (members cs)" "sealed_id cs \<noteq> None" by blast+
  obtain x where x: "genesis_chain_state cl fl files = Inr x"
    using r by (cases "genesis_chain_state cl fl files") (simp_all add: top_chain_state_def split: chain_error.splits)
  show "genesis_chain_state cl fl files = Inr (Some cs)"
    using r all unfolding top_chain_state_def st option.case x sum.case step by simp
qed

lemma gate_answers:
  assumes "genesis_chain_state cl fl (b, k) = Inr (Some cs)" "has_kind passphrase_kind (members cs)" "has_device (members cs)"
  shows "\<exists>r. verify_top_plane cl fl msg sigs (b, k) = Inr r"
proof -
  note L = chain_members_listed[OF assms(1)]
  obtain p where p: "dict_get (listed (members cs)) passphrase_kind = Some p"
    using assms(2) by (auto simp: has_kind_def listed_get)
  obtain kd where kd: "kd \<in> set device_kinds" "has_kind kd (members cs)" using assms(3) has_device_iff by blast
  then obtain m where m: "dict_get (members cs) kd = Some m" by (auto simp: has_kind_def)
  have dev: "filter (\<lambda>(k, m). k \<in> set device_kinds) (listed (members cs)) \<noteq> []"
    using dict_get_in_set[OF m] kd(1) by (force simp: listed_def filter_empty_conv)
  have "gm_algorithm x \<in> set supported_algorithms" if "(i, x) \<in> set (gate_members (listed (members cs)) p)" for i x
    using that L(3) dict_get_in_set[OF p] by (auto simp: gate_members_def listed_def)
  then have "\<exists>vs. build_member_verifiers cl (gate_members (listed (members cs)) p) = Inr vs"
    by (auto simp: build_member_verifiers_def list_ex_iff)
  moreover have "listed (members cs) \<noteq> []" using p by auto
  ultimately show ?thesis using L(1) p dev by (auto simp: verify_top_plane_def collect_genesis_set_def Let_def)
qed

section \<open>Properties\<close>

text \<open>C28: the gate lets nothing through on one factor. When the check of a top-plane act over a stored chain
  answers that the act is met, two different signatures of the batch were made over the very message:
  one by the sealed passphrase and one by a sealed owner device.\<close>

theorem gate_needs_both_factors:
  assumes "genesis_chain_state cl fl (b, k) = Inr (Some cs)"
    and "verify_top_plane cl fl msg sigs (b, k) = Inr r" and "tp_met r"
  shows "\<exists>i j dev. i < length sigs \<and> j < length sigs \<and> i \<noteq> j \<and> dev \<in> tp_devices r \<and> dev \<in> set device_kinds
    \<and> signed_by cl (members cs) passphrase_kind (sigs ! i) msg \<and> signed_by cl (members cs) dev (sigs ! j) msg"
proof -
  note L = chain_members_listed[OF assms(1)]
  obtain p sat where p: "dict_get (listed (members cs)) passphrase_kind = Some p"
    and sat: "sat = fst (quorum_loop msg (gate_verifiers cl (gate_members (listed (members cs)) p)) sigs {} 0)"
    and r: "r = \<lparr>tp_met = (passphrase_kind \<in> sat \<and> sat \<inter> set device_kinds \<noteq> {}), tp_passphrase = (passphrase_kind \<in> sat),
          tp_devices = sat \<inter> set device_kinds\<rparr>"
    by (rule verify_top_plane_satisfied[OF assms(2)]) (use L(1) in auto)
  obtain un where q: "quorum_loop msg (gate_verifiers cl (gate_members (listed (members cs)) p)) sigs {} 0 = (sat, un)"
    using sat by (metis prod.collapse)
  have wf: "dict_wf (gate_verifiers cl (gate_members (listed (members cs)) p))"
    using gate_members_wf[of "listed (members cs)" p] L(2) by simp
  obtain f where f: "inj_on f sat" "\<And>i. i \<in> sat \<Longrightarrow> f i < length sigs \<and> signed_by cl (members cs) i (sigs ! f i) msg"
    using quorum_loop_attribution[OF wf q] listed_accepts[OF L(2) p] by auto
  obtain dev where dev: "dev \<in> sat" "dev \<in> set device_kinds" using assms(3) r by auto
  have "passphrase_kind \<in> sat" "dev \<noteq> passphrase_kind" using assms(3) r device_not_passphrase[OF dev(2)] by auto
  then have "f passphrase_kind \<noteq> f dev" using f(1) dev(1) by (metis inj_onD)
  then show ?thesis using f(2) dev \<open>passphrase_kind \<in> sat\<close> r by (metis IntI top_plane_result.select_convs(3))
qed


text \<open>C30: what the chain checks is what the card carried. When an act is appended to a sealed chain (neither
  the seal nor a reset), its draft sat on the tip, the 32 bytes the phone's card and the host's
  passphrase signed are exactly those the replay verified, and both factors are among the signatures.\<close>

theorem act_append_needs_both:
  assumes "require_sealed cl fl (Some (b, k)) False expect = Inr cs"
    and "append_genesis_chain_entry cl fl now (record_of d sigs) (b, k) = Inr (writes, new)"
    and "dr_op d \<notin> {''seal-id'', ''reset''}"
  shows "\<exists>msg raws. draft_message cs d = Inr msg \<and> length msg = 32 \<and> map_err signature_of (map PStr sigs) = Inr raws
    \<and> threshold_met cl (members cs) raws msg True"
proof -
  have cs: "genesis_chain_state cl fl (b, k) = Inr (Some cs)" "has_kind passphrase_kind (members cs)"
      "has_device (members cs)" "sealed_id cs \<noteq> None"
    using require_sealed_parts[OF assms(1)] by simp_all
  note L = chain_members_listed[OF cs(1)]
  obtain rs es e old recorded mark new_mark where
    rs: "read_chain b = Inr rs" "entries_from_records cl rs = Inr es" and e: "entry_of_record cl (PDict (record_of d sigs)) = Inr e"
    and new: "replay_state cl fl (es @ [e]) = Inr new"
    by (rule append_parts[OF assms(2)])
  have old: "optional_state cl fl es = Inr (Some cs)" using cs(1) rs by (auto elim: chain_state_parts)
  then have ne: "es \<noteq> []" and "replay_state cl fl es = Inr cs" by (auto simp: optional_state_def bind_err_Inr split: if_splits)
  then obtain v where v: "replay_run cl fl es = Inr v" "cs = chain_state.truncate v" using replay_state_Inr by blast
  obtain w where "replay_step cl fl e v = Inr w" using new v(1) unfolding replay_state_Inr replay_run_snoc by auto
  then have link: "ce_seq e = int (chain_length cs)" "ce_prev e = tip_hash cs" and auth: "check_authority cl fl e v = Inr ()"
    using v(2) by (auto simp: replay_step_Inr)
  note F = draft_record_entry[OF e]
  have pos: "ce_seq e \<noteq> 0" using link(1) replay_run_length[OF v(1)] ne v(2) by simp
  have ops: "ce_op e \<noteq> OpSealId" "ce_op e \<noteq> OpReset" using assms(3) F(2) by auto
  obtain seal where seal: "entry_seal e v = Inr seal" "require_threshold cl (members v) e (entry_message e seal) (device_ever v) = Inr ()"
    using check_authority_later[OF auth pos] ops by metis
  then have "seal = sealed_id cs" using ops v(2) by (simp add: entry_seal_def)
  moreover have "dict_get chain_ops (dr_op d) = Some (ce_op e)" using chain_ops_name[of "ce_op e"] F(2) by simp
  ultimately have msg: "draft_message cs d = Inr (entry_message e seal)"
    using link F ops(1) by (simp add: draft_message_def entry_message_def)
  have len: "length (entry_message e seal) = 32"
    using \<open>seal = sealed_id cs\<close> cs(4) by (auto simp: entry_message_def act_message_def Let_def)
  have "threshold_met cl (members v) (ce_signatures e) (entry_message e seal) (device_ever v)"
    by (rule require_threshold_met[OF seal(2)]) (use L(2) v(2) in simp)
  then show ?thesis using msg len F(8) L(4)[OF cs(3)] v(2) by auto
qed

section \<open>Witnesses\<close>

text \<open>The sealed sample chain, and an act that seats a laptop on its tip.\<close>

lemma sealed_members:
  "members after_seal = [(''passphrase'', genesis_entry), (''primary-phone'', device_entry)]" "sealed_id after_seal = Some ''vault''"
  by (simp_all add: after_seal_def after_device_def after_genesis_def replay_start_def)

lemma sealed_factors:
  "has_kind passphrase_kind (members (chain_state.truncate after_seal))" "has_device (members (chain_state.truncate after_seal))"
  by (simp_all add: sealed_members has_kind_def has_device_def passphrase_kind_def device_kinds_def)

lemma sealed_signed_by [simp]:
  "signed_by sample_lib (members after_seal) i (sample_sig n) msg
     \<longleftrightarrow> i = ''passphrase'' \<and> n = 1 \<or> i = ''primary-phone'' \<and> n = 2"
  by (auto simp: signed_by_def sealed_members genesis_entry_def device_entry_def)

lemma sample_sig_Nil [simp]: "sample_sig n \<noteq> []" "[] \<noteq> sample_sig n"
  by (simp_all add: sample_sig_def chain_sample_key_def)

definition laptop_draft :: draft where
  "laptop_draft = \<lparr>dr_op = ''add'', dr_kind = ''laptop'', dr_value = chain_sample_key 3, dr_algorithm = ''ed25519'',
     dr_seq = 3, dr_prev = Some (entry_hash seal_entry), dr_meta = None\<rparr>"

definition laptop_sigs :: "string list" where "laptop_sigs = map (b64_encode \<circ> sample_sig) [1, 2]"

definition laptop_entry :: chain_entry where
  "laptop_entry = sample_entry 3 OpAdd ''laptop'' 3 (Some (entry_hash seal_entry)) [1, 2]"

lemma laptop_record: "PDict (record_of laptop_draft laptop_sigs) = as_record laptop_entry"
  by (simp add: record_of_def laptop_draft_def laptop_sigs_def as_record_def laptop_entry_def)

lemma laptop_step: "\<exists>st. replay_step sample_lib fl laptop_entry after_seal = Inr st"
  by (simp add: replay_step_Inr laptop_entry_def after_seal_def after_device_def after_genesis_def replay_start_def
      genesis_entry_def device_entry_def replay_eval)

lemma laptop_append:
  "\<exists>writes new. append_genesis_chain_entry sample_lib fl 9 (record_of laptop_draft laptop_sigs)
     (sample_file sample_chain_entries, Stored seal_mark) = Inr (writes, new)"
proof -
  have "entry_of_record sample_lib (as_record laptop_entry) = Inr laptop_entry"
    unfolding laptop_entry_def by (rule sample_reads) simp
  then have es: "entries_from_records sample_lib (map norm_json (map as_record sample_chain_entries) @ [as_record laptop_entry])
      = Inr (sample_chain_entries @ [laptop_entry])"
    using sample_chain_reads unfolding entries_from_records_def map_err_append by auto
  obtain new where new: "replay_state sample_lib fl (sample_chain_entries @ [laptop_entry]) = Inr new"
    using laptop_step[of fl] sealed_sample by (auto simp: replay_state_Inr replay_run_snoc)
  obtain m where m: "seal_mark_of (sample_chain_entries @ [laptop_entry]) new = Inr m"
    using seal_mark_total[OF new] by blast
  have "check_seal_mark sample_chain_entries (Some (chain_state.truncate after_seal)) seal_mark = Inr ()"
    by (simp add: check_seal_mark_def sample_mark_matches seal_mark_simps)
  then have res: "resolve_seal_mark sample_chain_entries (Some (chain_state.truncate after_seal)) seal_mark = Inr seal_mark"
    by (simp add: resolve_seal_mark_def seal_mark_simps)
  show ?thesis
    unfolding append_genesis_chain_entry_def fst_conv snd_conv sample_file_chain bind_err_simps Let_def laptop_record es
      well_formed_record_def sum.case new butlast_snoc sample_optional
    by (simp add: read_seal_mark_def res m)
qed

theorem gate_needs_both_factors_witness:
  "\<exists>r dev. verify_top_plane sample_lib id [7] [sample_sig 2, sample_sig 1] (sample_file sample_chain_entries, Stored seal_mark) = Inr r
    \<and> dev \<in> tp_devices r"
proof -
  let ?ms = "listed (members (chain_state.truncate after_seal))"
  obtain r where r: "verify_top_plane sample_lib id [7] [sample_sig 2, sample_sig 1]
      (sample_file sample_chain_entries, Stored seal_mark) = Inr r"
    using gate_answers[OF sample_sealed_reads sealed_factors] by blast
  obtain p sat where p: "dict_get ?ms passphrase_kind = Some p"
    "sat = fst (quorum_loop [7] (gate_verifiers sample_lib (gate_members ?ms p)) [sample_sig 2, sample_sig 1] {} 0)"
    "r = \<lparr>tp_met = (passphrase_kind \<in> sat \<and> sat \<inter> set device_kinds \<noteq> {}), tp_passphrase = (passphrase_kind \<in> sat),
          tp_devices = sat \<inter> set device_kinds\<rparr>"
    by (rule verify_top_plane_satisfied[OF r]) (use chain_members_listed(1)[OF sample_sealed_reads[of id]] in \<open>simp only: sum.inject\<close>)
  have "p = \<lparr>gm_kind = ''passphrase'', gm_pubkey = chain_sample_key 1, gm_algorithm = ''ed25519''\<rparr>"
    "filter (\<lambda>(k, m). k \<in> set device_kinds) ?ms
      = [(''primary-phone'', \<lparr>gm_kind = ''primary-phone'', gm_pubkey = chain_sample_key 2, gm_algorithm = ''ed25519''\<rparr>)]"
    using p(1) by (auto simp: listed_def sealed_members genesis_entry_def device_entry_def passphrase_kind_def device_kinds_def)
  then have "sat = {''primary-phone'', ''passphrase''}"
    using p(2) by (auto simp: gate_members_def gate_verifiers_def passphrase_kind_def)
  then have "tp_met r" using p(3) by (simp add: passphrase_kind_def device_kinds_def)
  then show ?thesis using gate_needs_both_factors[OF sample_sealed_reads r] r by blast
qed


theorem act_append_needs_both_witness:
  "\<exists>msg. draft_message (chain_state.truncate after_seal) laptop_draft = Inr msg \<and> length msg = 32"
proof -
  have "require_sealed sample_lib id (Some (sample_file sample_chain_entries, Stored seal_mark)) False None
      = Inr (chain_state.truncate after_seal)"
    using sealed_factors sealed_members(2)
    by (simp add: require_sealed_def top_chain_state_def expected_id_def sample_sealed_reads)
  moreover obtain writes new where "append_genesis_chain_entry sample_lib id 9 (record_of laptop_draft laptop_sigs)
     (sample_file sample_chain_entries, Stored seal_mark) = Inr (writes, new)" using laptop_append by blast
  moreover have "dr_op laptop_draft \<notin> {''seal-id'', ''reset''}" by (simp add: laptop_draft_def)
  ultimately show ?thesis using act_append_needs_both by blast
qed

end
