(* ===== verification/PhoneProof.thy ===== *)
theory PhoneProof
  imports Registry
begin

text \<open>
  What a phone proves when it registers (\<^verbatim>\<open>src/recto/bootloader/server.py\<close>, \<open>_handle_register\<close>): the
  algorithms it names, the one spelling of its keys, its signature over the challenge, and its
  identity key's delegation of the key it polls with. Everything here is checked before any question
  of a slot. A field of a JSON type the code would fail on without naming it is \<open>PhoneUnmodelled\<close>.
\<close>

datatype phone_error = AlgorithmsMissing | AlgorithmUnknown | ProtocolMismatch | KeySpelling | ProofInvalid
  | PushPlatform | PollKeyMissing | PollKeyIdentity | DelegationInvalid | PhoneKey session_error | PhoneUnmodelled

definition protocol_version :: int where "protocol_version = 1"
definition poll_key_delegation_prefix :: string where "poll_key_delegation_prefix = ''recto-poll-key-v1''"
definition raw_key_bytes :: "(string, nat) dict" where "raw_key_bytes = [(''ed25519'', 32), (''ecdsa-p256'', 64)]"

definition generated_device_label :: "string \<Rightarrow> string" where
  "generated_device_label ref = ''phone-'' @ take 4 (if startswith ref ''pk_'' then drop 3 ref else ref)"

definition poll_key_delegation_payload :: "string \<Rightarrow> string \<Rightarrow> bytes option" where
  "poll_key_delegation_payload key poll = ascii_encode (poll_key_delegation_prefix @ ''|'' @ key @ ''|'' @ poll)"

text \<open>The key's spelling: unpadded base64url of the raw key, as the encoder writes it.\<close>

definition key_letter :: "char \<Rightarrow> bool" where
  "key_letter c \<longleftrightarrow> ascii_digit c \<or> ascii_lower c \<or> ascii_upper c \<or> c = CHR ''_'' \<or> c = CHR ''-''"

definition require_canonical_key :: "pyval \<Rightarrow> string \<Rightarrow> phone_error + string" where
  "require_canonical_key v algorithm =
     (if \<not> is_str v \<or> the_str v = [] \<or> \<not> list_all key_letter (the_str v) then Inl KeySpelling
      else (case unb64u (the_str v) of
        Inl _ \<Rightarrow> Inl KeySpelling
      | Inr raw \<Rightarrow>
          if b64_encode raw \<noteq> the_str v then Inl KeySpelling
          else if (case dict_get raw_key_bytes algorithm of None \<Rightarrow> False | Some n \<Rightarrow> length raw \<noteq> n) then Inl KeySpelling
          else Inr (the_str v)))"

section \<open>What the body says\<close>

record phone_request =
  pq_challenge :: string
  pq_proof :: string
  pq_key :: string
  pq_label :: string
  pq_algorithms :: "string list"

definition body_algorithms :: "pyval \<Rightarrow> phone_error + string list" where
  "body_algorithms v =
     (if \<not> is_list v \<or> the_list v = [] then Inl AlgorithmsMissing
      else if \<exists>a \<in> set (the_list v). a \<notin> PStr ` set supported_algorithms then Inl AlgorithmUnknown
      else Inr (map the_str (the_list v)))"

definition body_label :: "pyval \<Rightarrow> string \<Rightarrow> string" where
  "body_label v ref = (if \<not> is_str v \<or> strip (the_str v) = [] \<or> the_str v = ''(unnamed)''
     then generated_device_label ref else the_str v)"

definition read_phone_request :: "(string, pyval) dict \<Rightarrow> phone_error + phone_request" where
  "read_phone_request body =
     (let proof = get body ''registration_proof'' in
      if truthy proof \<and> \<not> is_dict proof then Inl PhoneUnmodelled
      else let p = (if truthy proof then the_dict proof else []);
               challenge = get_or p ''challenge'' (PStr []); sig = get_or p ''signature_b64u'' (PStr []) in
        bind_err (body_algorithms (get body ''supported_algorithms'')) (\<lambda>algos.
        if \<not> eq_int (get body ''v0_4_protocol'') protocol_version then Inl ProtocolMismatch
        else bind_err (require_canonical_key (get_or body ''public_key_b64u'' (PStr [])) (hd algos)) (\<lambda>key.
          if \<not> is_str challenge \<or> \<not> is_str sig then Inl PhoneUnmodelled
          else Inr \<lparr>pq_challenge = the_str challenge, pq_proof = the_str sig, pq_key = key,
            pq_label = body_label (get body ''device_label'') (phone_ref_of key), pq_algorithms = algos\<rparr>)))"

definition chosen_algorithm :: "phone_request \<Rightarrow> string" where
  "chosen_algorithm rq = hd (pq_algorithms rq)"

section \<open>What the phone proves\<close>

record proved_phone = phone_request +
  pp_push_token :: "string option"
  pp_push_platform :: "string option"
  pp_poll_key :: string

definition signed_with :: "crypto_lib \<Rightarrow> bytes \<Rightarrow> string \<Rightarrow> string \<Rightarrow> string \<Rightarrow> phone_error \<Rightarrow> phone_error + unit" where
  "signed_with cl payload sig key algorithm refusal = (case verify_signature cl payload sig key algorithm of
     Inl e \<Rightarrow> Inl (PhoneKey e) | Inr b \<Rightarrow> if b then Inr () else Inl refusal)"

text \<open>The push route: a token needs a known platform; an absent token drops the platform.\<close>

definition push_route :: "(string, pyval) dict \<Rightarrow> phone_error + string option \<times> string option" where
  "push_route body =
     (let token = get body ''push_token''; platform = get body ''push_platform'' in
      if \<not> truthy token then Inr (None, None)
      else if platform \<noteq> PStr ''apns'' \<and> platform \<noteq> PStr ''fcm'' then Inl PushPlatform
      else if \<not> is_str token then Inl PhoneUnmodelled
      else Inr (Some (the_str token), Some (the_str platform)))"

definition prove_poll_key ::
  "crypto_lib \<Rightarrow> (string, pyval) dict \<Rightarrow> phone_request \<Rightarrow> phone_error + string" where
  "prove_poll_key cl body rq =
     (let poll = get body ''poll_public_key_b64u''; delegation = get body ''poll_key_delegation_b64u'' in
      if \<not> (truthy poll \<and> truthy delegation) then Inl PollKeyMissing
      else bind_err (require_canonical_key poll (chosen_algorithm rq)) (\<lambda>poll_key.
        if poll_key = pq_key rq then Inl PollKeyIdentity
        else if \<not> is_str delegation then Inl PhoneUnmodelled
        else (case poll_key_delegation_payload (pq_key rq) poll_key of
          None \<Rightarrow> Inl PhoneUnmodelled
        | Some payload \<Rightarrow> bind_err (signed_with cl payload (the_str delegation) (pq_key rq) (chosen_algorithm rq)
            DelegationInvalid) (\<lambda>_. Inr poll_key))))"

definition prove_phone ::
  "crypto_lib \<Rightarrow> (string, pyval) dict \<Rightarrow> phone_request \<Rightarrow> phone_error + proved_phone" where
  "prove_phone cl body rq = (case ascii_encode (pq_challenge rq) of
     None \<Rightarrow> Inl PhoneUnmodelled
   | Some challenge \<Rightarrow>
       bind_err (signed_with cl challenge (pq_proof rq) (pq_key rq) (chosen_algorithm rq) ProofInvalid) (\<lambda>_.
       bind_err (push_route body) (\<lambda>(token, platform).
       bind_err (prove_poll_key cl body rq) (\<lambda>poll.
       Inr (phone_request.extend rq \<lparr>pp_push_token = token, pp_push_platform = platform, pp_poll_key = poll\<rparr>)))))"

section \<open>One key, one spelling\<close>

lemma canonical_key_PStr:
  "require_canonical_key (PStr s) algorithm = Inr key \<longleftrightarrow> key = s \<and> s \<noteq> [] \<and> list_all key_letter s
     \<and> (\<exists>raw. unb64u s = Inr raw \<and> b64_encode raw = s
          \<and> (\<forall>n. dict_get raw_key_bytes algorithm = Some n \<longrightarrow> length raw = n))"
proof (cases "unb64u s")
  case (Inr raw)
  then show ?thesis
    by (cases "dict_get raw_key_bytes algorithm") (auto simp: require_canonical_key_def)
qed (simp add: require_canonical_key_def)

lemma canonical_key_iff:
  "require_canonical_key v algorithm = Inr key \<longleftrightarrow> v = PStr key \<and> require_canonical_key (PStr key) algorithm = Inr key"
proof (cases v)
  case (PStr s)
  then show ?thesis by (auto simp: canonical_key_PStr)
qed (simp_all add: require_canonical_key_def)

lemma body_algorithms_iff:
  "body_algorithms v = Inr algos \<longleftrightarrow> v = PList (map PStr algos) \<and> algos \<noteq> [] \<and> set algos \<subseteq> set supported_algorithms"
proof -
  have retag: "map PStr (map the_str vs) = vs" if "\<forall>a \<in> set vs. a \<in> PStr ` set supported_algorithms" for vs
    using that by (induction vs) auto
  have "map the_str vs = algos \<longleftrightarrow> vs = map PStr algos" if "\<forall>a \<in> set vs. a \<in> PStr ` set supported_algorithms" for vs
    using retag[OF that] by (auto simp: comp_def)
  moreover have "(\<forall>a \<in> set (map PStr algos). a \<in> PStr ` set supported_algorithms) \<longleftrightarrow> set algos \<subseteq> set supported_algorithms"
    by auto
  ultimately show ?thesis by (cases v) (auto simp: body_algorithms_def)
qed

text \<open>What an admitted registration has shown.\<close>

lemma signed_with_Inr: "signed_with cl payload sig key algorithm refusal = Inr u \<longleftrightarrow>
    verify_signature cl payload sig key algorithm = Inr True"
  by (auto simp: signed_with_def split: sum.splits)

end
