(* ===== verification/TopRecords.thy ===== *)
theory TopRecords
  imports TopPlane PhoneProof
begin

text \<open>
  What the top plane's handlers share (\<^verbatim>\<open>src/recto/bootloader/server.py\<close>): the process and its stores as
  one value, the records of \<^verbatim>\<open>top_plane.json\<close>, cards to owner phones, the evidence that an entry is on
  the chain, and the registry's side of an act or a reset once it is there. A handler is a function
  from the process to its result and the process after it: what it wrote before a refusal stays
  written. It reads the clock once; its random draws are arguments. The file of the records is
  readable and writes do not fail.
\<close>

section \<open>Handlers\<close>

datatype plane_error = Top top_error | CodeExpired | CardNotFound | PhoneUnknown | AnswerInvalid | ProofRefused phone_error

definition ret :: "'a \<Rightarrow> 's \<Rightarrow> ('e + 'a) \<times> 's" where "ret x s = (Inr x, s)"
definition fail :: "'e \<Rightarrow> 's \<Rightarrow> ('e + 'a) \<times> 's" where "fail e s = (Inl e, s)"

definition seq :: "('s \<Rightarrow> ('e + 'a) \<times> 's) \<Rightarrow> ('a \<Rightarrow> 's \<Rightarrow> ('e + 'b) \<times> 's) \<Rightarrow> 's \<Rightarrow> ('e + 'b) \<times> 's" where
  "seq m f s = (case m s of (Inl e, s') \<Rightarrow> (Inl e, s') | (Inr x, s') \<Rightarrow> f x s')"

definition lift :: "'e + 'a \<Rightarrow> 's \<Rightarrow> ('e + 'a) \<times> 's" where "lift r s = (r, s)"
definition ask :: "('s \<Rightarrow> 'a) \<Rightarrow> 's \<Rightarrow> ('e + 'a) \<times> 's" where "ask f s = (Inr (f s), s)"
definition change :: "('s \<Rightarrow> 's) \<Rightarrow> 's \<Rightarrow> ('e + unit) \<times> 's" where "change f s = (Inr (), f s)"
definition refuse_if :: "bool \<Rightarrow> 'e \<Rightarrow> 's \<Rightarrow> ('e + unit) \<times> 's" where "refuse_if c e = (if c then fail e else ret ())"

lemmas step_defs = ret_def fail_def lift_def ask_def change_def

text \<open>What a handler ensures: \<open>Q\<close> of its result and the process after it, \<open>E\<close> of the process after a
  refusal. The equations turn a handler into the conditions on its paths.\<close>

definition wp :: "('s \<Rightarrow> ('e + 'a) \<times> 's) \<Rightarrow> ('a \<Rightarrow> 's \<Rightarrow> bool) \<Rightarrow> ('s \<Rightarrow> bool) \<Rightarrow> 's \<Rightarrow> bool" where
  "wp m Q E s = (case m s of (Inr x, t) \<Rightarrow> Q x t | (Inl e, t) \<Rightarrow> E t)"

named_theorems wp_eqs \<open>what the parts of a handler ensure\<close>

lemma wp_steps [wp_eqs]:
  "wp (ret x) Q E = Q x" "wp (fail e) Q E = E" "wp (ask f) Q E = (\<lambda>s. Q (f s) s)"
  "wp (change g) Q' E = (\<lambda>s. Q' () (g s))" "wp (lift v) Q E = (\<lambda>s. case v of Inl e \<Rightarrow> E s | Inr x \<Rightarrow> Q x s)"
  "wp (refuse_if c e') Q' E = (\<lambda>s. if c then E s else Q' () s)"
  by (auto simp: wp_def step_defs refuse_if_def fun_eq_iff split: sum.split)

lemma wp_seq [wp_eqs]: "wp (seq m f) Q E = wp m (\<lambda>x. wp (f x) Q E) E"
  by (simp add: wp_def seq_def fun_eq_iff split: prod.split sum.split)

lemma wp_split [wp_eqs]:
  "wp (if c then m else m') Q E = (if c then wp m Q E else wp m' Q E)"
  "wp (case v of None \<Rightarrow> m | Some x \<Rightarrow> f x) Q E = (case v of None \<Rightarrow> wp m Q E | Some x \<Rightarrow> wp (f x) Q E)"
  "wp (case p of (a, b) \<Rightarrow> g a b) Q E = (case p of (a, b) \<Rightarrow> wp (g a b) Q E)"
  by (simp_all split: option.split prod.split)

lemma wp_imp: "wp m Q E s \<Longrightarrow> (\<And>x t. Q x t \<Longrightarrow> Q' x t) \<Longrightarrow> (\<And>t. E t \<Longrightarrow> E' t) \<Longrightarrow> wp m Q' E' s"
  by (auto simp: wp_def split: prod.splits sum.splits)

lemma wp_after: "wp m (\<lambda>_. P) P s \<longleftrightarrow> P (snd (m s))"
  by (simp add: wp_def split: prod.split sum.split)

lemma wp_result: "wp m Q E s \<Longrightarrow> m s = (Inr x, t) \<Longrightarrow> Q x t"
  by (simp add: wp_def)

section \<open>Records\<close>

text \<open>A reset's intent: the object the passphrase signed, and its fields as the handlers read them.\<close>

record intent =
  it_raw :: "(string, pyval) dict"
  it_id :: string
  it_slots :: "string list"
  it_lost :: "string list"
  it_not_before :: int

record fresh_device =
  fd_key :: string
  fd_algorithm :: string
  fd_proof :: string
  fd_poll_key :: string
  fd_label :: string
  fd_push_token :: "string option"
  fd_push_platform :: "string option"

datatype reset_state = Waiting | Armed | Registered | Completed | Cancelled | Aborted

record reset_record =
  rr_id :: string
  rr_state :: reset_state
  rr_intent :: intent
  rr_text :: string
  rr_message :: bytes
  rr_passphrase_sig :: string
  rr_cards :: "(string, string) dict"
  rr_created :: int
  rr_slot :: "string option"
  rr_code_hash :: "string option"
  rr_code_expires :: int
  rr_code_attempts :: nat
  rr_challenge :: "string option"
  rr_challenge_mac :: "string option"
  rr_challenge_expires :: int
  rr_fresh :: "fresh_device option"
  rr_arm_nonces :: "string list"
  rr_abort_nonces :: "string list"
  rr_completed_slot :: "string option"
  rr_completed :: "string list"
  rr_cancelled_by :: "string option"

datatype act_state = ActPending | ActRefused | ActAppended

record top_act =
  ar_id :: string
  ar_state :: act_state
  ar_draft :: draft
  ar_message :: bytes
  ar_passphrase_sig :: string
  ar_cards :: "(string, string) dict"
  ar_created :: int
  ar_expires :: int

datatype plane_record = ActRow top_act | ResetRow reset_record

record host =
  ho_id :: string
  ho_derived_id :: "string option"
  ho_expect :: "string option"
  ho_window :: int
  ho_operator :: "bytes option"
  ho_root_operator :: "bytes option"
  ho_code_key :: bytes
  ho_files :: chain_files
  ho_store :: store
  ho_records :: "(string, plane_record) dict"

definition get_reset :: "string \<Rightarrow> host \<Rightarrow> reset_record option" where
  "get_reset i w = (case dict_get (ho_records w) i of Some (ResetRow r) \<Rightarrow> Some r | _ \<Rightarrow> None)"

definition put_reset :: "reset_record \<Rightarrow> host \<Rightarrow> host" where
  "put_reset r w = w\<lparr>ho_records := dict_set (rr_id r) (ResetRow r) (ho_records w)\<rparr>"

definition put_act :: "top_act \<Rightarrow> host \<Rightarrow> host" where
  "put_act r w = w\<lparr>ho_records := dict_set (ar_id r) (ActRow r) (ho_records w)\<rparr>"

definition change_store :: "(store \<Rightarrow> store) \<Rightarrow> host \<Rightarrow> host" where
  "change_store f w = w\<lparr>ho_store := f (ho_store w)\<rparr>"

fun resets_of :: "plane_record list \<Rightarrow> reset_record list" where
  "resets_of [] = []"
| "resets_of (ResetRow r # rs) = r # resets_of rs"
| "resets_of (ActRow a # rs) = resets_of rs"

definition list_resets :: "host \<Rightarrow> reset_record list" where
  "list_resets w = resets_of (dict_values (ho_records w))"

definition take_cards :: "string list \<Rightarrow> store \<Rightarrow> store" where
  "take_cards ids st = fold (\<lambda>c s. snd (take_pending c s)) ids st"

text \<open>The algorithm a registered phone signs with.\<close>

definition registered_algorithm :: "phone \<Rightarrow> string" where
  "registered_algorithm p = (case ph_algorithms p of [] \<Rightarrow> ''ed25519'' | a # as \<Rightarrow> a)"

section \<open>Codes under the process's key\<close>

definition hmac_sha256 :: "bytes \<Rightarrow> bytes \<Rightarrow> bytes" where
  "hmac_sha256 key msg =
     (let short = (if 64 < length key then sha256 key else key);
          block = short @ replicate (64 - length short) 0
      in sha256 (map (\<lambda>b. xor b 0x5c) block @ sha256 (map (\<lambda>b. xor b 0x36) block @ msg)))"

definition mac :: "string \<Rightarrow> string \<Rightarrow> host \<Rightarrow> (plane_error + string) \<times> host" where
  "mac use v w = (if ho_code_key w = [] then fail (Top (Refused ''owner_reset_unavailable'' 503)) w
     else ret (hexlify (hmac_sha256 (ho_code_key w) (utf8 (use @ ''|'' @ v)))) w)"

section \<open>When a reset is open\<close>

definition open_states :: "reset_state set" where "open_states = {Waiting, Armed, Registered}"

definition reset_anchor :: "reset_record \<Rightarrow> int" where
  "reset_anchor r = (if rr_state r = Registered \<and> rr_code_expires r \<noteq> 0 then rr_code_expires r
     else it_not_before (rr_intent r))"

definition reset_expired :: "int \<Rightarrow> reset_record \<Rightarrow> bool" where
  "reset_expired now r \<longleftrightarrow> rr_state r \<in> open_states \<and> now > reset_anchor r + reset_arm_grace_seconds"

definition reset_is_open :: "int \<Rightarrow> bool \<Rightarrow> reset_record \<Rightarrow> bool" where
  "reset_is_open now revoked r \<longleftrightarrow> rr_state r \<in> open_states \<and> \<not> revoked \<and> \<not> reset_expired now r"

definition reset_jti :: "reset_record \<Rightarrow> string" where
  "reset_jti r = revoked_reset_prefix @ it_id (rr_intent r)"

definition revoked_now :: "int \<Rightarrow> string \<Rightarrow> host \<Rightarrow> (plane_error + bool) \<times> host" where
  "revoked_now now jti w = (let (b, st) = is_revoked now jti (ho_store w) in (Inr b, w\<lparr>ho_store := st\<rparr>))"

definition reset_open_in :: "int \<Rightarrow> reset_record \<Rightarrow> host \<Rightarrow> (plane_error + bool) \<times> host" where
  "reset_open_in now r = seq (revoked_now now (reset_jti r)) (\<lambda>rv. ret (reset_is_open now rv r))"

section \<open>Evidence on the chain\<close>

definition plane_chain :: "crypto_lib \<Rightarrow> (string \<Rightarrow> string) \<Rightarrow> bool \<Rightarrow> host \<Rightarrow> (plane_error + chain_state) \<times> host" where
  "plane_chain cl fl for_seal w =
     (map_sum Top id (require_sealed cl fl (Some (ho_files w)) for_seal (ho_expect w)), w)"

definition read_chain_or_refuse :: "host \<Rightarrow> (plane_error + pyval list) \<times> host" where
  "read_chain_or_refuse w = (case read_chain (fst (ho_files w)) of
     Inr rs \<Rightarrow> ret rs w | Inl ChainUnmodelled \<Rightarrow> fail (Top Unmodelled) w | Inl _ \<Rightarrow> fail (Top chain_unreadable) w)"

definition current_chain :: "crypto_lib \<Rightarrow> (string \<Rightarrow> string) \<Rightarrow> host \<Rightarrow> (plane_error + chain_state option) \<times> host" where
  "current_chain cl fl w = (case genesis_chain_state cl fl (ho_files w) of
     Inr cs \<Rightarrow> ret cs w | Inl ChainUnmodelled \<Rightarrow> fail (Top Unmodelled) w | Inl _ \<Rightarrow> fail (Top chain_unreadable) w)"

definition is_current_member :: "chain_state option \<Rightarrow> string \<Rightarrow> bool" where
  "is_current_member cs key \<longleftrightarrow> (case cs of None \<Rightarrow> False
     | Some st \<Rightarrow> list_ex (\<lambda>(k, m). b64_encode (ce_pubkey m) = key) (members st))"

text \<open>Whether a stored record is the reset entry for this intent, slot and challenge. A record that is
  no object and a \<open>meta\<close> that is no text raise: outside the model.\<close>

definition names_reset :: "reset_record \<Rightarrow> string \<Rightarrow> (string, pyval) dict \<Rightarrow> bool" where
  "names_reset r challenge meta \<longleftrightarrow> get meta ''intent_id'' = PStr (it_id (rr_intent r))
     \<and> get meta ''slot'' = opt_str (rr_slot r) \<and> get meta ''challenge'' = PStr challenge"

fun find_reset_entry ::
  "(string \<Rightarrow> string) \<Rightarrow> reset_record \<Rightarrow> string \<Rightarrow> string \<Rightarrow> pyval list \<Rightarrow> plane_error + bool" where
  "find_reset_entry fl r want challenge [] = Inr False"
| "find_reset_entry fl r want challenge (PDict d # rs) =
     (if get d ''op'' \<noteq> PStr ''reset'' \<or> get d ''pubkey'' \<noteq> PStr want then find_reset_entry fl r want challenge rs
      else let meta = get d ''meta'' in
        if truthy meta \<and> \<not> is_str meta then Inl (Top Unmodelled)
        else (case json_loads fl (if truthy meta then the_str meta else []) of
          Inl e \<Rightarrow> if e = JsonUnmodelled then Inl (Top Unmodelled) else find_reset_entry fl r want challenge rs
        | Inr m \<Rightarrow> if is_dict m \<and> names_reset r challenge (the_dict m) then Inr True
            else find_reset_entry fl r want challenge rs))"
| "find_reset_entry fl r want challenge (_ # rs) = Inl (Top Unmodelled)"

definition reset_entry_on_chain :: "(string \<Rightarrow> string) \<Rightarrow> reset_record \<Rightarrow> host \<Rightarrow> (plane_error + bool) \<times> host" where
  "reset_entry_on_chain fl r = (case (rr_fresh r, rr_challenge r) of
     (Some fresh, Some challenge) \<Rightarrow>
       if challenge = [] then ret False
       else (case unb64u (fd_key fresh) of
         Inl e \<Rightarrow> fail (Top Unmodelled)
       | Inr raw \<Rightarrow> seq read_chain_or_refuse (\<lambda>rs. lift (find_reset_entry fl r (hexlify raw) challenge rs)))
   | _ \<Rightarrow> ret False)"

definition committed_or_unknown :: "(string \<Rightarrow> string) \<Rightarrow> reset_record \<Rightarrow> host \<Rightarrow> (plane_error + bool) \<times> host" where
  "committed_or_unknown fl r w = (case reset_entry_on_chain fl r w of
     (Inl (Top (Refused n s)), w') \<Rightarrow> ret False w' | out \<Rightarrow> out)"

text \<open>The append of a record: the files after its last write; \<open>None\<close> when the chain refuses it.\<close>

definition try_append ::
  "crypto_lib \<Rightarrow> (string \<Rightarrow> string) \<Rightarrow> int \<Rightarrow> (string, pyval) dict \<Rightarrow> host \<Rightarrow> (plane_error + chain_state option) \<times> host" where
  "try_append cl fl now record w = (case append_genesis_chain_entry cl fl now record (ho_files w) of
     Inl (ChainError e) \<Rightarrow> ret None w
   | Inl e \<Rightarrow> fail (Top (Raised e)) w
   | Inr (writes, new) \<Rightarrow> ret (Some new) (w\<lparr>ho_files := last writes\<rparr>))"

section \<open>The registry's side\<close>

definition revoke_and_void :: "int \<Rightarrow> string \<Rightarrow> store \<Rightarrow> store" where
  "revoke_and_void now pid st =
     (let (gone, st') = revoke_phone pid st in if gone then void_owner_enrolls_for now pid st' else st')"

definition lost_in_slot :: "reset_record \<Rightarrow> string \<Rightarrow> string option \<Rightarrow> store \<Rightarrow> phone list" where
  "lost_in_slot r slot fresh_ref st =
     filter (\<lambda>p. ph_slot p = slot \<and> ph_id p \<in> set (it_lost (rr_intent r)) \<and> Some (ph_id p) \<noteq> fresh_ref) (list_phones st)"

text \<open>The fresh device in its slot, then the lost phones that are no members any more.\<close>

definition seat_fresh :: "int \<Rightarrow> chain_state option \<Rightarrow> reset_record \<Rightarrow> fresh_device \<Rightarrow> string \<Rightarrow> store \<Rightarrow> string option \<times> store" where
  "seat_fresh now cs r fresh slot st =
     (let member = (case cs of None \<Rightarrow> None | Some c \<Rightarrow> Option.bind (dict_get slot_kind slot) (dict_get (members c)));
          seated = (case member of None \<Rightarrow> False | Some m \<Rightarrow> b64_encode (ce_pubkey m) = fd_key fresh);
          (ref, st1) = (if seated then let (p, s) = register_phone (new_phone now (fd_label fresh) (fd_key fresh)
                [fd_algorithm fresh] (fd_push_token fresh) (fd_push_platform fresh) (Some (fd_poll_key fresh)) slot []) st
              in (Some (ph_id p), s) else (None, st))
      in (ref, fold (\<lambda>p s. if is_current_member cs (ph_key p) then s else revoke_and_void now (ph_id p) s)
            (lost_in_slot r slot ref st1) st1))"

definition seat_done :: "string \<Rightarrow> reset_record \<Rightarrow> reset_record" where
  "seat_done slot r =
     (let seated = (if slot \<in> set (rr_completed r) then rr_completed r else rr_completed r @ [slot]);
          remaining = filter (\<lambda>s. s \<notin> set seated) (it_slots (rr_intent r))
      in r\<lparr>rr_state := (if remaining = [] then Completed else Waiting), rr_completed_slot := Some slot,
           rr_completed := seated, rr_fresh := None, rr_challenge := None, rr_challenge_mac := None,
           rr_code_hash := None, rr_code_expires := 0\<rparr>)"

definition finish_reset_seat ::
  "crypto_lib \<Rightarrow> (string \<Rightarrow> string) \<Rightarrow> int \<Rightarrow> reset_record \<Rightarrow> chain_state option
     \<Rightarrow> host \<Rightarrow> (plane_error + string option) \<times> host" where
  "finish_reset_seat cl fl now r post = (case (rr_fresh r, rr_slot r) of
     (Some fresh, Some slot) \<Rightarrow>
       seq (if post = None then current_chain cl fl else ret post) (\<lambda>cs.
       seq (ask (\<lambda>w. seat_fresh now cs r fresh slot (ho_store w))) (\<lambda>(ref, st).
       seq (change (\<lambda>w. put_reset (seat_done slot r) (w\<lparr>ho_store := st\<rparr>))) (\<lambda>_. ret ref)))
   | _ \<Rightarrow> fail (Top Unmodelled))"

text \<open>An act's entry at its place on the stored chain.\<close>

definition act_entry_on_chain :: "draft \<Rightarrow> host \<Rightarrow> (plane_error + bool) \<times> host" where
  "act_entry_on_chain d = seq read_chain_or_refuse (\<lambda>rs.
     if \<not> (0 \<le> dr_seq d \<and> dr_seq d < int (length rs)) then ret False
     else (case rs ! nat (dr_seq d) of
       PDict r \<Rightarrow> ret (get r ''op'' = PStr (dr_op d) \<and> get r ''kind'' = PStr (dr_kind d)
         \<and> get r ''pubkey'' = PStr (hexlify (dr_value d)) \<and> get r ''prev'' = opt_str (dr_prev d)
         \<and> get r ''meta'' = opt_str (dr_meta d))
     | _ \<Rightarrow> fail (Top Unmodelled)))"

text \<open>Owner-slot entries approved before the seal die with it.\<close>

definition drop_unsealed_enrolls :: "int \<Rightarrow> store \<Rightarrow> store" where
  "drop_unsealed_enrolls now st =
     (let (rs, st') = list_owner_enrolls now st
      in fold (\<lambda>r s. snd (delete_owner_enroll now (oe_request_id r) (take_cards (dict_keys (oe_cards r)) s)))
           (filter (\<lambda>r. \<not> oe_sealed r \<and> oe_state r \<in> {''pending'', ''approved''}) rs) st')"

definition follow_rotation :: "chain_state option \<Rightarrow> draft \<Rightarrow> host \<Rightarrow> host" where
  "follow_rotation cs d w =
     (if dr_op d = ''rotate-operator''
         \<and> (case cs of None \<Rightarrow> False | Some c \<Rightarrow> (case current_operator_pubkey c of None \<Rightarrow> [] | Some k \<Rightarrow> k) = dr_value d)
      then w\<lparr>ho_operator := Some (dr_value d),
             ho_root_operator := (if length (dr_value d) = 64 then Some (dr_value d) else ho_root_operator w)\<rparr> else w)"

definition follow_removal :: "int \<Rightarrow> chain_state option \<Rightarrow> draft \<Rightarrow> string option \<Rightarrow> store \<Rightarrow> store" where
  "follow_removal now cs d approver st =
     (case find (\<lambda>p. ph_key p = b64_encode (dr_value d)) (list_phones st) of
        None \<Rightarrow> st
      | Some gone \<Rightarrow> if is_current_member cs (ph_key gone) \<or> approver = Some (ph_id gone) then st
          else revoke_and_void now (ph_id gone) st)"

definition finish_act ::
  "crypto_lib \<Rightarrow> (string \<Rightarrow> string) \<Rightarrow> int \<Rightarrow> top_act \<Rightarrow> draft \<Rightarrow> string option \<Rightarrow> chain_state option
     \<Rightarrow> host \<Rightarrow> (plane_error + unit) \<times> host" where
  "finish_act cl fl now r d approver post =
     seq (if post = None then current_chain cl fl else ret post) (\<lambda>cs.
     seq (change (follow_rotation cs d)) (\<lambda>_.
     seq (change (if dr_op d = ''seal-id'' then change_store (drop_unsealed_enrolls now) else id)) (\<lambda>_.
     seq (change (if dr_op d = ''remove'' then change_store (follow_removal now cs d approver) else id)) (\<lambda>_.
     change (put_act (r\<lparr>ar_state := ActAppended\<rparr>))))))"

end
