(* ===== verification/OwnerReset.thy ===== *)
theory OwnerReset
  imports TopRecords
begin

text \<open>
  The owner reset (\<^verbatim>\<open>src/recto/bootloader/server.py\<close>): the passphrase starts it, every owner phone may
  cancel it until the window has passed, then the host arms it for a one-time code, a fresh device
  answers the code, and the passphrase over the reset's chain entry seats that device. One definition
  per handler; the requests' bodies are JSON values.
\<close>

definition reset_invalid :: "int \<Rightarrow> plane_error" where "reset_invalid status = Top (Refused ''owner_reset_invalid'' status)"
definition passphrase_invalid :: plane_error where "passphrase_invalid = Top (Refused ''top_plane_passphrase_invalid'' 403)"
definition reset_code_attempts :: nat where "reset_code_attempts = 5"

section \<open>Start\<close>

text \<open>The minute a date is shown as, from the epoch to the end of the year 9999.\<close>

definition when_text :: "int \<Rightarrow> string option" where
  "when_text t = (if t < 0 \<or> 253402300799 < t then None else Some (utc_minute t))"

definition start_text :: "string list \<Rightarrow> string list \<Rightarrow> string \<Rightarrow> string" where
  "start_text slts lost when =
     ''AN OWNER RESET WAS STARTED ON THE HOST: slot(s) '' @ join_with '', '' slts @ '', phones named lost: ''
     @ (if lost = [] then ''none'' else join_with '', '' lost) @ ''. It completes no sooner than '' @ when
     @ ''. APPROVE = CANCEL IT. Cancel unless you started it yourself.''"

text \<open>One card per phone; \<open>rid\<close> draws the identifiers.\<close>

definition device_card :: "int \<Rightarrow> string \<Rightarrow> string \<Rightarrow> bytes \<Rightarrow> int \<Rightarrow> string \<Rightarrow> phone \<Rightarrow> pending_card" where
  "device_card now record_id txt message ttl rid p =
     new_card now rid ''single_sign'' ''recto'' (''top-plane:'' @ record_id) (ph_id p) txt (b64_encode message) ttl"

definition card_devices ::
  "int \<Rightarrow> string \<Rightarrow> string \<Rightarrow> bytes \<Rightarrow> phone list \<Rightarrow> int \<Rightarrow> (nat \<Rightarrow> string) \<Rightarrow> store \<Rightarrow> (string, string) dict \<times> store" where
  "card_devices now record_id txt message ps ttl rid st =
     fold (\<lambda>(i, p) (cards, s). (dict_set (rid i) (ph_id p) cards,
         add_pending (device_card now record_id txt message ttl (rid i) p) s)) (enumerate 0 ps) ([], st)"

definition elements_field :: "(string, pyval) dict \<Rightarrow> string \<Rightarrow> plane_error + pyval list" where
  "elements_field d k = map_sum Top id (caught_conv (Refused ''owner_reset_invalid'' 400) (bind_err (item d k) iterate))"

text \<open>The intent's fields as \<open>list\<close>, \<open>int\<close> and \<open>str\<close> read them; a list of lost phones given as one text,
  whose later membership tests Python makes on the text, is outside the model.\<close>

definition read_intent :: "(string, pyval) dict \<Rightarrow> plane_error + pyval list \<times> pyval list \<times> int \<times> string" where
  "read_intent d =
     bind_err (elements_field d ''slots'') (\<lambda>slts.
     bind_err (elements_field d ''lost'') (\<lambda>lost.
     bind_err (map_sum Top id (int_field (Refused ''owner_reset_invalid'' 400) d ''not_before'')) (\<lambda>not_before.
     bind_err (map_sum Top id (text_field (Refused ''owner_reset_invalid'' 400) d ''intent_id'')) (\<lambda>iid.
     if is_str (get d ''lost'') then Inl (Top Unmodelled) else Inr (slts, lost, not_before, iid)))))"

fun first_unfinished :: "(string \<Rightarrow> string) \<Rightarrow> reset_record list \<Rightarrow> host \<Rightarrow> (plane_error + bool) \<times> host" where
  "first_unfinished fl [] = ret False"
| "first_unfinished fl (r # rs) =
     (if rr_state r \<noteq> Registered then first_unfinished fl rs
      else seq (reset_entry_on_chain fl r) (\<lambda>b. if b then ret True else first_unfinished fl rs))"

fun any_open :: "int \<Rightarrow> reset_record list \<Rightarrow> host \<Rightarrow> (plane_error + bool) \<times> host" where
  "any_open now [] = ret False"
| "any_open now (r # rs) = seq (reset_open_in now r) (\<lambda>b. if b then ret True else any_open now rs)"

definition owners_of :: "store \<Rightarrow> phone list" where
  "owners_of st = filter (\<lambda>p. ph_slot p \<in> set slots) (list_phones st)"

definition held_phones :: "string list \<Rightarrow> store \<Rightarrow> string list" where
  "held_phones slts st = sort (map ph_id (filter (\<lambda>p. ph_slot p \<in> set slts) (owners_of st)))"

definition lost_refused :: "string list \<Rightarrow> pyval list \<Rightarrow> string list \<Rightarrow> bool" where
  "lost_refused slts lost hold \<longleftrightarrow> lost = [] \<or> (\<exists>v \<in> set lost. v \<notin> PStr ` set hold)
     \<or> (length slts = 2 \<and> sort (map the_str lost) \<noteq> hold)"

definition waiting_reset :: "int \<Rightarrow> intent \<Rightarrow> string \<Rightarrow> bytes \<Rightarrow> string \<Rightarrow> (string, string) dict \<Rightarrow> reset_record" where
  "waiting_reset now it txt message psig cards =
     \<lparr>rr_id = it_id it, rr_state = Waiting, rr_intent = it, rr_text = txt, rr_message = message,
      rr_passphrase_sig = psig, rr_cards = cards, rr_created = now, rr_slot = None, rr_code_hash = None,
      rr_code_expires = 0, rr_code_attempts = 0, rr_challenge = None, rr_challenge_mac = None,
      rr_challenge_expires = 0, rr_fresh = None, rr_arm_nonces = [], rr_abort_nonces = [],
      rr_completed_slot = None, rr_completed = [], rr_cancelled_by = None\<rparr>"

definition begin_reset ::
  "int \<Rightarrow> (nat \<Rightarrow> string) \<Rightarrow> intent \<Rightarrow> bytes \<Rightarrow> string \<Rightarrow> host \<Rightarrow> (plane_error + string \<times> int \<times> nat) \<times> host" where
  "begin_reset now rid it digest psig = (case when_text (it_not_before it) of
     None \<Rightarrow> fail (Top Unmodelled)
   | Some when \<Rightarrow>
       seq (ask (\<lambda>w. card_devices now (it_id it) (start_text (it_slots it) (it_lost it) when) digest
              (owners_of (ho_store w)) (max 60 (it_not_before it - now)) rid (ho_store w))) (\<lambda>(cards, st).
       seq (change (\<lambda>w. put_reset (waiting_reset now it (start_text (it_slots it) (it_lost it) when) digest psig cards)
              (w\<lparr>ho_store := st\<rparr>))) (\<lambda>_.
       ret (it_id it, it_not_before it, length cards))))"

definition start_reset_locked ::
  "(string \<Rightarrow> string) \<Rightarrow> int \<Rightarrow> (nat \<Rightarrow> string) \<Rightarrow> (string, pyval) dict \<Rightarrow> string \<Rightarrow> string list \<Rightarrow> pyval list \<Rightarrow> int
     \<Rightarrow> bytes \<Rightarrow> string \<Rightarrow> host \<Rightarrow> (plane_error + string \<times> int \<times> nat) \<times> host" where
  "start_reset_locked fl now rid raw iid slts lost not_before digest psig =
     seq (revoked_now now (revoked_reset_prefix @ iid)) (\<lambda>rv.
     seq (ask (\<lambda>w. rv \<or> dict_get (ho_records w) iid \<noteq> None)) (\<lambda>spent.
     seq (refuse_if spent (Top (Refused ''owner_reset_spent'' 409))) (\<lambda>_.
     seq (ask list_resets) (\<lambda>rs.
     seq (first_unfinished fl rs) (\<lambda>unfinished.
     seq (refuse_if unfinished (Top (Refused ''owner_reset_committed'' 409))) (\<lambda>_.
     seq (any_open now rs) (\<lambda>is_open.
     seq (refuse_if is_open (Top (Refused ''owner_reset_open'' 409))) (\<lambda>_.
     seq (ask (\<lambda>w. lost_refused slts lost (held_phones slts (ho_store w)))) (\<lambda>refused.
     seq (refuse_if refused (reset_invalid 400)) (\<lambda>_.
     begin_reset now rid \<lparr>it_raw = raw, it_id = iid, it_slots = slts, it_lost = map the_str lost,
       it_not_before = not_before\<rparr> digest psig))))))))))"

definition owner_reset_start ::
  "crypto_lib \<Rightarrow> (string \<Rightarrow> string) \<Rightarrow> int \<Rightarrow> (nat \<Rightarrow> string) \<Rightarrow> pyval \<Rightarrow> pyval \<Rightarrow> host
     \<Rightarrow> (plane_error + string \<times> int \<times> nat) \<times> host" where
  "owner_reset_start cl fl now rid v psig =
     seq (plane_chain cl fl False) (\<lambda>cs.
     seq (refuse_if (\<not> is_dict v) (reset_invalid 400)) (\<lambda>_.
     seq (lift (read_intent (the_dict v))) (\<lambda>(slts, lost, not_before, iid).
     seq (ask (\<lambda>w. get (the_dict v) ''bootloader_id'' \<noteq> PStr (ho_id w))) (\<lambda>other.
     seq (refuse_if other (reset_invalid 403)) (\<lambda>_.
     seq (refuse_if (slts = [] \<or> (\<exists>s \<in> set slts. s \<notin> PStr ` set slots)) (reset_invalid 400)) (\<lambda>_.
     seq (ask (\<lambda>w. not_before < now + ho_window w - 60)) (\<lambda>short.
     seq (refuse_if short (Top (Refused ''owner_reset_window_short'' 403))) (\<lambda>_.
     let digest = reset_intent_digest (the_dict v) in
     seq (refuse_if (\<not> verify_passphrase cl cs digest psig) passphrase_invalid) (\<lambda>_.
     start_reset_locked fl now rid (the_dict v) iid (map the_str slts) lost not_before digest (the_str psig))))))))))"

section \<open>The open reset, and a host's signed leg\<close>

definition open_reset :: "int \<Rightarrow> string \<Rightarrow> reset_state set \<Rightarrow> host \<Rightarrow> (plane_error + reset_record) \<times> host" where
  "open_reset now iid states =
     seq (ask (get_reset iid)) (\<lambda>found. case found of
       None \<Rightarrow> fail (Top (Refused ''owner_reset_unknown'' 404))
     | Some r \<Rightarrow>
         seq (if rr_state r = Cancelled then ret True else revoked_now now (reset_jti r)) (\<lambda>closed.
         seq (refuse_if closed (Top (Refused ''owner_reset_cancelled'' 403))) (\<lambda>_.
         seq (refuse_if (rr_state r \<notin> states) (Top (Refused ''owner_reset_state'' 409))) (\<lambda>_.
         seq (refuse_if (now < it_not_before (rr_intent r)) (Top (Refused ''owner_reset_early'' 403))) (\<lambda>_.
         seq (refuse_if (reset_expired now r) (Top (Refused ''owner_reset_expired'' 403))) (\<lambda>_.
         ret r))))))"

datatype leg = ArmLeg | AbortLeg

definition leg_nonces :: "leg \<Rightarrow> reset_record \<Rightarrow> string list" where
  "leg_nonces l r = (case l of ArmLeg \<Rightarrow> rr_arm_nonces r | AbortLeg \<Rightarrow> rr_abort_nonces r)"

definition add_nonce :: "leg \<Rightarrow> string \<Rightarrow> reset_record \<Rightarrow> reset_record" where
  "add_nonce l nonce r = (case l of ArmLeg \<Rightarrow> r\<lparr>rr_arm_nonces := rr_arm_nonces r @ [nonce]\<rparr>
     | AbortLeg \<Rightarrow> r\<lparr>rr_abort_nonces := rr_abort_nonces r @ [nonce]\<rparr>)"

definition spend_leg_nonce :: "string \<Rightarrow> leg \<Rightarrow> string \<Rightarrow> host \<Rightarrow> (plane_error + reset_record option) \<times> host" where
  "spend_leg_nonce iid l nonce =
     seq (ask (get_reset iid)) (\<lambda>found. case found of
       None \<Rightarrow> ret None
     | Some r \<Rightarrow>
         seq (refuse_if (nonce \<in> set (leg_nonces l r)) (Top (Refused ''owner_reset_leg_used'' 409))) (\<lambda>_.
         seq (change (put_reset (add_nonce l nonce r))) (\<lambda>_. ret (Some (add_nonce l nonce r)))))"

text \<open>A leg names its fields; \<open>str\<close> of a field that is no text is outside the model.\<close>

definition leg_text :: "(string, pyval) dict \<Rightarrow> string \<Rightarrow> plane_error + string" where
  "leg_text d k = map_sum Top id (text_field Unmodelled d k)"

definition fresh_leg :: "int \<Rightarrow> (string, pyval) dict \<Rightarrow> plane_error + unit" where
  "fresh_leg now d = map_sum Top id (leg_freshness now d)"

section \<open>Arm\<close>

definition armed_reset :: "int \<Rightarrow> string \<Rightarrow> string \<Rightarrow> reset_record \<Rightarrow> reset_record" where
  "armed_reset now slot code_mac r =
     r\<lparr>rr_state := Armed, rr_slot := Some slot, rr_code_hash := Some code_mac, rr_code_expires := now + 600,
       rr_challenge := None, rr_challenge_mac := None, rr_challenge_expires := 0, rr_fresh := None,
       rr_code_attempts := 0\<rparr>"

definition seatable :: "string \<Rightarrow> reset_record \<Rightarrow> bool" where
  "seatable slot r \<longleftrightarrow> slot \<in> set (it_slots (rr_intent r)) \<and> slot \<notin> set (rr_completed r)"

text \<open>The part after the leg is spent: the code is drawn and only its MAC is kept.\<close>

definition arm_open_reset ::
  "int \<Rightarrow> nat \<Rightarrow> (string, pyval) dict \<Rightarrow> string \<Rightarrow> host \<Rightarrow> (plane_error + string \<times> string \<times> int) \<times> host" where
  "arm_open_reset now draw d iid =
     seq (open_reset now iid {Waiting, Armed}) (\<lambda>r.
     seq (lift (leg_text d ''slot'')) (\<lambda>slot.
     seq (refuse_if (\<not> seatable slot r) (reset_invalid 400)) (\<lambda>_.
     seq (refuse_if (rr_state r = Armed \<and> rr_code_expires r > now) (Top (Refused ''owner_reset_armed'' 409))) (\<lambda>_.
     seq (change (change_store (take_cards (dict_keys (rr_cards r))))) (\<lambda>_.
     seq (mac ''code'' (code_text draw)) (\<lambda>code_mac.
     seq (change (put_reset (armed_reset now slot code_mac r))) (\<lambda>_.
     ret (slot, code_text draw, now + 600))))))))"

definition owner_reset_arm ::
  "crypto_lib \<Rightarrow> (string \<Rightarrow> string) \<Rightarrow> int \<Rightarrow> nat \<Rightarrow> pyval \<Rightarrow> pyval \<Rightarrow> host \<Rightarrow> (plane_error + string \<times> string \<times> int) \<times> host" where
  "owner_reset_arm cl fl now draw v psig =
     seq (plane_chain cl fl False) (\<lambda>cs.
     let d = the_dict v in
     seq (refuse_if (\<not> is_dict v \<or> \<not> truthy (get d ''intent_id'') \<or> \<not> truthy (get d ''slot'')
       \<or> \<not> truthy (get d ''nonce'')) (reset_invalid 400)) (\<lambda>_.
     seq (refuse_if (\<not> verify_passphrase cl cs (reset_arm_digest d) psig) passphrase_invalid) (\<lambda>_.
     seq (lift (leg_text d ''intent_id'')) (\<lambda>iid.
     seq (lift (leg_text d ''nonce'')) (\<lambda>nonce.
     seq (spend_leg_nonce iid ArmLeg nonce) (\<lambda>spent.
     seq (lift (fresh_leg now d)) (\<lambda>_.
     seq (case spent of None \<Rightarrow> ret False
          | Some r \<Rightarrow> if rr_state r = Registered then committed_or_unknown fl r else ret False) (\<lambda>committed.
     seq (refuse_if committed (Top (Refused ''owner_reset_state'' 409))) (\<lambda>_.
     arm_open_reset now draw d iid)))))))))"

section \<open>The code, and the device that answers it\<close>

definition code_live :: "int \<Rightarrow> reset_record \<Rightarrow> bool" where
  "code_live now r \<longleftrightarrow> rr_state r = Armed \<and> (\<exists>h. rr_code_hash r = Some h \<and> h \<noteq> []) \<and> rr_code_expires r > now"

definition armed_reset_for_code :: "int \<Rightarrow> string \<Rightarrow> host \<Rightarrow> (plane_error + reset_record option) \<times> host" where
  "armed_reset_for_code now given =
     (if given = [] \<or> \<not> is_ascii given then ret None
      else seq (mac ''code'' given) (\<lambda>m.
        ask (\<lambda>w. find (\<lambda>r. rr_code_hash r = Some m) (filter (code_live now) (list_resets w)))))"

definition redeemed :: "int \<Rightarrow> string \<Rightarrow> reset_record \<Rightarrow> reset_record" where
  "redeemed now challenge_mac r =
     r\<lparr>rr_code_hash := None, rr_challenge := None, rr_challenge_mac := Some challenge_mac, rr_challenge_expires := now + 300\<rparr>"

text \<open>The branch of \<open>_handle_registration_challenge\<close> for a code that opens a reset; \<open>None\<close> when it opens none.\<close>

definition redeem_reset_code ::
  "int \<Rightarrow> string \<Rightarrow> string \<Rightarrow> host \<Rightarrow> (plane_error + (string \<times> int) option) \<times> host" where
  "redeem_reset_code now given token =
     seq (armed_reset_for_code now given) (\<lambda>found. case found of
       None \<Rightarrow> ret None
     | Some r0 \<Rightarrow>
         let challenge = reset_challenge_prefix @ it_id (rr_intent r0) @ '':'' @ token in
         seq (ask (get_reset (rr_id r0))) (\<lambda>again. case again of
           None \<Rightarrow> fail CodeExpired
         | Some r \<Rightarrow>
             seq (refuse_if (rr_state r \<noteq> Armed \<or> rr_code_hash r \<noteq> rr_code_hash r0) CodeExpired) (\<lambda>_.
             seq (reset_open_in now r) (\<lambda>is_open.
             seq (refuse_if (\<not> is_open) CodeExpired) (\<lambda>_.
             seq (mac ''challenge'' challenge) (\<lambda>m.
             seq (change (put_reset (redeemed now m r))) (\<lambda>_.
             ret (Some (challenge, now + 300)))))))))"

definition wrong_code :: "reset_record \<Rightarrow> reset_record" where
  "wrong_code r =
     (let r' = r\<lparr>rr_code_attempts := rr_code_attempts r + 1\<rparr>
      in if rr_code_attempts r' \<ge> reset_code_attempts then r'\<lparr>rr_code_hash := None, rr_code_expires := 0\<rparr> else r')"

fun filter_open :: "int \<Rightarrow> reset_record list \<Rightarrow> host \<Rightarrow> (plane_error + reset_record list) \<times> host" where
  "filter_open now [] = ret []"
| "filter_open now (r # rs) =
     seq (reset_open_in now r) (\<lambda>b. seq (filter_open now rs) (\<lambda>live. ret (if b then r # live else live)))"

definition count_reset_code_failure :: "int \<Rightarrow> host \<Rightarrow> (plane_error + unit) \<times> host" where
  "count_reset_code_failure now =
     seq (ask list_resets) (\<lambda>rs.
     seq (filter_open now (filter (code_live now) rs)) (\<lambda>live.
     change (fold (\<lambda>r. put_reset (wrong_code r)) live)))"

text \<open>The reset a challenge belongs to: the stored form of a challenge is its MAC.\<close>

definition challenge_held :: "reset_record \<Rightarrow> bool" where
  "challenge_held r \<longleftrightarrow> rr_state r = Armed \<and> (\<exists>h. rr_challenge_mac r = Some h \<and> h \<noteq> [])"

definition reset_for_challenge :: "int \<Rightarrow> string \<Rightarrow> host \<Rightarrow> (plane_error + reset_record option) \<times> host" where
  "reset_for_challenge now challenge =
     (if \<not> is_ascii challenge then ret None
      else seq (ask (\<lambda>w. filter challenge_held (list_resets w))) (\<lambda>rs.
        if rs = [] then ret None
        else seq (mac ''challenge'' challenge) (\<lambda>m.
          ret (find (\<lambda>r. rr_challenge_mac r = Some m \<and> rr_challenge_expires r > now) rs))))"

definition registered_reset :: "proved_phone \<Rightarrow> reset_record \<Rightarrow> reset_record" where
  "registered_reset rq r =
     r\<lparr>rr_state := Registered, rr_challenge := Some (pq_challenge rq), rr_challenge_mac := None, rr_challenge_expires := 0,
       rr_fresh := Some \<lparr>fd_key = pq_key rq, fd_algorithm = hd (pq_algorithms rq), fd_proof = pq_proof rq,
         fd_poll_key = pp_poll_key rq, fd_label = pq_label rq, fd_push_token = pp_push_token rq,
         fd_push_platform = pp_push_platform rq\<rparr>\<rparr>"

text \<open>Under the registry lock: a re-arm or a cancel since the challenge was issued wins.\<close>

definition register_locked ::
  "crypto_lib \<Rightarrow> (string \<Rightarrow> string) \<Rightarrow> int \<Rightarrow> proved_phone \<Rightarrow> reset_record \<Rightarrow> host \<Rightarrow> (plane_error + string) \<times> host" where
  "register_locked cl fl now rq r0 =
     seq (reset_for_challenge now (pq_challenge rq)) (\<lambda>again. case again of
       None \<Rightarrow> fail CodeExpired
     | Some r \<Rightarrow>
         seq (refuse_if (rr_id r \<noteq> rr_id r0) CodeExpired) (\<lambda>_.
         seq (reset_open_in now r) (\<lambda>is_open.
         seq (refuse_if (\<not> is_open) CodeExpired) (\<lambda>_.
         seq (\<lambda>w. (map_sum Top id (top_chain_state cl fl (Some (ho_files w)) (ho_expect w)), w)) (\<lambda>cs.
         seq (ask (\<lambda>w. get_phone (phone_ref_of (pq_key rq)) (ho_store w) \<noteq> None
              \<or> is_current_member cs (pq_key rq))) (\<lambda>known.
         seq (refuse_if known (Top (Refused ''owner_reset_key_known'' 409))) (\<lambda>_.
         seq (change (put_reset (registered_reset rq r))) (\<lambda>_.
         ret (phone_ref_of (pq_key rq))))))))))"

text \<open>\<open>_handle_register\<close> on a reset's challenge; \<open>None\<close> when the challenge is no reset's, and the handler goes on.\<close>

definition register_fresh_device ::
  "crypto_lib \<Rightarrow> (string \<Rightarrow> string) \<Rightarrow> int \<Rightarrow> (string, pyval) dict \<Rightarrow> host \<Rightarrow> (plane_error + string option) \<times> host" where
  "register_fresh_device cl fl now body =
     seq (lift (map_sum ProofRefused id (read_phone_request body))) (\<lambda>rq.
     if \<not> startswith (pq_challenge rq) reset_challenge_prefix then ret None
     else seq (reset_for_challenge now (pq_challenge rq)) (\<lambda>found. case found of
       None \<Rightarrow> ret None
     | Some r0 \<Rightarrow>
         seq (lift (map_sum ProofRefused id (prove_phone cl body rq))) (\<lambda>proved.
         seq (register_locked cl fl now proved r0) (\<lambda>ref. ret (Some ref)))))"

section \<open>Complete\<close>

definition reset_meta :: "reset_record \<Rightarrow> string \<Rightarrow> string \<Rightarrow> string" where
  "reset_meta r slot challenge =
     (let d = it_raw (rr_intent r) in
      canonical_meta [(''intent_id'', get d ''intent_id''), (''slot'', PStr slot), (''lost'', get d ''lost''),
        (''not_before'', get d ''not_before''), (''challenge'', PStr challenge)])"

definition reset_draft :: "chain_state \<Rightarrow> reset_record \<Rightarrow> plane_error + draft" where
  "reset_draft cs r = (case (rr_fresh r, rr_slot r, rr_challenge r) of
     (Some fresh, Some slot, Some challenge) \<Rightarrow>
       (case (dict_get slot_kind slot, unb64u (fd_key fresh)) of
          (Some knd, Inr raw) \<Rightarrow> Inr \<lparr>dr_op = ''reset'', dr_kind = knd, dr_value = raw, dr_algorithm = fd_algorithm fresh,
             dr_seq = int (chain_length cs), dr_prev = tip_hash cs, dr_meta = Some (reset_meta r slot challenge)\<rparr>
        | _ \<Rightarrow> Inl (Top Unmodelled))
   | _ \<Rightarrow> Inl (Top Unmodelled))"

text \<open>The entry of a reset that is not on the chain: the passphrase signs its digest, the fresh device's
  registration proof is the other leg.\<close>

definition append_reset ::
  "crypto_lib \<Rightarrow> (string \<Rightarrow> string) \<Rightarrow> int \<Rightarrow> string \<Rightarrow> pyval \<Rightarrow> chain_state \<Rightarrow> host
     \<Rightarrow> (plane_error + reset_record \<times> chain_state option) \<times> host" where
  "append_reset cl fl now iid psig cs =
     seq (open_reset now iid {Registered}) (\<lambda>r.
     seq (lift (reset_draft cs r)) (\<lambda>d.
     seq (lift (map_sum Top id (draft_message cs d))) (\<lambda>message.
     seq (refuse_if (\<not> verify_passphrase cl cs message psig) passphrase_invalid) (\<lambda>_.
     seq (try_append cl fl now (record_of d [the_str psig, fd_proof (the (rr_fresh r))])) (\<lambda>post.
     seq (refuse_if (post = None) (Top (Refused ''top_plane_chain_refused'' 409))) (\<lambda>_.
     ret (r, post)))))))"

text \<open>The chain's side of a completion: the record, and the chain's state when this call appended.\<close>

definition complete_chain ::
  "crypto_lib \<Rightarrow> (string \<Rightarrow> string) \<Rightarrow> int \<Rightarrow> string \<Rightarrow> pyval \<Rightarrow> host
     \<Rightarrow> (plane_error + reset_record \<times> chain_state option) \<times> host" where
  "complete_chain cl fl now iid psig =
     seq (ask (get_reset iid)) (\<lambda>stored.
     seq (plane_chain cl fl False) (\<lambda>cs.
     seq (case stored of None \<Rightarrow> ret False
          | Some r \<Rightarrow> if rr_state r = Registered then reset_entry_on_chain fl r else ret False) (\<lambda>committed.
     if committed then ret (the stored, None) else append_reset cl fl now iid psig cs)))"

definition owner_reset_complete ::
  "crypto_lib \<Rightarrow> (string \<Rightarrow> string) \<Rightarrow> int \<Rightarrow> string \<Rightarrow> pyval \<Rightarrow> host
     \<Rightarrow> (plane_error + string option \<times> string option) \<times> host" where
  "owner_reset_complete cl fl now iid psig =
     seq (complete_chain cl fl now iid psig) (\<lambda>(r, post).
     seq (finish_reset_seat cl fl now r post) (\<lambda>ref. ret (rr_slot r, ref)))"

section \<open>Abort, cancel, status\<close>

definition reset_revocation :: "int \<Rightarrow> string \<Rightarrow> reset_record \<Rightarrow> revocation_entry" where
  "reset_revocation now why r = \<lparr>rev_jti = reset_jti r, rev_at = now,
     rev_original_exp = it_not_before (rr_intent r) + 365 * 86400, rev_reason = Some why\<rparr>"

definition abort_record ::
  "crypto_lib \<Rightarrow> (string \<Rightarrow> string) \<Rightarrow> int \<Rightarrow> reset_record \<Rightarrow> host \<Rightarrow> (plane_error + string) \<times> host" where
  "abort_record cl fl now r =
     seq (refuse_if (rr_state r \<notin> open_states) (Top (Refused ''owner_reset_unknown'' 404))) (\<lambda>_.
     seq (if rr_state r = Registered then reset_entry_on_chain fl r else ret False) (\<lambda>committed.
     if committed then seq (finish_reset_seat cl fl now r None) (\<lambda>_. fail (Top (Refused ''owner_reset_committed'' 409)))
     else seq (change (change_store (take_cards (dict_keys (rr_cards r))))) (\<lambda>_.
       seq (change (change_store (add_revocation now
         (reset_revocation now ''aborted: owner reset, by the passphrase on the host'' r)))) (\<lambda>_.
       seq (change (put_reset (r\<lparr>rr_state := Aborted, rr_code_hash := None, rr_challenge := None,
         rr_challenge_mac := None, rr_fresh := None\<rparr>))) (\<lambda>_.
       ret (rr_id r))))))"

definition owner_reset_abort ::
  "crypto_lib \<Rightarrow> (string \<Rightarrow> string) \<Rightarrow> int \<Rightarrow> pyval \<Rightarrow> pyval \<Rightarrow> host \<Rightarrow> (plane_error + string) \<times> host" where
  "owner_reset_abort cl fl now v psig =
     seq (plane_chain cl fl False) (\<lambda>cs.
     let d = the_dict v in
     seq (refuse_if (\<not> is_dict v \<or> \<not> truthy (get d ''intent_id'') \<or> \<not> truthy (get d ''nonce'')) (reset_invalid 400)) (\<lambda>_.
     seq (refuse_if (\<not> verify_passphrase cl cs (reset_abort_digest d) psig) passphrase_invalid) (\<lambda>_.
     seq read_chain_or_refuse (\<lambda>_.
     seq (lift (leg_text d ''intent_id'')) (\<lambda>iid.
     seq (lift (leg_text d ''nonce'')) (\<lambda>nonce.
     seq (spend_leg_nonce iid AbortLeg nonce) (\<lambda>spent.
     seq (lift (fresh_leg now d)) (\<lambda>_. case spent of
       None \<Rightarrow> fail (Top (Refused ''owner_reset_unknown'' 404))
     | Some r \<Rightarrow> abort_record cl fl now r))))))))"

text \<open>The reset's branch of \<open>_respond_top_plane_card\<close>: an owner phone's approval cancels.\<close>

definition cancel_reset :: "int \<Rightarrow> reset_record \<Rightarrow> phone \<Rightarrow> host \<Rightarrow> (plane_error + unit) \<times> host" where
  "cancel_reset now r p =
     seq (refuse_if (ph_slot p \<notin> set slots) PhoneUnknown) (\<lambda>_.
     seq (change (change_store (take_cards (dict_keys (rr_cards r))))) (\<lambda>_.
     seq (change (change_store (add_revocation now
       (reset_revocation now ''cancelled: owner reset, by an owner phone'' r)))) (\<lambda>_.
     change (put_reset (r\<lparr>rr_state := Cancelled, rr_cancelled_by := Some (ph_id p)\<rparr>)))))"

record reset_status =
  rs_state :: string
  rs_slot :: "string option"
  rs_challenge :: "string option"
  rs_fresh :: "(string \<times> string) option"
  rs_committed :: bool

definition state_text :: "reset_state \<Rightarrow> string" where
  "state_text s = (case s of Waiting \<Rightarrow> ''open'' | Armed \<Rightarrow> ''open'' | Registered \<Rightarrow> ''registered''
     | Completed \<Rightarrow> ''completed'' | Cancelled \<Rightarrow> ''cancelled'' | Aborted \<Rightarrow> ''aborted'')"

definition owner_reset_status :: "(string \<Rightarrow> string) \<Rightarrow> string \<Rightarrow> host \<Rightarrow> (plane_error + reset_status) \<times> host" where
  "owner_reset_status fl iid =
     seq (ask (get_reset iid)) (\<lambda>found. case found of
       None \<Rightarrow> fail (Top (Refused ''owner_reset_unknown'' 404))
     | Some r \<Rightarrow>
         seq (if rr_state r = Registered then reset_entry_on_chain fl r else ret False) (\<lambda>committed.
         ret \<lparr>rs_state = state_text (rr_state r), rs_slot = (if state_text (rr_state r) = ''open'' then None else rr_slot r),
           rs_challenge = (if rr_state r = Registered then rr_challenge r else None),
           rs_fresh = map_option (\<lambda>f. (fd_key f, fd_algorithm f)) (rr_fresh r), rs_committed = committed\<rparr>))"

end
