(* ===== verification/TopActs.thy ===== *)
theory TopActs
  imports OwnerReset
begin

text \<open>
  Top-plane acts (\<^verbatim>\<open>src/recto/bootloader/server.py\<close>): the host opens one that it drafted on the chain's
  tip and signed with the passphrase, every sealed owner device is carded with the same 32 bytes, and a
  device's approval appends the entry. The answer to a card is one handler for acts and resets. With
  them the derivation of the bootloader's id and what a start does with the records.
\<close>

section \<open>The derived id\<close>

definition bootloader_id_derivation_v1 :: string where "bootloader_id_derivation_v1 = ''recto-bootloader-id-v1''"
definition bootloader_id_prefix :: string where "bootloader_id_prefix = ''rb1-''"

definition framed_key :: "bytes \<Rightarrow> bytes" where
  "framed_key k = to_bytes_fixed 4 (length k) @ k"

definition id_preimage :: "bytes list \<Rightarrow> bytes" where
  "id_preimage ks = utf8 bootloader_id_derivation_v1 @ concat (map framed_key (sort (remdups ks)))"

text \<open>\<open>None\<close> is the \<open>ValueError\<close>.\<close>

definition derive_bootloader_id :: "bytes option \<Rightarrow> bytes list \<Rightarrow> string option" where
  "derive_bootloader_id operator ms = (case operator of None \<Rightarrow> None
     | Some k \<Rightarrow> if k = [] then None
         else Some (bootloader_id_prefix @ take 32 (hexlify (sha256 (id_preimage (k # ms))))))"

section \<open>Opening an act\<close>

definition kind_refused :: plane_error where "kind_refused = Top (Refused ''top_plane_kind_refused'' 400)"

definition op_refusal :: "draft \<Rightarrow> plane_error + unit" where
  "op_refusal d =
     (if dr_op d \<notin> {''seal-id'', ''rotate-operator'', ''add'', ''remove''} then Inl (Top (Refused ''top_plane_op_refused'' 400))
      else if dr_op d = ''add'' \<and> dr_kind d \<notin> set device_kinds \<and> dr_kind d \<noteq> ''passphrase'' then Inl kind_refused
      else if dr_op d = ''remove'' \<and> dr_kind d \<notin> set device_kinds then Inl kind_refused
      else Inr ())"

definition removal_mismatch :: "chain_state \<Rightarrow> draft \<Rightarrow> bool" where
  "removal_mismatch cs d \<longleftrightarrow> dr_op d = ''remove'' \<and> (case dict_get (members cs) (dr_kind d) of
     None \<Rightarrow> True | Some m \<Rightarrow> ce_pubkey m \<noteq> dr_value d \<or> ce_algorithm m \<noteq> dr_algorithm d)"

text \<open>A field of the seal's recorded inputs, \<open>None\<close> where the code catches what it raises.\<close>

definition seal_field :: "(string \<Rightarrow> string) \<Rightarrow> draft \<Rightarrow> string \<Rightarrow> plane_error + pyval option" where
  "seal_field fl d k = (case json_loads fl (case dr_meta d of None \<Rightarrow> [] | Some s \<Rightarrow> s) of
     Inl e \<Rightarrow> if e = JsonUnmodelled then Inl (Top Unmodelled) else Inr None
   | Inr v \<Rightarrow> Inr (if is_dict v then dict_get (the_dict v) k else None))"

definition recorded_members :: "pyval option \<Rightarrow> bytes list option" where
  "recorded_members v = (case v of None \<Rightarrow> None | Some x \<Rightarrow> (case iterate x of Inl _ \<Rightarrow> None
     | Inr hs \<Rightarrow> if \<exists>h \<in> set hs. \<not> is_str h \<or> fromhex (the_str h) = None then None
         else Some (map (\<lambda>h. the (fromhex (the_str h))) hs)))"

definition check_seal_draft :: "(string \<Rightarrow> string) \<Rightarrow> draft \<Rightarrow> host \<Rightarrow> (plane_error + unit) \<times> host" where
  "check_seal_draft fl d =
     seq (ask (\<lambda>w. ascii_text (dr_value d) \<noteq> Some (ho_id w))) (\<lambda>other.
     seq (refuse_if other (Top (Refused ''top_plane_seal_mismatch'' 403))) (\<lambda>_.
     seq (ask (\<lambda>w. ho_derived_id w \<in> {None, Some []} \<or> Some (ho_id w) \<noteq> ho_derived_id w)) (\<lambda>configured.
     seq (refuse_if configured (Top (Refused ''top_plane_seal_not_derived'' 403))) (\<lambda>_.
     seq (lift (seal_field fl d ''operator_pubkey'')) (\<lambda>recorded.
     seq (ask (\<lambda>w. ho_operator w \<in> {None, Some []} \<or> recorded \<noteq> Some (PStr (hexlify (the (ho_operator w)))))) (\<lambda>foreign.
     seq (refuse_if foreign (Top (Refused ''top_plane_seal_operator_mismatch'' 400))) (\<lambda>_.
     seq (lift (seal_field fl d ''identity_members'')) (\<lambda>inputs.
     seq (ask (\<lambda>w. case recorded_members inputs of None \<Rightarrow> True
            | Some ms \<Rightarrow> derive_bootloader_id (ho_operator w) ms \<noteq> Some (ho_id w))) (\<lambda>stale_inputs.
     refuse_if stale_inputs (Top (Refused ''top_plane_seal_inputs_mismatch'' 400)))))))))))"

definition unregistered_device :: "draft \<Rightarrow> store \<Rightarrow> bool" where
  "unregistered_device d st \<longleftrightarrow> dr_op d = ''add'' \<and> dr_kind d \<in> set device_kinds
     \<and> (case find (\<lambda>p. ph_key p = b64_encode (dr_value d)) (list_phones st) of None \<Rightarrow> True
        | Some p \<Rightarrow> find (\<lambda>(s, k). k = dr_kind d) slot_kind \<noteq> Some (ph_slot p, dr_kind d)
            \<or> registered_algorithm p \<noteq> dr_algorithm d)"

definition carded_phones :: "draft \<Rightarrow> chain_state \<Rightarrow> store \<Rightarrow> phone list" where
  "carded_phones d cs st = (let ps = device_member_phones st cs
     in if dr_op d = ''remove'' then filter (\<lambda>p. b64_encode (dr_value d) \<noteq> ph_key p) ps else ps)"

fun acts_of :: "plane_record list \<Rightarrow> top_act list" where
  "acts_of [] = []"
| "acts_of (ActRow a # rs) = a # acts_of rs"
| "acts_of (ResetRow r # rs) = acts_of rs"

definition list_acts :: "host \<Rightarrow> top_act list" where
  "list_acts w = acts_of (dict_values (ho_records w))"

definition pending_act :: "int \<Rightarrow> string \<Rightarrow> draft \<Rightarrow> bytes \<Rightarrow> string \<Rightarrow> (string, string) dict \<Rightarrow> top_act" where
  "pending_act now rid d message psig cards =
     \<lparr>ar_id = rid, ar_state = ActPending, ar_draft = d, ar_message = message, ar_passphrase_sig = psig, ar_cards = cards,
      ar_created = now, ar_expires = now + act_card_ttl_seconds\<rparr>"

text \<open>What is checked before the registry lock: the message, and the phones to card.\<close>

definition check_act ::
  "crypto_lib \<Rightarrow> (string \<Rightarrow> string) \<Rightarrow> int \<Rightarrow> draft \<Rightarrow> pyval \<Rightarrow> host \<Rightarrow> (plane_error + bytes \<times> phone list) \<times> host" where
  "check_act cl fl now d psig =
     seq (lift (op_refusal d)) (\<lambda>_.
     seq (plane_chain cl fl (dr_op d = ''seal-id'')) (\<lambda>cs.
     seq (refuse_if (removal_mismatch cs d) (Top (Refused ''top_plane_remove_mismatch'' 400))) (\<lambda>_.
     seq (if dr_op d = ''seal-id'' then check_seal_draft fl d else ret ()) (\<lambda>_.
     seq (ask (\<lambda>w. unregistered_device d (ho_store w))) (\<lambda>unregistered.
     seq (refuse_if unregistered (Top (Refused ''top_plane_device_unregistered'' 400))) (\<lambda>_.
     seq (lift (map_sum Top id (act_freshness fl now d))) (\<lambda>_.
     seq (lift (map_sum Top id (draft_message cs d))) (\<lambda>message.
     seq (refuse_if (\<not> verify_passphrase cl cs message psig) passphrase_invalid) (\<lambda>_.
     seq (ask (\<lambda>w. carded_phones d cs (ho_store w))) (\<lambda>ps.
     seq (refuse_if (ps = []) (Top (Refused ''top_plane_no_device_phone'' 403))) (\<lambda>_.
     ret (message, ps))))))))))))"

definition card_act ::
  "int \<Rightarrow> string \<Rightarrow> (nat \<Rightarrow> string) \<Rightarrow> draft \<Rightarrow> bytes \<Rightarrow> phone list \<Rightarrow> string \<Rightarrow> host \<Rightarrow> (plane_error + string \<times> nat \<times> int) \<times> host" where
  "card_act now i rid d message ps psig = (case describe d of
     None \<Rightarrow> fail (Top Unmodelled)
   | Some txt \<Rightarrow>
       seq (ask (\<lambda>w. card_devices now i txt message ps act_card_ttl_seconds rid (ho_store w))) (\<lambda>(cards, st).
       seq (change (\<lambda>w. put_act (pending_act now i d message psig cards) (w\<lparr>ho_store := st\<rparr>))) (\<lambda>_.
       ret (i, length cards, now + act_card_ttl_seconds))))"

definition top_plane_open ::
  "crypto_lib \<Rightarrow> (string \<Rightarrow> string) \<Rightarrow> int \<Rightarrow> string \<Rightarrow> (nat \<Rightarrow> string) \<Rightarrow> pyval \<Rightarrow> pyval \<Rightarrow> host
     \<Rightarrow> (plane_error + string \<times> nat \<times> int) \<times> host" where
  "top_plane_open cl fl now token rid v psig =
     seq (lift (map_sum Top id (draft_from_wire v))) (\<lambda>d.
     seq (check_act cl fl now d psig) (\<lambda>(message, ps).
     seq (ask (\<lambda>w. list_ex (\<lambda>a. ar_message a = message) (list_acts w))) (\<lambda>used.
     seq (refuse_if used (Top (Refused ''top_plane_draft_used'' 409))) (\<lambda>_.
     card_act now (''act-'' @ token) rid d message ps (the_str psig)))))"

section \<open>A device's answer\<close>

text \<open>The record of a card that can be answered.\<close>

fun answerable :: "int \<Rightarrow> string \<Rightarrow> plane_record \<Rightarrow> bool" where
  "answerable now rid (ActRow a) = (dict_get (ar_cards a) rid \<noteq> None \<and> ar_state a = ActPending \<and> ar_expires a > now)"
| "answerable now rid (ResetRow r) = (dict_get (rr_cards r) rid \<noteq> None \<and> rr_state r = Waiting)"

definition record_for_card :: "int \<Rightarrow> string \<Rightarrow> host \<Rightarrow> plane_record option" where
  "record_for_card now rid w = find (answerable now rid) (dict_values (ho_records w))"

fun record_card :: "string \<Rightarrow> plane_record \<Rightarrow> string" where
  "record_card rid (ActRow a) = the (dict_get (ar_cards a) rid)"
| "record_card rid (ResetRow r) = the (dict_get (rr_cards r) rid)"

fun record_message :: "plane_record \<Rightarrow> bytes" where
  "record_message (ActRow a) = ar_message a"
| "record_message (ResetRow r) = rr_message r"

definition refuse_act :: "top_act \<Rightarrow> plane_error \<Rightarrow> host \<Rightarrow> (plane_error + unit) \<times> host" where
  "refuse_act a e = seq (change (put_act (a\<lparr>ar_state := ActRefused\<rparr>))) (\<lambda>_. fail e)"

definition check_gate ::
  "crypto_lib \<Rightarrow> (string \<Rightarrow> string) \<Rightarrow> top_act \<Rightarrow> string \<Rightarrow> host \<Rightarrow> (plane_error + bool) \<times> host" where
  "check_gate cl fl a sig w = (case (unb64u (ar_passphrase_sig a), unb64u sig) of
     (Inr p, Inr s) \<Rightarrow> (case verify_top_plane cl fl (ar_message a) [p, s] (ho_files w) of
        Inr r \<Rightarrow> ret (tp_met r) w
      | Inl (SetRaised e) \<Rightarrow> fail (Top (Raised e)) w
      | Inl _ \<Rightarrow> ret False w)
   | _ \<Rightarrow> fail (Top Unmodelled) w)"

text \<open>The entry appends, unless a fault had left it on the chain already; then the registry follows.\<close>

definition settle_act ::
  "crypto_lib \<Rightarrow> (string \<Rightarrow> string) \<Rightarrow> int \<Rightarrow> top_act \<Rightarrow> phone \<Rightarrow> string \<Rightarrow> bool \<Rightarrow> host \<Rightarrow> (plane_error + unit) \<times> host" where
  "settle_act cl fl now a p sig committed =
     (if committed then finish_act cl fl now a (ar_draft a) (Some (ph_id p)) None
      else seq (try_append cl fl now (record_of (ar_draft a) [ar_passphrase_sig a, sig])) (\<lambda>post.
        seq (if post = None then refuse_act a (Top (Refused ''top_plane_chain_refused'' 409)) else ret ()) (\<lambda>_.
        finish_act cl fl now a (ar_draft a) (Some (ph_id p)) post)))"

definition answer_act ::
  "crypto_lib \<Rightarrow> (string \<Rightarrow> string) \<Rightarrow> int \<Rightarrow> top_act \<Rightarrow> phone \<Rightarrow> string \<Rightarrow> host \<Rightarrow> (plane_error + unit) \<times> host" where
  "answer_act cl fl now a p sig = (let d = ar_draft a in
     seq (act_entry_on_chain d) (\<lambda>committed.
     seq (change (change_store (take_cards (dict_keys (ar_cards a))))) (\<lambda>_.
     seq (ask (\<lambda>w. dr_op d = ''seal-id'' \<and> \<not> committed \<and> ascii_text (dr_value d) \<noteq> Some (ho_id w))) (\<lambda>other.
     seq (if other then refuse_act a (Top (Refused ''top_plane_seal_mismatch'' 409)) else ret ()) (\<lambda>_.
     seq (if dr_op d \<noteq> ''seal-id'' \<and> \<not> committed then check_gate cl fl a sig else ret True) (\<lambda>met.
     seq (if met then ret () else refuse_act a (Top (Refused ''top_plane_gate_refused'' 403))) (\<lambda>_.
     settle_act cl fl now a p sig committed)))))))"

definition respond_card ::
  "crypto_lib \<Rightarrow> (string \<Rightarrow> string) \<Rightarrow> int \<Rightarrow> string \<Rightarrow> pyval \<Rightarrow> string \<Rightarrow> host \<Rightarrow> (plane_error + unit) \<times> host" where
  "respond_card cl fl now rid decision sig =
     seq (refuse_if (decision \<noteq> PStr ''approved'') (Top (Refused ''top_plane_not_denied_unsigned'' 409))) (\<lambda>_.
     seq (ask (record_for_card now rid)) (\<lambda>found. case found of
       None \<Rightarrow> fail CardNotFound
     | Some r \<Rightarrow>
         seq (ask (\<lambda>w. get_phone (record_card rid r) (ho_store w))) (\<lambda>carded. case carded of
           None \<Rightarrow> fail PhoneUnknown
         | Some p \<Rightarrow>
             seq (lift (map_sum ProofRefused id (signed_with cl (record_message r) sig (ph_key p) (registered_algorithm p)
               ProofInvalid))) (\<lambda>_. case r of
                 ResetRow rr \<Rightarrow> cancel_reset now rr p
               | ActRow a \<Rightarrow> answer_act cl fl now a p sig))))"

section \<open>A start\<close>

definition dead_code :: "reset_record \<Rightarrow> bool" where
  "dead_code r \<longleftrightarrow> rr_state r = Armed \<and> (rr_code_hash r \<notin> {None, Some []} \<or> rr_challenge_mac r \<notin> {None, Some []})"

definition code_cleared :: "reset_record \<Rightarrow> reset_record" where
  "code_cleared r = r\<lparr>rr_code_hash := None, rr_code_expires := 0, rr_challenge_mac := None, rr_challenge_expires := 0\<rparr>"

definition clear_dead_reset_codes :: "host \<Rightarrow> host" where
  "clear_dead_reset_codes w = fold (\<lambda>r. put_reset (code_cleared r)) (filter dead_code (list_resets w)) w"

text \<open>One record never stops the start: what its work raises is dropped, what it wrote stays.\<close>

definition attempt :: "(host \<Rightarrow> (plane_error + 'a) \<times> host) \<Rightarrow> host \<Rightarrow> (plane_error + unit) \<times> host" where
  "attempt m w = (case m w of
     (Inl (Top Unmodelled), w') \<Rightarrow> (Inl (Top Unmodelled), w') | (_, w') \<Rightarrow> (Inr (), w'))"

fun roll_forward_record ::
  "crypto_lib \<Rightarrow> (string \<Rightarrow> string) \<Rightarrow> int \<Rightarrow> plane_record \<Rightarrow> host \<Rightarrow> (plane_error + unit) \<times> host" where
  "roll_forward_record cl fl now (ResetRow r) =
     (if rr_state r \<noteq> Registered then ret ()
      else seq (reset_entry_on_chain fl r) (\<lambda>committed.
        if committed then seq (finish_reset_seat cl fl now r None) (\<lambda>_. ret ()) else ret ()))"
| "roll_forward_record cl fl now (ActRow a) =
     (if ar_state a = ActAppended then ret ()
      else seq (act_entry_on_chain (ar_draft a)) (\<lambda>committed.
        if committed then finish_act cl fl now a (ar_draft a) None None else ret ()))"

fun roll_forward_all ::
  "crypto_lib \<Rightarrow> (string \<Rightarrow> string) \<Rightarrow> int \<Rightarrow> plane_record list \<Rightarrow> host \<Rightarrow> (plane_error + unit) \<times> host" where
  "roll_forward_all cl fl now [] = ret ()"
| "roll_forward_all cl fl now (r # rs) =
     seq (attempt (roll_forward_record cl fl now r)) (\<lambda>_. roll_forward_all cl fl now rs)"

definition roll_forward_committed ::
  "crypto_lib \<Rightarrow> (string \<Rightarrow> string) \<Rightarrow> int \<Rightarrow> host \<Rightarrow> (plane_error + unit) \<times> host" where
  "roll_forward_committed cl fl now w = (case genesis_chain_state cl fl (ho_files w) of
     Inl ChainUnmodelled \<Rightarrow> fail (Top Unmodelled) w
   | Inl _ \<Rightarrow> ret () w
   | Inr _ \<Rightarrow> roll_forward_all cl fl now (dict_values (ho_records w)) w)"

text \<open>The cancel cards of the open resets, under their recorded identifiers where a phone held one.\<close>

definition recard_text :: "reset_record \<Rightarrow> string" where
  "recard_text r = (if rr_text r = [] then ''AN OWNER RESET IS OPEN. APPROVE = CANCEL IT.'' else rr_text r)"

definition recard_one :: "int \<Rightarrow> (nat \<Rightarrow> string) \<Rightarrow> reset_record \<Rightarrow> host \<Rightarrow> host" where
  "recard_one now rid r w =
     (let recorded = map (\<lambda>(card_id, phone_id). (phone_id, card_id)) (rev (rr_cards r));
          (cards, st) = fold (\<lambda>(i, p) (cards, s).
              let cid = (case dict_get recorded (ph_id p) of None \<Rightarrow> rid i | Some c \<Rightarrow> c)
              in (dict_set cid (ph_id p) cards, add_pending (device_card now (rr_id r) (recard_text r) (rr_message r)
                    (max 60 (it_not_before (rr_intent r) - now)) cid p) s))
            (enumerate 0 (owners_of (ho_store w))) ([], ho_store w)
      in put_reset (r\<lparr>rr_cards := cards\<rparr>) (w\<lparr>ho_store := st\<rparr>))"

fun recard_all :: "int \<Rightarrow> (nat \<Rightarrow> nat \<Rightarrow> string) \<Rightarrow> reset_record list \<Rightarrow> host \<Rightarrow> (plane_error + unit) \<times> host" where
  "recard_all now rid [] = ret ()"
| "recard_all now rid (r # rs) =
     (if rr_state r \<noteq> Waiting then recard_all now rid rs
      else seq (reset_open_in now r) (\<lambda>is_open.
        seq (change (if is_open \<and> it_not_before (rr_intent r) > now then recard_one now (rid (length rs)) r else id)) (\<lambda>_.
        recard_all now rid rs)))"

definition recard_open_resets :: "int \<Rightarrow> (nat \<Rightarrow> nat \<Rightarrow> string) \<Rightarrow> host \<Rightarrow> (plane_error + unit) \<times> host" where
  "recard_open_resets now rid = seq (ask list_resets) (recard_all now rid)"

text \<open>The three calls of \<open>create_server\<close>, after the key is drawn.\<close>

definition start_plane ::
  "crypto_lib \<Rightarrow> (string \<Rightarrow> string) \<Rightarrow> int \<Rightarrow> bytes \<Rightarrow> (nat \<Rightarrow> nat \<Rightarrow> string) \<Rightarrow> host \<Rightarrow> (plane_error + unit) \<times> host" where
  "start_plane cl fl now key rid =
     seq (change (\<lambda>w. w\<lparr>ho_code_key := key\<rparr>)) (\<lambda>_.
     seq (change clear_dead_reset_codes) (\<lambda>_.
     seq (roll_forward_committed cl fl now) (\<lambda>_.
     recard_open_resets now rid)))"

end
