(* ===== verification/PlaneMoves.thy ===== *)
theory PlaneMoves
  imports TopActs "HOL-Library.Sublist"
begin

text \<open>
  The moves of the top plane: what a handler of \<open>OwnerReset\<close> or \<open>TopActs\<close> may do to the stored records, as
  a relation, and the proof that every handler, refusals included, does only that. The steps of a
  reset's record are \<open>reset_step\<close> and \<open>reset_close\<close>; \<open>quiet\<close> is a part of a handler that reads, refuses,
  or works on the registry and the chain.
\<close>

section \<open>The moves of a record\<close>

inductive reset_step :: "int \<Rightarrow> reset_record \<Rightarrow> reset_record \<Rightarrow> bool" for now where
  Nonce: "nonce \<notin> set (leg_nonces l r) \<Longrightarrow> reset_step now r (add_nonce l nonce r)"
| Arm: "rr_state r \<in> {Waiting, Armed} \<Longrightarrow> it_not_before (rr_intent r) \<le> now \<Longrightarrow> \<not> reset_expired now r
    \<Longrightarrow> seatable slot r \<Longrightarrow> \<not> (rr_state r = Armed \<and> rr_code_expires r > now)
    \<Longrightarrow> reset_step now r (armed_reset now slot m r)"
| Redeem: "rr_state r = Armed \<Longrightarrow> \<not> reset_expired now r \<Longrightarrow> rr_code_hash r \<noteq> None \<Longrightarrow> reset_step now r (redeemed now m r)"
| Wrong: "code_live now r \<Longrightarrow> \<not> reset_expired now r \<Longrightarrow> reset_step now r (wrong_code r)"
| Answer: "rr_state r = Armed \<Longrightarrow> \<not> reset_expired now r \<Longrightarrow> rr_challenge_mac r \<noteq> None
    \<Longrightarrow> startswith (pq_challenge rq) reset_challenge_prefix \<Longrightarrow> reset_step now r (registered_reset rq r)"
| Seat: "rr_state r = Registered \<Longrightarrow> rr_slot r = Some slot \<Longrightarrow> reset_step now r (seat_done slot r)"
| Clear: "rr_state r = Armed \<Longrightarrow> reset_step now r (code_cleared r)"
| Recard: "rr_state r = Waiting \<Longrightarrow> reset_step now r (r\<lparr>rr_cards := cards\<rparr>)"

text \<open>The two ways a reset is ended early.\<close>

inductive reset_close :: "reset_record \<Rightarrow> reset_record \<Rightarrow> bool" where
  Abort: "rr_state r \<in> open_states \<Longrightarrow> reset_close r (r\<lparr>rr_state := Aborted, rr_code_hash := None,
    rr_challenge := None, rr_challenge_mac := None, rr_fresh := None\<rparr>)"
| Cancel: "rr_state r = Waiting \<Longrightarrow> reset_close r (r\<lparr>rr_state := Cancelled, rr_cancelled_by := Some p\<rparr>)"

definition revoked_in :: "host \<Rightarrow> string \<Rightarrow> bool" where
  "revoked_in w jti \<longleftrightarrow> dict_get (revocations (ho_store w)) jti \<noteq> None"

text \<open>Other routes leave the records alone and refuse a reset's identifier (\<open>reserved_reset_jti\<close>).\<close>

definition reserved_reset_jti :: "string \<Rightarrow> bool" where
  "reserved_reset_jti jti \<longleftrightarrow> startswith jti revoked_reset_prefix"

definition quiet :: "host \<Rightarrow> host \<Rightarrow> bool" where
  "quiet w w' \<longleftrightarrow> ho_records w' = ho_records w \<and> ho_window w' = ho_window w
     \<and> (\<forall>j. reserved_reset_jti j \<and> revoked_in w' j \<longrightarrow> revoked_in w j)"

definition ended :: "int \<Rightarrow> reset_record \<Rightarrow> bool" where
  "ended now r \<longleftrightarrow> rr_state r \<notin> open_states \<or> reset_expired now r"

text \<open>The identifier is the one the signed object names.\<close>

definition names_itself :: "intent \<Rightarrow> bool" where
  "names_itself it \<longleftrightarrow> get (it_raw it) ''intent_id'' = PStr (it_id it)"

inductive plane_move :: "int \<Rightarrow> host \<Rightarrow> host \<Rightarrow> bool" for now where
  Quiet: "quiet w w' \<Longrightarrow> plane_move now w w'"
| Begin: "dict_get (ho_records w) (it_id it) = None \<Longrightarrow> \<not> revoked_in w (revoked_reset_prefix @ it_id it)
    \<Longrightarrow> \<forall>r \<in> set (list_resets w). ended now r \<Longrightarrow> set (it_slots it) \<subseteq> set slots
    \<Longrightarrow> now + ho_window w - 60 \<le> it_not_before it \<Longrightarrow> names_itself it
    \<Longrightarrow> plane_move now w (put_reset (waiting_reset now it txt msg psig cards) w)"
| Step: "get_reset i w = Some r \<Longrightarrow> reset_step now r r' \<Longrightarrow> plane_move now w (put_reset r' w)"
| Close: "get_reset i w = Some r \<Longrightarrow> reset_close r r' \<Longrightarrow> rev_jti e = reset_jti r
    \<Longrightarrow> plane_move now w (put_reset r' (change_store (add_revocation now e) w))"
| ActNew: "dict_get (ho_records w) (ar_id a) = None \<Longrightarrow> \<forall>b \<in> set (list_acts w). ar_message b \<noteq> ar_message a
    \<Longrightarrow> plane_move now w (put_act a w)"
| ActPut: "dict_get (ho_records w) (ar_id a) = Some (ActRow b) \<Longrightarrow> ar_message a = ar_message b
    \<Longrightarrow> plane_move now w (put_act a w)"

definition moves :: "int \<Rightarrow> host \<Rightarrow> host \<Rightarrow> bool" where "moves now = (plane_move now)\<^sup>*\<^sup>*"

lemma moves_refl [simp, intro]: "moves now w w" by (simp add: moves_def)

lemma moves_trans: "moves now u v \<Longrightarrow> moves now v w \<Longrightarrow> moves now u w" by (simp add: moves_def)

lemma moves_one: "plane_move now w w' \<Longrightarrow> moves now w w'" by (simp add: moves_def)

lemma moves_step: "moves now u v \<Longrightarrow> plane_move now v w \<Longrightarrow> moves now u w" by (simp add: moves_def)

lemma quiet_refl [simp, intro]: "quiet w w" by (simp add: quiet_def)

lemma quiet_trans: "quiet u v \<Longrightarrow> quiet v w \<Longrightarrow> quiet u w" by (force simp: quiet_def)

lemma quiet_records: "quiet w t \<Longrightarrow> ho_records t = ho_records w" "quiet w t \<Longrightarrow> ho_window t = ho_window w"
    "quiet w t \<Longrightarrow> get_reset i t = get_reset i w" "quiet w t \<Longrightarrow> list_resets t = list_resets w"
    "quiet w t \<Longrightarrow> list_acts t = list_acts w"
  by (simp_all add: quiet_def get_reset_def list_resets_def list_acts_def cong: plane_record.case_cong)

text \<open>A store operation that leaves the revocation list as it is.\<close>

lemma quiet_store [intro]: "revocations st = revocations (ho_store w) \<Longrightarrow> quiet w (w\<lparr>ho_store := st\<rparr>)"
  by (simp add: quiet_def revoked_in_def)

lemma quiet_fields [simp]: "quiet w (w\<lparr>ho_files := fs\<rparr>)" "quiet w (w\<lparr>ho_code_key := k\<rparr>)"
    "quiet w (w\<lparr>ho_operator := p, ho_root_operator := q\<rparr>)"
  by (simp_all add: quiet_def revoked_in_def)

section \<open>Reading the plane\<close>

text \<open>A handler's part that moves nothing.\<close>

definition still :: "(host \<Rightarrow> ('e + 'a) \<times> host) \<Rightarrow> bool" where
  "still m \<longleftrightarrow> (\<forall>w. quiet w (snd (m w)))"

lemma still_wp:
  assumes "still m" "\<And>x t. m w = (Inr x, t) \<Longrightarrow> quiet w t \<Longrightarrow> Q x t" "\<And>t. quiet w t \<Longrightarrow> E t"
  shows "wp m Q E w"
  using assms by (auto simp: wp_def still_def split: prod.split sum.split) (metis snd_conv)+

lemma still_basic: "still (ret x)" "still (fail e)" "still (ask f)" "still (lift v)" "still (refuse_if c e)"
  by (simp_all add: still_def step_defs refuse_if_def)

lemma still_seq: "still m \<Longrightarrow> (\<And>x. still (f x)) \<Longrightarrow> still (seq m f)"
  by (auto simp: still_def seq_def split: prod.split sum.split) (metis quiet_trans snd_conv)+

lemma still_change: "(\<And>w. quiet w (f w)) \<Longrightarrow> still (change f)" by (simp add: still_def change_def)

lemma still_reads:
  "still (plane_chain cl fl b)" "still read_chain_or_refuse" "still (current_chain cl fl)" "still (mac u v)"
  "still (try_append cl fl now record)" "still (check_gate cl fl a sig)"
  by (auto simp: still_def plane_chain_def read_chain_or_refuse_def current_chain_def mac_def try_append_def check_gate_def
      step_defs split: sum.split chain_error.split genesis_set_error.split prod.split)

lemma still_revoked: "still (revoked_now now jti)"
  by (auto simp: still_def revoked_now_def is_revoked_def purge_revocations_def quiet_def revoked_in_def
      map_of_eq_None_iff split: prod.split)

lemma reset_open_wp:
  assumes "quiet u w"
  shows "wp (reset_open_in now r) (\<lambda>b t. quiet u t \<and> (b \<longrightarrow> \<not> ended now r)
    \<and> (\<not> b \<longrightarrow> ended now r \<or> revoked_in u (reset_jti r))) E w"
proof -
  obtain rv st where rv: "is_revoked now (reset_jti r) (ho_store w) = (rv, st)" by fastforce
  have "quiet w (w\<lparr>ho_store := st\<rparr>)"
    using still_revoked[unfolded still_def, rule_format, of w now "reset_jti r"] rv by (simp add: revoked_now_def)
  then have q: "quiet u (w\<lparr>ho_store := st\<rparr>)" using assms quiet_trans by blast
  have "rv \<Longrightarrow> revoked_in w (reset_jti r)"
    using rv by (auto simp: is_revoked_def Let_def purge_revocations_def revoked_in_def map_of_eq_None_iff)
  moreover have "revoked_in w (reset_jti r) \<Longrightarrow> revoked_in u (reset_jti r)"
    using assms by (simp add: quiet_def reserved_reset_jti_def reset_jti_def startswith_def)
  moreover have "reset_open_in now r w = (Inr (reset_is_open now rv r), w\<lparr>ho_store := st\<rparr>)"
    by (simp add: reset_open_in_def seq_def revoked_now_def rv ret_def)
  ultimately show ?thesis using q by (auto simp: wp_def reset_is_open_def ended_def)
qed

lemma still_open: "still (reset_open_in now r)"
  unfolding reset_open_in_def by (intro still_seq still_revoked still_basic)

lemma any_open_wp:
  assumes "quiet u w"
  shows "wp (any_open now rs) (\<lambda>b t. quiet u t \<and> (\<not> b \<longrightarrow> (\<forall>r \<in> set rs. ended now r \<or> revoked_in u (reset_jti r)))) E w"
  using assms
proof (induction rs arbitrary: w)
  case (Cons r rs)
  show ?case
    unfolding any_open.simps wp_seq
    by (rule wp_imp[OF reset_open_wp[OF Cons.prems]])
      (auto simp: wp_eqs intro: wp_imp[OF Cons.IH])
qed (simp add: wp_eqs)

lemma still_entry: "still (reset_entry_on_chain fl r)" "still (act_entry_on_chain d)"
  by (auto simp: reset_entry_on_chain_def act_entry_on_chain_def still_basic still_reads
      intro!: still_seq split: option.split sum.split pyval.split)

lemma still_committed: "still (committed_or_unknown fl r)"
  using still_entry(1)[of fl r]
  by (auto simp: committed_or_unknown_def still_def step_defs split: prod.split sum.split plane_error.split top_error.split)
    (metis snd_conv)+

lemma still_unfinished: "still (first_unfinished fl rs)"
  by (induction rs) (auto intro!: still_seq still_basic still_entry)

lemma filter_open_wp:
  assumes "quiet u w"
  shows "wp (filter_open now rs) (\<lambda>live t. quiet u t \<and> (\<forall>r \<in> set live. \<not> ended now r) \<and> subseq live rs) E w"
  using assms
proof (induction rs arbitrary: w)
  case (Cons r rs)
  show ?case
    unfolding filter_open.simps wp_seq
  proof (rule wp_imp[OF reset_open_wp[OF Cons.prems]])
    fix b t assume t: "quiet u t \<and> (b \<longrightarrow> \<not> ended now r) \<and> (\<not> b \<longrightarrow> ended now r \<or> revoked_in u (reset_jti r))"
    show "wp (filter_open now rs) (\<lambda>live. wp (ret (if b then r # live else live))
        (\<lambda>live t. quiet u t \<and> (\<forall>r \<in> set live. \<not> ended now r) \<and> subseq live (r # rs)) E) E t"
      by (rule wp_imp[OF Cons.IH]) (use t in \<open>auto simp: wp_eqs\<close>)
  qed
qed (simp add: wp_eqs)

section \<open>What the registry work leaves alone\<close>

lemma revocations_kept [simp]:
  "revocations (take_cards ids st) = revocations st" "revocations (snd (register_phone p st)) = revocations st"
  "revocations (snd (revoke_phone i st)) = revocations st" "revocations (add_pending c st) = revocations st"
  "revocations (snd (delete_owner_enroll now i st)) = revocations st"
  "revocations (snd (list_owner_enrolls now st)) = revocations st"
proof -
  show "revocations (take_cards ids st) = revocations st"
    unfolding take_cards_def by (induction ids arbitrary: st) (auto simp: take_pending_def)
qed (simp_all add: register_phone_def revoke_phone_def drop_phone_rows_def add_pending_def delete_owner_enroll_def
    list_owner_enrolls_def purge_owner_enrolls_def Let_def)

lemma revocations_fold:
  assumes "\<And>x st. revocations (f x st) = revocations st"
  shows "revocations (fold f xs st) = revocations st"
  by (induction xs arbitrary: st) (auto simp: assms)

lemma revocations_void [simp]: "revocations (void_owner_enrolls_for now i st) = revocations st"
proof -
  have "revocations (void_one r s) = revocations s" for r s
    unfolding void_one_def by (subst revocations_fold) (auto simp: take_pending_def put_owner_enroll_def)
  then show ?thesis
    by (simp add: void_owner_enrolls_for_def Let_def case_prod_unfold revocations_fold)
qed

lemma revocations_registry [simp]:
  "revocations (revoke_and_void now i st) = revocations st"
  "revocations (snd (seat_fresh now cs r fresh slot st)) = revocations st"
  "revocations (follow_removal now cs d p st) = revocations st"
  "revocations (drop_unsealed_enrolls now st) = revocations st"
proof -
  show void: "revocations (revoke_and_void now i st) = revocations st" for i st
    using revocations_kept(3)[of i st] by (cases "revoke_phone i st") (simp add: revoke_and_void_def)
  show "revocations (snd (seat_fresh now cs r fresh slot st)) = revocations st"
    by (simp add: seat_fresh_def Let_def case_prod_unfold revocations_fold void)
  show "revocations (follow_removal now cs d p st) = revocations st"
    by (simp add: follow_removal_def void split: option.split)
  show "revocations (drop_unsealed_enrolls now st) = revocations st"
    by (simp add: drop_unsealed_enrolls_def Let_def case_prod_unfold revocations_fold)
qed

lemma card_devices_revocations:
  "revocations (snd (card_devices now i txt msg ps ttl rid st)) = revocations st"
proof -
  have "revocations (snd (fold (\<lambda>(i, p) (cards, s). (dict_set (rid i) (ph_id p) cards,
      add_pending (device_card now rec txt msg ttl (rid i) p) s)) ps acc)) = revocations (snd acc)" for rec ps acc
    by (induction ps arbitrary: acc) (auto split: prod.split)
  then show ?thesis by (simp add: card_devices_def)
qed

section \<open>Every handler moves records along the steps\<close>

fun row_id :: "plane_record \<Rightarrow> string" where
  "row_id (ActRow a) = ar_id a"
| "row_id (ResetRow r) = rr_id r"

definition keyed :: "host \<Rightarrow> bool" where
  "keyed w \<longleftrightarrow> dict_wf (ho_records w) \<and> (\<forall>i x. dict_get (ho_records w) i = Some x \<longrightarrow> row_id x = i)"

definition unrevoked :: "host \<Rightarrow> bool" where
  "unrevoked w \<longleftrightarrow> (\<forall>r \<in> set (list_resets w). rr_state r \<in> open_states \<longrightarrow> \<not> revoked_in w (reset_jti r))"

lemma resets_of_set: "r \<in> set (resets_of xs) \<longleftrightarrow> ResetRow r \<in> set xs"
  by (induction xs rule: resets_of.induct) auto

lemma acts_of_set: "a \<in> set (acts_of xs) \<longleftrightarrow> ActRow a \<in> set xs"
  by (induction xs rule: acts_of.induct) auto

lemma get_reset_iff: "get_reset i w = Some r \<longleftrightarrow> dict_get (ho_records w) i = Some (ResetRow r)"
  by (auto simp: get_reset_def split: option.split plane_record.split)

lemma list_resets_get: "keyed w \<Longrightarrow> r \<in> set (list_resets w) \<longleftrightarrow> get_reset (rr_id r) w = Some r"
  by (force simp: list_resets_def resets_of_set get_reset_iff keyed_def dict_get_iff)

lemma list_acts_get: "keyed w \<Longrightarrow> a \<in> set (list_acts w) \<longleftrightarrow> dict_get (ho_records w) (ar_id a) = Some (ActRow a)"
  by (force simp: list_acts_def acts_of_set keyed_def dict_get_iff)

lemma quiet_wpI:
  assumes "still m" "quiet u w" "\<And>x t. quiet u t \<Longrightarrow> Q x t" "\<And>t. quiet u t \<Longrightarrow> E t"
  shows "wp m Q E w"
  by (rule still_wp[OF assms(1)]) (use assms quiet_trans in blast)+

lemma quiet_moves: "quiet w t \<Longrightarrow> moves now w t"
  by (simp add: moves_one plane_move.Quiet)

lemmas still_parts = still_reads still_revoked still_open still_entry still_committed still_unfinished

lemma quiet_cards: "quiet u w \<Longrightarrow> quiet u (w\<lparr>ho_store := snd (card_devices now i txt msg ps ttl rid (ho_store w))\<rparr>)"
  by (rule quiet_trans) (auto simp: card_devices_revocations)

text \<open>A new reset.\<close>

lemma begin_moves:
  assumes "quiet w t" "dict_get (ho_records t) (it_id it) = None" "\<not> revoked_in t (revoked_reset_prefix @ it_id it)"
    and "\<forall>r \<in> set (list_resets t). ended now r" "set (it_slots it) \<subseteq> set slots" "now + ho_window t - 60 \<le> it_not_before it"
    and "names_itself it"
  shows "moves now w (put_reset (waiting_reset now it txt msg psig cards) t)"
  using quiet_moves[OF assms(1)] plane_move.Begin[OF assms(2-7)] by (rule moves_step)

lemma revoked_now_wp:
  assumes "quiet u w"
  shows "wp (revoked_now now jti) (\<lambda>b t. quiet u t \<and> (\<not> b \<longrightarrow> \<not> revoked_in t jti)) E w"
proof -
  obtain rv st where rv: "is_revoked now jti (ho_store w) = (rv, st)" by fastforce
  have "quiet w (w\<lparr>ho_store := st\<rparr>)"
    using still_revoked[unfolded still_def, rule_format, of w now jti] rv by (simp add: revoked_now_def)
  moreover have "rv = revoked_in (w\<lparr>ho_store := st\<rparr>) jti"
    using rv by (auto simp: is_revoked_def Let_def revoked_in_def)
  ultimately show ?thesis using rv assms by (auto simp: wp_def revoked_now_def intro: quiet_trans)
qed

lemma quiet_revoked: "quiet w t \<Longrightarrow> revoked_in t (revoked_reset_prefix @ i) \<Longrightarrow> revoked_in w (revoked_reset_prefix @ i)"
  by (simp add: quiet_def reserved_reset_jti_def startswith_def)

lemma all_ended:
  assumes "unrevoked w" "quiet w t" "\<forall>r \<in> set (list_resets t). ended now r \<or> revoked_in w (reset_jti r)"
  shows "\<forall>r \<in> set (list_resets t). ended now r"
  using assms by (auto simp: unrevoked_def quiet_records ended_def)

lemma start_locked_moves:
  assumes "quiet w s" "unrevoked w" "now + ho_window w - 60 \<le> not_before" "set slts \<subseteq> set slots"
    and "get raw ''intent_id'' = PStr iid"
  shows "wp (start_reset_locked fl now rid raw iid slts lost not_before digest psig) (\<lambda>_. moves now w) (moves now w) s"
proof -
  let ?it = "\<lparr>it_raw = raw, it_id = iid, it_slots = slts, it_lost = map the_str lost, it_not_before = not_before\<rparr>"
  define good where "good = (\<lambda>t. quiet w t \<and> dict_get (ho_records t) iid = None \<and> \<not> revoked_in t (revoked_reset_prefix @ iid))"
  have goodI: "good t" if "quiet w s" "\<not> revoked_in s (revoked_reset_prefix @ iid)" "dict_get (ho_records s) iid = None" "quiet s t"
    for s t
    using that quiet_trans[OF that(1,4)] quiet_revoked[OF that(4)] quiet_records(1)[OF that(4)] by (auto simp: good_def)
  have fin: "wp (begin_reset now rid ?it digest psig) (\<lambda>_. moves now w) (moves now w) t"
    if g: "good t" and e: "\<forall>r \<in> set (list_resets t). ended now r" for t
  proof -
    have "moves now w (put_reset (waiting_reset now ?it a digest psig b) (t\<lparr>ho_store := snd (card_devices now i a' m ps l rid (ho_store t))\<rparr>))"
      for a a' b i m ps l
    proof (rule begin_moves)
      show q: "quiet w (t\<lparr>ho_store := snd (card_devices now i a' m ps l rid (ho_store t))\<rparr>)"
        using g quiet_cards good_def by blast
    qed (use g e assms(3-5) in \<open>auto simp: names_itself_def good_def revoked_in_def card_devices_revocations list_resets_def quiet_def\<close>)
    then show ?thesis
      using g by (auto simp: begin_reset_def wp_eqs good_def quiet_moves split: option.split prod.split) (metis snd_conv)
  qed
  show ?thesis
    unfolding start_reset_locked_def wp_eqs
    apply (rule wp_imp[OF revoked_now_wp[OF assms(1), where E = "quiet w"]])
     apply (auto simp: quiet_moves)
    apply (rule quiet_wpI[OF still_unfinished quiet_refl])
     apply (auto intro: quiet_moves quiet_trans)
    apply (rule_tac u1 = t in wp_imp[OF any_open_wp[where E = "quiet w"]])
      apply (auto intro: quiet_moves quiet_trans)
    apply (rule fin)
     apply (blast intro: goodI)
    apply (rule all_ended[OF assms(2)])
     apply (auto intro: quiet_trans simp: quiet_records dest: quiet_revoked simp: reset_jti_def)
    done
qed

lemma read_intent_id: "read_intent d = Inr (slts, lost, nb, iid) \<Longrightarrow> get d ''intent_id'' = PStr iid"
  by (auto simp: read_intent_def bind_err_Inr text_field_def caught_conv_def text_of_def item_def get_def is_str_iff
      split: if_splits sum.splits conv_error.splits option.splits)

lemma start_moves:
  assumes "unrevoked w"
  shows "wp (owner_reset_start cl fl now rid v psig) (\<lambda>_. moves now w) (moves now w) w"
  unfolding owner_reset_start_def wp_eqs Let_def
  apply (rule quiet_wpI[OF still_reads(1) quiet_refl])
   apply (auto simp: quiet_moves split: sum.split)
  apply (rule start_locked_moves)
     apply (auto simp: assms quiet_records dest: read_intent_id)
  done

text \<open>One step of one record, after parts that move nothing.\<close>

lemma step_moves:
  assumes "quiet w t" "get_reset i t = Some r" "reset_step now r r'" "quiet t t'"
  shows "moves now w (put_reset r' t')"
proof -
  have "get_reset i t' = Some r" using assms(2,4) by (simp add: quiet_records)
  then show ?thesis
    using moves_step[OF quiet_moves plane_move.Step] assms quiet_trans by blast
qed

lemma keyed_quiet: "keyed w \<Longrightarrow> quiet w t \<Longrightarrow> keyed t"
  by (simp add: keyed_def quiet_records)

lemma keyed_put: "keyed w \<Longrightarrow> keyed (put_reset r w)" "keyed w \<Longrightarrow> keyed (put_act a w)"
  by (auto simp: keyed_def put_reset_def put_act_def dict_facts)

lemma keyed_id: "keyed w \<Longrightarrow> get_reset i w = Some r \<Longrightarrow> rr_id r = i"
  by (force simp: keyed_def get_reset_iff)

lemma get_put [simp]: "get_reset i (put_reset r w) = (if i = rr_id r then Some r else get_reset i w)"
  by (simp add: get_reset_def put_reset_def dict_facts)

lemma add_nonce_id [simp]: "rr_id (add_nonce l n r) = rr_id r"
  by (simp add: add_nonce_def split: leg.split)

lemma spend_wp:
  assumes "keyed s" "quiet w s"
  shows "wp (spend_leg_nonce iid l n) (\<lambda>x t. moves now w t \<and> keyed t \<and> (case x of None \<Rightarrow> True
    | Some r \<Rightarrow> get_reset iid t = Some r)) (moves now w) s"
  using assms unfolding spend_leg_nonce_def wp_eqs
  by (auto simp: quiet_moves keyed_put keyed_id split: option.split
      intro: step_moves[OF assms(2) _ reset_step.Nonce quiet_refl])

lemma open_reset_wp:
  assumes "quiet u w"
  shows "wp (open_reset now iid states) (\<lambda>r t. quiet u t \<and> get_reset iid t = Some r \<and> rr_state r \<in> states
    \<and> it_not_before (rr_intent r) \<le> now \<and> \<not> reset_expired now r) (quiet u) w"
proof (cases "get_reset iid w")
  case None
  then show ?thesis by (simp add: open_reset_def wp_eqs assms)
next
  case (Some r)
  show ?thesis
  proof (cases "rr_state r = Cancelled")
    case True
    then show ?thesis by (simp add: open_reset_def wp_eqs Some assms)
  next
    case False
    then show ?thesis
      unfolding open_reset_def wp_eqs Some option.case
      apply simp
      apply (rule quiet_wpI[OF still_revoked assms])
       apply (use Some in \<open>auto simp: quiet_records(3)[OF assms] quiet_records\<close>)
      done
  qed
qed

lemma quiet_take: "quiet w (change_store (take_cards ids) w)"
  unfolding change_store_def by (rule quiet_store) simp

lemma arm_open_moves:
  assumes "quiet u w"
  shows "wp (arm_open_reset now draw d iid) (\<lambda>_. moves now u) (moves now u) w"
  unfolding arm_open_reset_def wp_eqs
  apply (rule wp_imp[OF open_reset_wp[OF assms]])
   apply (auto simp: quiet_moves split: sum.split)
   apply (rule quiet_wpI[OF still_reads(4) quiet_take];
      auto intro!: step_moves[OF _ _ reset_step.Arm] intro: quiet_moves quiet_trans)+
  done

lemma arm_moves:
  assumes "keyed w"
  shows "wp (owner_reset_arm cl fl now draw v psig) (\<lambda>_. moves now w) (moves now w) w"
  unfolding owner_reset_arm_def wp_eqs Let_def
  apply (rule quiet_wpI[OF still_reads(1) quiet_refl])
   apply (auto simp: quiet_moves split: sum.split)
  subgoal for cs t nonce iid
    apply (rule wp_imp[OF spend_wp[of t w]])
       apply (auto simp: wp_eqs intro: keyed_quiet[OF assms] wp_imp[OF arm_open_moves[OF quiet_refl]] moves_trans
        split: option.split)
    apply (rule quiet_wpI[OF still_committed quiet_refl])
     apply (auto intro: wp_imp[OF arm_open_moves[OF quiet_refl]] moves_trans quiet_moves)
    done
  done

lemma found_resets:
  assumes "keyed w" "r \<in> set (list_resets w)"
  shows "get_reset (rr_id r) w = Some r"
  using assms by (simp add: list_resets_get)

lemma find_Some_mem: "find P xs = Some x \<Longrightarrow> x \<in> set xs \<and> P x"
  by (induction xs) (auto split: if_splits)

lemma armed_for_code_wp:
  assumes "keyed w"
  shows "wp (armed_reset_for_code now given) (\<lambda>x t. quiet w t \<and> (\<forall>r. x = Some r \<longrightarrow> get_reset (rr_id r) w = Some r
      \<and> code_live now r)) (quiet w) w"
proof -
  have "get_reset (rr_id r) w = Some r \<and> code_live now r"
    if "find P (filter (code_live now) (list_resets w)) = Some r" for P r
    using find_Some_mem[OF that] found_resets[OF assms] by auto
  then show ?thesis
    unfolding armed_reset_for_code_def wp_eqs
    apply (cases "given = [] \<or> \<not> is_ascii given")
     apply simp
    apply simp
    apply (rule quiet_wpI[OF still_reads(4) quiet_refl])
     apply (simp_all add: quiet_records)
    done
qed

lemma reset_open_moves:
  assumes "quiet u w" "\<And>t. quiet u t \<Longrightarrow> \<not> ended now r \<Longrightarrow> Q True t" "\<And>t. quiet u t \<Longrightarrow> Q False t"
  shows "wp (reset_open_in now r) Q E w"
proof (rule wp_imp[OF reset_open_wp[OF assms(1)]])
  fix b t assume "quiet u t \<and> (b \<longrightarrow> \<not> ended now r) \<and> (\<not> b \<longrightarrow> ended now r \<or> revoked_in u (reset_jti r))"
  then show "Q b t" using assms(2,3) by (cases b) auto
qed

lemma redeem_moves:
  assumes "keyed w"
  shows "wp (redeem_reset_code now given token) (\<lambda>_. moves now w) (moves now w) w"
  unfolding redeem_reset_code_def wp_eqs Let_def
  apply (rule wp_imp[OF armed_for_code_wp[OF assms]])
   apply (auto simp: quiet_moves wp_eqs quiet_records split: option.split)
  apply (rule reset_open_moves[where u = w])
    apply (auto simp: quiet_moves)
  apply (rule quiet_wpI[where u = w, OF still_reads(4)])
    apply (auto simp: quiet_moves ended_def code_live_def intro!: step_moves[OF quiet_refl _ reset_step.Redeem])
  done

lemma subseq_distinct: "subseq xs ys \<Longrightarrow> distinct (map f ys) \<Longrightarrow> distinct (map f xs)"
  by (induction rule: list_emb.induct) (auto dest: list_emb_set)

lemma distinct_resets:
  assumes "keyed w"
  shows "distinct (map rr_id (list_resets w))"
proof -
  have "map row_id (dict_values d) = dict_keys d" if "\<forall>p \<in> set d. row_id (snd p) = fst p" for d
    using that by (simp add: comp_def)
  moreover have "\<forall>p \<in> set (ho_records w). row_id (snd p) = fst p"
    using assms by (auto simp: keyed_def dict_get_iff)
  ultimately have "distinct (map row_id (dict_values (ho_records w)))"
    using assms by (simp only: keyed_def dict_wf_def)
  moreover have "subseq (map rr_id (resets_of xs)) (map row_id xs)" for xs
    by (induction xs rule: resets_of.induct) auto
  ultimately show ?thesis
    unfolding list_resets_def by (metis list.map_id subseq_distinct)
qed

lemma fold_put_moves:
  assumes "distinct (map rr_id rs)"
    and "\<And>r. r \<in> set rs \<Longrightarrow> get_reset (rr_id r) t = Some r \<and> reset_step now r (f r) \<and> rr_id (f r) = rr_id r"
  shows "moves now t (fold (\<lambda>r. put_reset (f r)) rs t)"
  using assms
proof (induction rs arbitrary: t)
  case (Cons r rs)
  have one: "moves now t (put_reset (f r) t)" using Cons.prems(2)[of r] by (auto intro: step_moves)
  have "moves now (put_reset (f r) t) (fold (\<lambda>r. put_reset (f r)) rs (put_reset (f r) t))"
  proof (rule Cons.IH)
    fix x assume x: "x \<in> set rs"
    then have "rr_id x \<noteq> rr_id r" using Cons.prems(1) by (metis distinct.simps(2) image_eqI list.map(2) list.set_map)
    then show "get_reset (rr_id x) (put_reset (f r) t) = Some x \<and> reset_step now x (f x) \<and> rr_id (f x) = rr_id x"
      using Cons.prems(2)[of x] Cons.prems(2)[of r] x by simp
  qed (use Cons.prems in simp)
  then show ?case using moves_trans[OF one] by simp
qed simp

lemma wrong_code_id [simp]: "rr_id (wrong_code r) = rr_id r" "rr_id (code_cleared r) = rr_id r" "rr_id (seat_done s r) = rr_id r"
  "rr_id (armed_reset now s m r) = rr_id r" "rr_id (redeemed now m r) = rr_id r" "rr_id (registered_reset rq r) = rr_id r"
  by (simp_all add: wrong_code_def code_cleared_def seat_done_def armed_reset_def redeemed_def registered_reset_def Let_def)

lemma count_moves:
  assumes "keyed w"
  shows "wp (count_reset_code_failure now) (\<lambda>_. moves now w) (moves now w) w"
  unfolding count_reset_code_failure_def wp_eqs
proof (rule wp_imp[OF filter_open_wp[OF quiet_refl, where E = "quiet w"]])
  fix live t
  assume live: "quiet w t \<and> (\<forall>r \<in> set live. \<not> ended now r) \<and> subseq live (filter (code_live now) (list_resets w))"
  have "distinct (map rr_id live)"
    using live subseq_distinct[of live _ rr_id] subseq_distinct[OF subseq_filter_left distinct_resets[OF assms]] by blast
  moreover have "set live \<subseteq> {r \<in> set (list_resets w). code_live now r}"
    using live by (auto dest: list_emb_set)
  ultimately have "moves now t (fold (\<lambda>r. put_reset (wrong_code r)) live t)"
    using live found_resets[OF assms]
    by (intro fold_put_moves) (auto simp: quiet_records ended_def code_live_def open_states_def intro!: reset_step.Wrong)
  then show "moves now w (fold (\<lambda>r. put_reset (wrong_code r)) live t)"
    using live moves_trans quiet_moves by blast
qed (simp add: quiet_moves)

lemma for_challenge_wp:
  assumes "keyed w" "quiet w s"
  shows "wp (reset_for_challenge now challenge) (\<lambda>x t. quiet w t \<and> (\<forall>r. x = Some r \<longrightarrow> get_reset (rr_id r) w = Some r
      \<and> rr_state r = Armed \<and> rr_challenge_mac r \<noteq> None)) (quiet w) s"
proof -
  have "get_reset (rr_id r) w = Some r \<and> rr_state r = Armed \<and> rr_challenge_mac r \<noteq> None"
    if "find P (filter challenge_held (list_resets w)) = Some r" for P r
    using find_Some_mem[OF that] found_resets[OF assms(1)] by (auto simp: challenge_held_def)
  then show ?thesis
    unfolding reset_for_challenge_def wp_eqs
    apply (cases "is_ascii challenge")
     apply (simp_all add: assms quiet_records(4)[OF assms(2)])
    apply (intro impI)
    apply (rule quiet_wpI[OF still_reads(4) assms(2)])
     apply simp_all
    done
qed

lemma prove_phone_request: "prove_phone cl body rq = Inr p \<Longrightarrow> pq_challenge p = pq_challenge rq"
  by (auto simp: prove_phone_def bind_err_Inr phone_request.defs split: option.splits)

lemma map_sum_id_Inr [simp]: "map_sum f id v = Inr x \<longleftrightarrow> v = Inr x"
  by (cases v) simp_all

lemma register_locked_moves:
  assumes "keyed w" "quiet w s" "startswith (pq_challenge rq) reset_challenge_prefix"
  shows "wp (register_locked cl fl now rq r0) (\<lambda>_. moves now w) (moves now w) s"
proof -
  have chain: "still (\<lambda>w. (map_sum Top id (top_chain_state cl fl (Some (ho_files w)) (ho_expect w)), w))"
    by (simp add: still_def)
  show ?thesis
    unfolding register_locked_def wp_eqs
    apply (rule wp_imp[OF for_challenge_wp[OF assms(1,2)]])
     apply (auto simp: wp_eqs quiet_moves split: option.split)
    apply (rule reset_open_moves[where u = w])
      apply (auto simp: quiet_moves)
    apply (rule quiet_wpI[where u = w, OF chain])
      apply (auto simp: quiet_moves ended_def assms(3) intro!: step_moves[OF quiet_refl _ reset_step.Answer])
    done
qed

lemma register_moves:
  assumes "keyed w"
  shows "wp (register_fresh_device cl fl now body) (\<lambda>_. moves now w) (moves now w) w"
  unfolding register_fresh_device_def wp_eqs
  apply (auto split: sum.split)
  apply (rule wp_imp[OF for_challenge_wp[OF assms quiet_refl]])
   apply (auto simp: wp_eqs quiet_moves split: option.split sum.split)
  apply (rule register_locked_moves[OF assms])
   apply (auto dest!: prove_phone_request)
  done

text \<open>The registry's work ends in one write of the record, or in none.\<close>

lemma finish_reset_wp:
  assumes "quiet u w" "\<And>t. quiet u t \<Longrightarrow> P t"
    and put: "\<And>t slot. quiet u t \<Longrightarrow> rr_slot r = Some slot \<Longrightarrow> P (put_reset (seat_done slot r) t)"
  shows "wp (finish_reset_seat cl fl now r post) (\<lambda>_. P) P w"
proof (cases "rr_fresh r = None \<or> rr_slot r = None")
  case True
  then show ?thesis by (auto simp: finish_reset_seat_def wp_eqs assms split: option.split)
next
  case False
  then obtain fresh slot where fs: "rr_fresh r = Some fresh" "rr_slot r = Some slot" by auto
  have seat: "P (put_reset (seat_done slot r) (t\<lparr>ho_store := snd (seat_fresh now cs r fresh slot (ho_store t))\<rparr>))"
    if "quiet u t" for t cs
    by (rule put) (use that quiet_trans quiet_store fs in auto)
  have read: "wp (if post = None then current_chain cl fl else ret post) (\<lambda>_. quiet u) (quiet u) w"
    using assms(1) by (auto simp: wp_eqs intro: quiet_wpI[OF still_reads(3)])
  show ?thesis
    unfolding finish_reset_seat_def fs prod.case option.case wp_seq
    apply (rule wp_imp[OF read])
     apply (auto simp: wp_eqs assms(2) seat case_prod_unfold)
    done
qed

lemma finish_moves:
  assumes "quiet u w" "get_reset i w = Some r" "rr_state r = Registered"
  shows "wp (finish_reset_seat cl fl now r post) (\<lambda>_. moves now u) (moves now u) w"
proof (rule finish_reset_wp[OF assms(1) quiet_moves])
  fix t slot assume t: "quiet u t" "rr_slot r = Some slot"
  have "get_reset i u = Some r" using assms(2) quiet_records(3)[OF assms(1)] by simp
  then show "moves now u (put_reset (seat_done slot r) t)"
    using step_moves[OF quiet_refl _ reset_step.Seat[OF assms(3) t(2)] t(1)] by blast
qed

lemma append_reset_wp:
  assumes "quiet w s"
  shows "wp (append_reset cl fl now iid psig cs) (\<lambda>(r, post) t. quiet w t \<and> get_reset iid t = Some r \<and> rr_state r = Registered)
    (quiet w) s"
  unfolding append_reset_def wp_eqs
  apply (rule wp_imp[OF open_reset_wp[OF assms]])
   apply (auto split: sum.split)
  apply (rule quiet_wpI[where u = w, OF still_reads(5)])
    apply (auto simp: quiet_records)
  done

lemma complete_chain_wp:
  assumes "quiet w s"
  shows "wp (complete_chain cl fl now iid psig) (\<lambda>(r, post) t. quiet w t \<and> get_reset iid t = Some r \<and> rr_state r = Registered)
    (quiet w) s"
  unfolding complete_chain_def wp_eqs
  apply (rule quiet_wpI[OF still_reads(1) assms])
   apply (auto simp: append_reset_wp split: option.split)
  apply (rule quiet_wpI[where u = w, OF still_entry(1)])
    apply (auto simp: append_reset_wp quiet_records quiet_records(3)[OF assms])
  done

lemma complete_moves:
  "wp (owner_reset_complete cl fl now iid psig) (\<lambda>_. moves now w) (moves now w) w"
  unfolding owner_reset_complete_def wp_eqs
  apply (rule wp_imp[OF complete_chain_wp[OF quiet_refl]])
   apply (auto simp: quiet_moves wp_eqs intro: finish_moves)
  done

lemma close_moves:
  assumes "quiet w t" "get_reset i t = Some r" "reset_close r r'" "rev_jti e = reset_jti r"
  shows "moves now w (put_reset r' (change_store (add_revocation now e) (change_store (take_cards ids) t)))"
proof -
  have q: "quiet t (change_store (take_cards ids) t)" by (rule quiet_take)
  then have "get_reset i (change_store (take_cards ids) t) = Some r" using assms(2) by (simp add: quiet_records)
  then show ?thesis
    using moves_step[OF quiet_moves plane_move.Close] assms q quiet_trans by blast
qed

lemma abort_record_moves:
  assumes "get_reset i w = Some r"
  shows "wp (abort_record cl fl now r) (\<lambda>_. moves now w) (moves now w) w"
proof -
  have fin: "wp (finish_reset_seat cl fl now r None) (\<lambda>_. moves now w) (moves now w) t" if "quiet w t" "rr_state r = Registered" for t
    using finish_moves[OF that(1) _ that(2)] assms quiet_records(3)[OF that(1)] by metis
  have closes: "moves now w (put_reset (r\<lparr>rr_state := Aborted, rr_code_hash := None, rr_challenge := None,
      rr_challenge_mac := None, rr_fresh := None\<rparr>) (change_store (add_revocation now (reset_revocation now why r))
        (change_store (take_cards ids) t)))" if "quiet w t" "rr_state r \<in> open_states" for t ids why
    by (rule close_moves[OF that(1)])
      (use that assms quiet_records(3)[OF that(1)] in \<open>auto simp: reset_revocation_def intro: reset_close.Abort\<close>)
  show ?thesis
    unfolding abort_record_def wp_eqs
    apply (auto simp: closes)
    apply (rule quiet_wpI[OF still_entry(1) quiet_refl])
     apply (auto simp: closes fin quiet_moves open_states_def)
    done
qed

lemma abort_moves:
  assumes "keyed w"
  shows "wp (owner_reset_abort cl fl now v psig) (\<lambda>_. moves now w) (moves now w) w"
  unfolding owner_reset_abort_def wp_eqs Let_def
  apply (rule quiet_wpI[OF still_reads(1) quiet_refl])
   apply (auto simp: quiet_moves)
  apply (rule quiet_wpI[where u = w, OF still_reads(2)])
    apply (auto simp: quiet_moves split: sum.split)
  apply (rule wp_imp[OF spend_wp[where w = w]])
     apply (auto simp: wp_eqs intro: keyed_quiet[OF assms] wp_imp[OF abort_record_moves] moves_trans
      split: option.split)
  done

lemma cancel_moves:
  assumes "get_reset i w = Some r" "rr_state r = Waiting"
  shows "wp (cancel_reset now r p) (\<lambda>_. moves now w) (moves now w) w"
  unfolding cancel_reset_def wp_eqs
  by (auto intro: close_moves[OF quiet_refl assms(1)] simp: reset_close.Cancel[OF assms(2)] reset_revocation_def)

text \<open>An act's record is only ever written with the message it was opened with.\<close>

lemma act_moves:
  assumes "quiet w t" "dict_get (ho_records t) (ar_id a) = Some (ActRow b)" "ar_message a = ar_message b" "quiet t t'"
  shows "moves now w (put_act a t')"
proof -
  have "dict_get (ho_records t') (ar_id a) = Some (ActRow b)" using assms(2,4) by (simp add: quiet_records)
  then show ?thesis using moves_step[OF quiet_moves plane_move.ActPut] assms quiet_trans by blast
qed

lemma finish_act_wp:
  assumes "quiet w s" "\<And>t. quiet w t \<Longrightarrow> P t" "\<And>t. quiet w t \<Longrightarrow> P (put_act (a\<lparr>ar_state := ActAppended\<rparr>) t)"
  shows "wp (finish_act cl fl now a d p post) (\<lambda>_. P) P s"
proof -
  have read: "wp (if post = None then current_chain cl fl else ret post) (\<lambda>_. quiet w) (quiet w) s"
    using assms(1) by (auto simp: wp_eqs intro: quiet_wpI[OF still_reads(3)])
  have rotation: "quiet t (follow_rotation cs d t)" for t cs by (simp add: follow_rotation_def)
  have store: "quiet t (change_store f t)" if "\<And>st. revocations (f st) = revocations st" for t f
    unfolding change_store_def by (rule quiet_store) (simp add: that)
  have put: "P (put_act (a\<lparr>ar_state := ActAppended\<rparr>)
      ((if c' then change_store (follow_removal now cs d p) else id)
        ((if c then change_store (drop_unsealed_enrolls now) else id) (follow_rotation cs d t))))"
    if q: "quiet w t" for t cs c c'
  proof (rule assms(3))
    let ?t = "(if c then change_store (drop_unsealed_enrolls now) else id) (follow_rotation cs d t)"
    have "quiet (follow_rotation cs d t) ?t" "quiet ?t ((if c' then change_store (follow_removal now cs d p) else id) ?t)"
      by (simp_all add: store)
    then show "quiet w ((if c' then change_store (follow_removal now cs d p) else id) ?t)"
      using q rotation[of t cs] quiet_trans by blast
  qed
  show ?thesis
    unfolding finish_act_def wp_seq
    apply (rule wp_imp[OF read])
     apply (simp_all add: wp_eqs put assms(2))
    done
qed

lemma finish_act_moves:
  assumes "quiet w s" "dict_get (ho_records w) (ar_id a) = Some (ActRow a)"
  shows "wp (finish_act cl fl now a d p post) (\<lambda>_. moves now w) (moves now w) s"
  by (rule finish_act_wp[OF assms(1) quiet_moves]) (use assms(2) in \<open>auto intro: act_moves[OF quiet_refl]\<close>)

lemma answer_act_moves:
  assumes "dict_get (ho_records w) (ar_id a) = Some (ActRow a)"
  shows "wp (answer_act cl fl now a p sig) (\<lambda>_. moves now w) (moves now w) w"
proof -
  have refused: "wp (refuse_act a e) Q (moves now w) t" if "quiet w t" for t e and Q :: "unit \<Rightarrow> host \<Rightarrow> bool"
    unfolding refuse_act_def wp_eqs by (rule act_moves[OF quiet_refl _ _ that]) (use assms in auto)
  have settle: "wp (settle_act cl fl now a p sig committed) (\<lambda>_. moves now w) (moves now w) t" if "quiet w t" for t committed
    unfolding settle_act_def wp_eqs
    apply (auto intro: finish_act_moves[OF that assms])
    apply (rule quiet_wpI[where u = w, OF still_reads(5) that])
     apply (auto simp: quiet_moves intro: refused finish_act_moves[OF _ assms])
    done
  have gate: "wp (check_gate cl fl a sig) (\<lambda>met. if met then wp (settle_act cl fl now a p sig committed) (\<lambda>_. moves now w) (moves now w)
      else wp (refuse_act a e) (\<lambda>_. wp (settle_act cl fl now a p sig committed) (\<lambda>_. moves now w) (moves now w)) (moves now w))
      (moves now w) t" if "quiet w t" for t committed e
    by (rule quiet_wpI[where u = w, OF still_reads(6) that]) (auto simp: quiet_moves settle refused)
  show ?thesis
    unfolding answer_act_def Let_def wp_eqs
    apply (rule quiet_wpI[OF still_entry(2) quiet_refl])
     apply (auto simp: quiet_moves intro: settle refused gate quiet_trans[OF _ quiet_take])
    done
qed

lemma respond_moves:
  assumes "keyed w"
  shows "wp (respond_card cl fl now rid decision sig) (\<lambda>_. moves now w) (moves now w) w"
proof -
  have found: "x \<in> set (dict_values (ho_records w)) \<and> answerable now rid x" if "record_for_card now rid w = Some x" for x
    using find_Some_mem[OF that[unfolded record_for_card_def]] by blast
  have "dict_get (ho_records w) (ar_id a) = Some (ActRow a)" if "record_for_card now rid w = Some (ActRow a)" for a
    using found[OF that] list_acts_get[OF assms] by (simp add: list_acts_def acts_of_set)
  moreover have "get_reset (rr_id r) w = Some r \<and> rr_state r = Waiting" if "record_for_card now rid w = Some (ResetRow r)" for r
    using found[OF that] list_resets_get[OF assms] by (simp add: list_resets_def resets_of_set)
  ultimately show ?thesis
    unfolding respond_card_def wp_eqs
    by (auto simp: quiet_moves wp_eqs intro: answer_act_moves cancel_moves split: option.split sum.split plane_record.split)
qed

lemma still_seal: "still (check_seal_draft fl d)"
  unfolding check_seal_draft_def by (intro still_seq still_basic)

lemma open_moves:
  assumes "dict_get (ho_records w) (''act-'' @ token) = None"
  shows "wp (top_plane_open cl fl now token rid v psig) (\<lambda>_. moves now w) (moves now w) w"
proof -
  have new: "moves now w (put_act (pending_act now (''act-'' @ token) d m s cards)
      (t\<lparr>ho_store := snd (card_devices now i txt' m' ps l rid (ho_store t))\<rparr>))"
    if "quiet w t" "\<not> list_ex (\<lambda>a. ar_message a = m) (list_acts t)" for t d m s cards i txt' m' ps l
  proof -
    let ?t = "t\<lparr>ho_store := snd (card_devices now i txt' m' ps l rid (ho_store t))\<rparr>"
    have q: "quiet w ?t" "quiet t ?t" using that(1) quiet_cards quiet_refl by blast+
    have "plane_move now ?t (put_act (pending_act now (''act-'' @ token) d m s cards) ?t)"
      by (rule plane_move.ActNew)
        (use assms that(2) in \<open>auto simp: pending_act_def quiet_records[OF q(1)] list_ex_iff quiet_records(5)[OF q(1)] quiet_records(5)[OF that(1)]\<close>)
    then show ?thesis using moves_step[OF quiet_moves[OF q(1)]] by blast
  qed
  have check: "still (check_act cl fl now d psig)" for d
    unfolding check_act_def by (intro still_seq still_basic still_reads) (simp_all add: still_seal still_basic)
  show ?thesis
    unfolding top_plane_open_def wp_eqs
    apply (auto split: sum.split)
    apply (rule quiet_wpI[OF check quiet_refl])
     apply (auto simp: quiet_moves wp_eqs card_act_def case_prod_unfold split: option.split)
    apply (use new in simp)
    done
qed

text \<open>A loop over the rows as they were read: the work on one leaves the others as they were.\<close>

definition touches :: "string \<Rightarrow> host \<Rightarrow> host \<Rightarrow> bool" where
  "touches i w t \<longleftrightarrow> (keyed w \<longrightarrow> keyed t) \<and> (\<forall>j. j \<noteq> i \<longrightarrow> dict_get (ho_records t) j = dict_get (ho_records w) j)"

lemma touches_quiet: "quiet w t \<Longrightarrow> touches i w t"
  by (simp add: touches_def quiet_records keyed_def)

lemma touches_put:
  assumes "quiet w t"
  shows "touches (rr_id r) w (put_reset r t)" "touches (ar_id a) w (put_act a t)"
proof -
  have "dict_get (ho_records (put_reset r t)) j = dict_get (ho_records w) j" if "j \<noteq> rr_id r" for j
    using that assms by (simp add: put_reset_def dict_facts quiet_records)
  moreover have "dict_get (ho_records (put_act a t)) j = dict_get (ho_records w) j" if "j \<noteq> ar_id a" for j
    using that assms by (simp add: put_act_def dict_facts quiet_records)
  ultimately show "touches (rr_id r) w (put_reset r t)" "touches (ar_id a) w (put_act a t)"
    unfolding touches_def using keyed_put keyed_quiet[OF _ assms] by blast+
qed

lemma wp_conj: "wp m Q E s \<Longrightarrow> wp m Q' E' s \<Longrightarrow> wp m (\<lambda>x t. Q x t \<and> Q' x t) (\<lambda>t. E t \<and> E' t) s"
  by (simp add: wp_def split: prod.splits sum.splits)

lemma roll_record_wp:
  assumes "dict_get (ho_records w) (row_id x) = Some x"
  shows "wp (roll_forward_record cl fl now x) (\<lambda>_ t. moves now w t \<and> touches (row_id x) w t)
    (\<lambda>t. moves now w t \<and> touches (row_id x) w t) w"
proof (cases x)
  case (ResetRow r)
  have cur: "get_reset (rr_id r) w = Some r" using assms ResetRow by (simp add: get_reset_def)
  have fin: "wp (finish_reset_seat cl fl now r None) (\<lambda>_ t. moves now w t \<and> touches (rr_id r) w t)
      (\<lambda>t. moves now w t \<and> touches (rr_id r) w t) t" if "quiet w t" "rr_state r = Registered" for t
    using that cur quiet_records(3)[OF that(1)] touches_put(1)[of w _ "seat_done _ r"]
    by (intro wp_conj finish_moves[OF that(1)] finish_reset_wp[OF that(1)]) (auto intro: touches_quiet)
  show ?thesis
    unfolding ResetRow roll_forward_record.simps wp_eqs row_id.simps
    apply (auto simp: touches_quiet)
    apply (rule quiet_wpI[OF still_entry(1) quiet_refl])
     apply (auto simp: quiet_moves touches_quiet fin)
    done
next
  case (ActRow a)
  have fin: "wp (finish_act cl fl now a (ar_draft a) None None) (\<lambda>_ t. moves now w t \<and> touches (ar_id a) w t)
      (\<lambda>t. moves now w t \<and> touches (ar_id a) w t) t" if "quiet w t" for t
    using that assms ActRow touches_put(2)[of w _ "a\<lparr>ar_state := ActAppended\<rparr>"]
    by (intro wp_conj finish_act_moves[OF that] finish_act_wp[OF that]) (auto intro: touches_quiet)
  show ?thesis
    unfolding ActRow roll_forward_record.simps wp_eqs row_id.simps
    apply (auto simp: touches_quiet)
    apply (rule quiet_wpI[OF still_entry(2) quiet_refl])
     apply (auto simp: quiet_moves touches_quiet fin)
    done
qed

lemma attempt_wp: "wp m (\<lambda>_. P) P w \<Longrightarrow> wp (attempt m) (\<lambda>_. P) P w"
  by (auto simp: wp_def attempt_def split: prod.splits sum.splits plane_error.splits top_error.splits)

lemma roll_all_wp:
  assumes "keyed w" "distinct (map row_id xs)" "\<forall>x \<in> set xs. dict_get (ho_records w) (row_id x) = Some x"
  shows "wp (roll_forward_all cl fl now xs) (\<lambda>_ t. moves now w t \<and> keyed t) (\<lambda>t. moves now w t \<and> keyed t) w"
  using assms
proof (induction xs arbitrary: w)
  case (Cons x xs)
  have one: "wp (attempt (roll_forward_record cl fl now x)) (\<lambda>_ t. moves now w t \<and> touches (row_id x) w t)
      (\<lambda>t. moves now w t \<and> touches (row_id x) w t) w"
    by (rule attempt_wp[OF roll_record_wp]) (use Cons.prems(3) in simp)
  show ?case
    unfolding roll_forward_all.simps wp_seq
  proof (rule wp_imp[OF one])
    fix t assume t: "moves now w t \<and> touches (row_id x) w t"
    have k: "keyed t" using t Cons.prems(1) by (simp add: touches_def)
    have "\<forall>y \<in> set xs. dict_get (ho_records t) (row_id y) = Some y"
    proof
      fix y assume y: "y \<in> set xs"
      then have "row_id y \<noteq> row_id x" using Cons.prems(2) by (metis distinct.simps(2) image_eqI list.map(2) list.set_map)
      then show "dict_get (ho_records t) (row_id y) = Some y" using t y Cons.prems(3) by (simp add: touches_def)
    qed
    then have "wp (roll_forward_all cl fl now xs) (\<lambda>_ s. moves now t s \<and> keyed s) (\<lambda>s. moves now t s \<and> keyed s) t"
      using Cons.IH[OF k] Cons.prems(2) by simp
    then show "wp (roll_forward_all cl fl now xs) (\<lambda>_ s. moves now w s \<and> keyed s) (\<lambda>s. moves now w s \<and> keyed s) t"
      by (rule wp_imp) (use t moves_trans in blast)+
  qed (use Cons.prems(1) in \<open>auto simp: touches_def\<close>)
qed (simp add: wp_eqs)

lemma recard_one_moves:
  assumes "quiet w t" "get_reset (rr_id r) w = Some r" "rr_state r = Waiting"
  shows "moves now w (recard_one now rid r t) \<and> touches (rr_id r) w (recard_one now rid r t)"
proof -
  have kept: "revocations (snd (fold (\<lambda>(i, p) (cards, s). (f i p cards, add_pending (g i p) s)) ps acc)) = revocations (snd acc)"
    for f g ps and acc :: "(string, string) dict \<times> store"
    by (induction ps arbitrary: acc) (auto split: prod.split)
  obtain cards st where one: "recard_one now rid r t = put_reset (r\<lparr>rr_cards := cards\<rparr>) (t\<lparr>ho_store := st\<rparr>)"
    and st: "revocations st = revocations (ho_store t)"
    unfolding recard_one_def Let_def case_prod_unfold
    using kept[unfolded case_prod_unfold, of _ _ "enumerate 0 (owners_of (ho_store t))" "([], ho_store t)"] by fastforce
  have q: "quiet w (t\<lparr>ho_store := st\<rparr>)" by (rule quiet_trans[OF assms(1) quiet_store[OF st]])
  show ?thesis
    unfolding one using step_moves[OF quiet_refl assms(2) reset_step.Recard[OF assms(3)] q]
      touches_put(1)[OF q, of "r\<lparr>rr_cards := cards\<rparr>"] by simp
qed

lemma recard_all_moves:
  assumes "keyed w" "distinct (map rr_id rs)" "\<forall>r \<in> set rs. get_reset (rr_id r) w = Some r"
  shows "wp (recard_all now rid rs) (\<lambda>_. moves now w) (moves now w) w"
  using assms
proof (induction rs arbitrary: w)
  case (Cons r rs)
  have rest: "wp (recard_all now rid rs) (\<lambda>_. moves now w) (moves now w) t" if "moves now w t" "touches (rr_id r) w t" for t
  proof -
    have "get_reset (rr_id x) t = Some x" if x: "x \<in> set rs" for x
    proof -
      have "rr_id x \<noteq> rr_id r" using x Cons.prems(2) by (metis distinct.simps(2) image_eqI list.map(2) list.set_map)
      then show ?thesis using \<open>touches (rr_id r) w t\<close> x Cons.prems(3) by (simp add: touches_def get_reset_def)
    qed
    then have "wp (recard_all now rid rs) (\<lambda>_. moves now t) (moves now t) t"
      using Cons.prems that by (intro Cons.IH) (auto simp: touches_def)
    then show ?thesis by (rule wp_imp) (use that moves_trans in blast)+
  qed
  have cur: "get_reset (rr_id r) w = Some r" using Cons.prems(3) by simp
  show ?case
    unfolding recard_all.simps wp_eqs
    apply (auto simp: rest touches_quiet)
    apply (rule reset_open_moves[OF quiet_refl])
     apply (auto simp: rest quiet_moves touches_quiet recard_one_moves[OF _ cur])
    done
qed (simp add: wp_eqs)

lemma start_plane_moves:
  assumes "keyed w"
  shows "wp (start_plane cl fl now key rid) (\<lambda>_. moves now w) (moves now w) w"
proof -
  let ?k = "w\<lparr>ho_code_key := key\<rparr>"
  have k: "keyed ?k" by (rule keyed_quiet[OF assms]) simp
  have keep: "keyed (fold (\<lambda>r. put_reset (code_cleared r)) rs t)" if "keyed t" for rs t
    using that by (induction rs arbitrary: t) (auto intro: keyed_put)
  have clear: "moves now w (clear_dead_reset_codes ?k)" "keyed (clear_dead_reset_codes ?k)"
  proof -
    have "moves now ?k (clear_dead_reset_codes ?k)"
      unfolding clear_dead_reset_codes_def
      by (rule fold_put_moves) (use subseq_distinct[OF subseq_filter_left distinct_resets[OF k]] found_resets[OF k]
        in \<open>auto simp: dead_code_def intro: reset_step.Clear\<close>)
    then show "moves now w (clear_dead_reset_codes ?k)"
      using moves_trans[OF quiet_moves[of w ?k]] by simp
    show "keyed (clear_dead_reset_codes ?k)" unfolding clear_dead_reset_codes_def by (rule keep[OF k])
  qed
  have rows: "distinct (map row_id (dict_values (ho_records t)))"
    "\<forall>x \<in> set (dict_values (ho_records t)). dict_get (ho_records t) (row_id x) = Some x" if "keyed t" for t
  proof -
    have "\<forall>p \<in> set (ho_records t). row_id (snd p) = fst p" using that by (auto simp: keyed_def dict_get_iff)
    then have "map row_id (dict_values (ho_records t)) = dict_keys (ho_records t)" by (simp add: comp_def)
    then show "distinct (map row_id (dict_values (ho_records t)))" using that by (simp only: keyed_def dict_wf_def)
    show "\<forall>x \<in> set (dict_values (ho_records t)). dict_get (ho_records t) (row_id x) = Some x"
      using that by (auto simp: keyed_def dict_get_iff)
  qed
  have roll: "wp (roll_forward_committed cl fl now) (\<lambda>_ s. moves now t s \<and> keyed s) (\<lambda>s. moves now t s \<and> keyed s) t"
    if "keyed t" for t
    using roll_all_wp[OF that rows[OF that]] that
    by (auto simp: roll_forward_committed_def wp_def ret_def fail_def split: sum.split chain_error.split)
  have recard: "wp (recard_open_resets now rid) (\<lambda>_. moves now t) (moves now t) t" if "keyed t" for t
    unfolding recard_open_resets_def wp_eqs
    by (rule recard_all_moves[OF that distinct_resets[OF that]]) (simp add: found_resets[OF that])
  show ?thesis
    unfolding start_plane_def wp_eqs
    apply (rule wp_imp[OF roll[OF clear(2)]])
     apply (auto intro: wp_imp[OF recard] moves_trans clear(1))
    done
qed

end
