(* ===== verification/PlaneRuns.thy ===== *)
theory PlaneRuns
  imports PlaneMoves
begin

text \<open>
  Runs of the top plane: the handlers in any order, at clock readings that do not go back, between
  restarts and whatever the other routes do to the registry and to the chain. What the moves of
  \<open>PlaneMoves\<close> keep, every run keeps.
\<close>

section \<open>What the moves keep\<close>

text \<open>A reset's record: its window lies between its start and whatever happens to a slot, each slot is
  seated once, a code that can still be redeemed has seen fewer wrong ones than burn it, and no signed
  leg was spent twice.\<close>

definition reset_wf :: "int \<Rightarrow> int \<Rightarrow> reset_record \<Rightarrow> bool" where
  "reset_wf window now r \<longleftrightarrow> (let it = rr_intent r in
     rr_id r = it_id it \<and> names_itself it \<and> set (it_slots it) \<subseteq> set slots
     \<and> rr_created r + window - 60 \<le> it_not_before it \<and> rr_created r \<le> now
     \<and> (rr_state r \<in> {Armed, Registered} \<or> rr_completed r \<noteq> [] \<longrightarrow> it_not_before it \<le> now)
     \<and> (rr_state r \<in> {Armed, Registered} \<longrightarrow> (\<exists>slot. rr_slot r = Some slot \<and> seatable slot r))
     \<and> distinct (rr_completed r) \<and> set (rr_completed r) \<subseteq> set (it_slots it)
     \<and> (rr_state r = Completed \<longrightarrow> set (rr_completed r) = set (it_slots it))
     \<and> (rr_code_hash r \<noteq> None \<longrightarrow> rr_state r = Armed \<and> rr_challenge_mac r = None \<and> rr_code_attempts r < reset_code_attempts)
     \<and> (rr_challenge_mac r \<noteq> None \<longrightarrow> rr_state r = Armed)
     \<and> (rr_state r = Registered \<longrightarrow> (\<exists>c. rr_challenge r = Some c \<and> c \<noteq> []))
     \<and> (rr_code_hash r \<noteq> None \<or> rr_challenge_mac r \<noteq> None \<or> rr_state r = Registered \<longrightarrow> it_not_before it \<le> rr_code_expires r)
     \<and> distinct (rr_arm_nonces r) \<and> distinct (rr_abort_nonces r))"

definition only_one_open :: "int \<Rightarrow> host \<Rightarrow> bool" where
  "only_one_open now w \<longleftrightarrow> (\<forall>r \<in> set (list_resets w). \<forall>r' \<in> set (list_resets w). ended now r \<or> ended now r' \<or> r = r')"

definition acts_apart :: "host \<Rightarrow> bool" where
  "acts_apart w \<longleftrightarrow> (\<forall>a \<in> set (list_acts w). \<forall>b \<in> set (list_acts w). ar_message a = ar_message b \<longrightarrow> a = b)"

definition plane_inv :: "int \<Rightarrow> host \<Rightarrow> bool" where
  "plane_inv now w \<longleftrightarrow> keyed w \<and> unrevoked w \<and> (\<forall>r \<in> set (list_resets w). reset_wf (ho_window w) now r)
     \<and> only_one_open now w \<and> acts_apart w"

lemma ended_later: "ended now r \<Longrightarrow> now \<le> now' \<Longrightarrow> ended now' r"
  by (auto simp: ended_def reset_expired_def)

lemma reset_wf_later: "reset_wf window now r \<Longrightarrow> now \<le> now' \<Longrightarrow> reset_wf window now' r"
  unfolding reset_wf_def Let_def by (meson order_trans)

lemma plane_inv_later: "plane_inv now w \<Longrightarrow> now \<le> now' \<Longrightarrow> plane_inv now' w"
  unfolding plane_inv_def only_one_open_def using ended_later reset_wf_later by blast

lemma step_keeps:
  assumes "reset_step now r r'"
  shows "rr_id r' = rr_id r \<and> rr_intent r' = rr_intent r \<and> rr_created r' = rr_created r
    \<and> (rr_state r' \<in> open_states \<longrightarrow> rr_state r \<in> open_states)"
  using assms by cases (auto simp: add_nonce_def armed_reset_def redeemed_def wrong_code_def registered_reset_def
      seat_done_def code_cleared_def open_states_def Let_def split: leg.split)

lemma step_wf:
  assumes "reset_step now r r'" "reset_wf window now r"
  shows "reset_wf window now r'"
  using assms(1)
proof cases
  case (Nonce nonce l)
  then show ?thesis using assms(2) by (cases l) (simp_all add: reset_wf_def Let_def add_nonce_def leg_nonces_def seatable_def)
next
  case (Arm slot m)
  then show ?thesis using assms(2)
    by (auto simp: reset_wf_def Let_def armed_reset_def seatable_def reset_code_attempts_def)
next
  case (Redeem m)
  then show ?thesis using assms(2) by (auto simp: reset_wf_def Let_def redeemed_def seatable_def)
next
  case Wrong
  then show ?thesis using assms(2) by (auto simp: reset_wf_def Let_def wrong_code_def seatable_def code_live_def)
next
  case (Answer rq)
  then have "pq_challenge rq \<noteq> []" by (auto simp: startswith_def reset_challenge_prefix_def)
  then show ?thesis using Answer assms(2) by (auto simp: reset_wf_def Let_def registered_reset_def seatable_def)
next
  case (Seat slot)
  then show ?thesis using assms(2)
    by (auto simp: reset_wf_def Let_def seat_done_def seatable_def filter_empty_conv)
next
  case Clear
  then show ?thesis using assms(2) by (auto simp: reset_wf_def Let_def code_cleared_def seatable_def)
next
  case (Recard cards)
  then show ?thesis using assms(2) by (auto simp: reset_wf_def Let_def seatable_def)
qed

lemma step_ended:
  assumes "reset_step now r r'" "reset_wf window now r" "ended now r"
  shows "ended now r'"
  using assms(1)
proof cases
  case (Nonce nonce l)
  then show ?thesis using assms(3) 
    by (cases l) (auto simp: ended_def reset_expired_def reset_anchor_def add_nonce_def split: if_splits)
next
  case (Seat slot)
  then show ?thesis using assms(2,3)
    by (auto simp: ended_def reset_expired_def reset_anchor_def seat_done_def reset_wf_def Let_def open_states_def split: if_splits)
qed (use assms(3) in \<open>auto simp: ended_def reset_expired_def reset_anchor_def open_states_def code_live_def code_cleared_def\<close>)

lemma close_keeps:
  assumes "reset_close r r'"
  shows "rr_id r' = rr_id r \<and> rr_intent r' = rr_intent r \<and> rr_created r' = rr_created r \<and> rr_state r' \<notin> open_states"
  using assms by cases (auto simp: open_states_def)

lemma close_wf:
  assumes "reset_close r r'" "reset_wf window now r"
  shows "reset_wf window now r'"
  using assms by cases (auto simp: reset_wf_def Let_def seatable_def)

lemma resets_put:
  assumes "keyed w"
  shows "set (list_resets (put_reset r w)) = insert r {x \<in> set (list_resets w). rr_id x \<noteq> rr_id r}"
  using list_resets_get[OF keyed_put(1)[OF assms]] list_resets_get[OF assms] by (auto split: if_splits)

lemma resets_put_act:
  assumes "keyed w" "dict_get (ho_records w) (ar_id a) = None \<or> (\<exists>b. dict_get (ho_records w) (ar_id a) = Some (ActRow b))"
  shows "set (list_resets (put_act a w)) = set (list_resets w)"
  using assms list_resets_get[OF keyed_put(2)[OF assms(1)]] list_resets_get[OF assms(1)]
  by (auto simp: get_reset_iff put_act_def dict_facts split: if_splits)

lemma acts_put:
  assumes "keyed w"
  shows "set (list_acts (put_act a w)) = insert a {x \<in> set (list_acts w). ar_id x \<noteq> ar_id a}"
  using list_acts_get[OF keyed_put(2)[OF assms]] list_acts_get[OF assms] by (auto simp: put_act_def dict_facts split: if_splits)

lemma acts_put_reset:
  assumes "keyed w" "dict_get (ho_records w) (rr_id r) = None \<or> get_reset (rr_id r) w \<noteq> None"
  shows "set (list_acts (put_reset r w)) = set (list_acts w)"
  using assms list_acts_get[OF keyed_put(1)[OF assms(1)]] list_acts_get[OF assms(1)]
  by (auto simp: get_reset_iff put_reset_def dict_facts split: if_splits) 

lemma put_fields [simp]: "ho_window (put_reset r w) = ho_window w" "ho_store (put_reset r w) = ho_store w"
  "ho_window (put_act a w) = ho_window w" "ho_store (put_act a w) = ho_store w"
  "revoked_in (put_reset r w) j = revoked_in w j" "revoked_in (put_act a w) j = revoked_in w j"
  by (simp_all add: put_reset_def put_act_def revoked_in_def)

lemma inv_put_reset:
  assumes "plane_inv now w" "dict_get (ho_records w) (rr_id r) = None \<or> get_reset (rr_id r) w \<noteq> None"
    and "reset_wf (ho_window w) now r" "rr_state r \<in> open_states \<longrightarrow> \<not> revoked_in w (reset_jti r)"
    and "\<forall>x \<in> set (list_resets w). rr_id x \<noteq> rr_id r \<longrightarrow> ended now x \<or> ended now r"
  shows "plane_inv now (put_reset r w)"
proof -
  have k: "keyed w" using assms(1) by (simp add: plane_inv_def)
  note sets = resets_put[OF k, of r] acts_put_reset[OF k assms(2)]
  have "only_one_open now (put_reset r w)" using assms(1,5) by (auto simp: plane_inv_def only_one_open_def sets)
  moreover have "unrevoked (put_reset r w)" using assms(1,4) by (auto simp: plane_inv_def unrevoked_def sets)
  ultimately show ?thesis
    using assms(1,3) keyed_put(1)[OF k] by (auto simp: plane_inv_def acts_apart_def sets)
qed

lemma inv_put_act:
  assumes "plane_inv now w" "dict_get (ho_records w) (ar_id a) = None \<or> (\<exists>b. dict_get (ho_records w) (ar_id a) = Some (ActRow b))"
    and "\<forall>b \<in> set (list_acts w). ar_id b \<noteq> ar_id a \<longrightarrow> ar_message b \<noteq> ar_message a"
  shows "plane_inv now (put_act a w)"
proof -
  have k: "keyed w" using assms(1) by (simp add: plane_inv_def)
  note sets = resets_put_act[OF k assms(2)] acts_put[OF k, of a]
  have "acts_apart (put_act a w)" using assms(1,3) by (auto simp: plane_inv_def acts_apart_def sets)
  moreover have "unrevoked (put_act a w)" "only_one_open now (put_act a w)"
    using assms(1) by (auto simp: plane_inv_def unrevoked_def only_one_open_def sets)
  ultimately show ?thesis
    using assms(1) keyed_put(2)[OF k] by (auto simp: plane_inv_def sets)
qed

text \<open>A revocation of one reset's identifier is of no other's.\<close>

lemma revoked_add:
  "revoked_in (change_store (add_revocation now e) w) j \<Longrightarrow> revoked_in w j \<or> j = rev_jti e"
  by (auto simp: revoked_in_def change_store_def add_revocation_def Let_def purge_revocations_def
      map_of_eq_None_iff dest!: subsetD[OF dict_set_members] split: if_splits)

lemma move_inv:
  assumes "plane_move now w w'" "plane_inv now w"
  shows "plane_inv now w'"
  using assms(1)
proof cases
  case Quiet
  then show ?thesis using assms(2) keyed_quiet[of w w'] quiet_revoked
    by (auto simp: plane_inv_def unrevoked_def only_one_open_def acts_apart_def quiet_records reset_jti_def)
next
  case (Begin it card_text msg psig cards)
  let ?r = "waiting_reset now it card_text msg psig cards"
  have "reset_wf (ho_window w) now ?r" "\<not> revoked_in w (reset_jti ?r)" "rr_id ?r = it_id it"
    using Begin by (auto simp: reset_wf_def Let_def waiting_reset_def reset_jti_def)
  then show ?thesis unfolding Begin(1) by (intro inv_put_reset[OF assms(2)]) (use Begin in auto)
next
  case (Step i r r')
  have k: "keyed w" using assms(2) by (simp add: plane_inv_def)
  have mem: "r \<in> set (list_resets w)" "rr_id r = i" using Step(2) list_resets_get[OF k] keyed_id[OF k] by auto
  then have wf: "reset_wf (ho_window w) now r" "rr_state r \<in> open_states \<longrightarrow> \<not> revoked_in w (reset_jti r)"
    using assms(2) by (auto simp: plane_inv_def unrevoked_def)
  note keeps = step_keeps[OF Step(3)]
  have "ended now x \<or> ended now r'" if "x \<in> set (list_resets w)" "rr_id x \<noteq> rr_id r'" for x
    using assms(2) that mem keeps step_ended[OF Step(3) wf(1)] by (auto simp: plane_inv_def only_one_open_def)
  then show ?thesis
    unfolding Step(1)
    by (intro inv_put_reset[OF assms(2)])
      (use Step(2) mem keeps wf step_wf[OF Step(3) wf(1)] in \<open>auto simp: reset_jti_def\<close>)
next
  case (Close i r r' e)
  have k: "keyed w" using assms(2) by (simp add: plane_inv_def)
  have mem: "r \<in> set (list_resets w)" "rr_id r = i" using Close(2) list_resets_get[OF k] keyed_id[OF k] by auto
  then have wf: "reset_wf (ho_window w) now r" using assms(2) by (auto simp: plane_inv_def)
  note keeps = close_keeps[OF Close(3)]
  let ?w = "change_store (add_revocation now e) (put_reset r' w)"
  have swap: "w' = ?w" unfolding Close(1) by (simp add: put_reset_def change_store_def)
  have inv: "plane_inv now (put_reset r' w)"
    by (rule inv_put_reset[OF assms(2)])
      (use Close(2) mem keeps close_wf[OF Close(3) wf] in \<open>auto simp: ended_def\<close>)
  have same: "ho_records ?w = ho_records (put_reset r' w)" "ho_window ?w = ho_window (put_reset r' w)" by (simp_all add: change_store_def)
  then have lists: "list_resets ?w = list_resets (put_reset r' w)" "list_acts ?w = list_acts (put_reset r' w)"
    by (simp_all add: list_resets_def list_acts_def)
  have "\<not> revoked_in ?w (reset_jti x)" if "x \<in> set (list_resets (put_reset r' w))" "rr_state x \<in> open_states" for x
  proof
    assume "revoked_in ?w (reset_jti x)"
    then have "revoked_in (put_reset r' w) (reset_jti x) \<or> reset_jti x = reset_jti r" using revoked_add Close(4) by force
    moreover have "\<not> revoked_in (put_reset r' w) (reset_jti x)" using inv that by (auto simp: plane_inv_def unrevoked_def)
    ultimately have "it_id (rr_intent x) = it_id (rr_intent r)" by (simp add: reset_jti_def)
    moreover have "rr_id x = it_id (rr_intent x)" "rr_id r = it_id (rr_intent r)"
      using inv that(1) wf by (auto simp: plane_inv_def reset_wf_def Let_def)
    ultimately have "x = r'" using that(1) resets_put[OF k, of r'] keeps by auto
    then show False using that(2) keeps by simp
  qed
  then show ?thesis
    unfolding swap using inv by (simp add: plane_inv_def unrevoked_def only_one_open_def acts_apart_def keyed_def lists same)
next
  case (ActNew a)
  then show ?thesis using inv_put_act[OF assms(2), of a] by auto
next
  case (ActPut a b)
  have k: "keyed w" using assms(2) by (simp add: plane_inv_def)
  have b: "ar_id b = ar_id a" using k ActPut(2) by (force simp: keyed_def)
  then have "b \<in> set (list_acts w)" using ActPut(2) list_acts_get[OF k] by simp
  then have "\<forall>x \<in> set (list_acts w). ar_id x \<noteq> ar_id a \<longrightarrow> ar_message x \<noteq> ar_message a"
    using assms(2) ActPut(3) b by (auto simp: plane_inv_def acts_apart_def)
  then show ?thesis using inv_put_act[OF assms(2), of a] ActPut by auto
qed

lemma moves_inv: "moves now w w' \<Longrightarrow> plane_inv now w \<Longrightarrow> plane_inv now w'"
  unfolding moves_def by (induction rule: rtranclp_induct) (auto intro: move_inv)

section \<open>What only grows\<close>

definition final_states :: "reset_state set" where "final_states = {Completed, Cancelled, Aborted}"

text \<open>What a record keeps for good: its intent, the legs it spent, the seats it made; and once it is in a
  final state, that state, its seats and that no device waits in it.\<close>

definition grows :: "reset_record \<Rightarrow> reset_record \<Rightarrow> bool" where
  "grows r r' \<longleftrightarrow> rr_intent r' = rr_intent r \<and> rr_created r' = rr_created r
     \<and> set (rr_arm_nonces r) \<subseteq> set (rr_arm_nonces r') \<and> set (rr_abort_nonces r) \<subseteq> set (rr_abort_nonces r')
     \<and> set (rr_completed r) \<subseteq> set (rr_completed r')
     \<and> (rr_state r \<in> final_states \<longrightarrow> rr_state r' = rr_state r \<and> rr_completed r' = rr_completed r
         \<and> rr_fresh r' = rr_fresh r \<and> rr_code_hash r' = rr_code_hash r)"

lemma grows_refl [simp]: "grows r r"
  by (simp add: grows_def)

lemma grows_trans: "grows r s \<Longrightarrow> grows s t \<Longrightarrow> grows r t"
  by (auto simp: grows_def)

lemma step_grows: "reset_step now r r' \<Longrightarrow> grows r r'"
proof (induction rule: reset_step.induct)
  case (Nonce nonce l r)
  then show ?case by (cases l) (auto simp: grows_def add_nonce_def)
qed (auto simp: grows_def final_states_def open_states_def armed_reset_def redeemed_def wrong_code_def code_live_def
    registered_reset_def seat_done_def code_cleared_def Let_def)

lemma close_grows: "reset_close r r' \<Longrightarrow> grows r r'"
  by (induction rule: reset_close.induct) (auto simp: grows_def final_states_def open_states_def)

definition record_grows :: "host \<Rightarrow> host \<Rightarrow> bool" where
  "record_grows w w' \<longleftrightarrow> (\<forall>i r. get_reset i w = Some r \<longrightarrow> (\<exists>r'. get_reset i w' = Some r' \<and> grows r r'))"

lemma record_grows_trans: "record_grows u v \<Longrightarrow> record_grows v w \<Longrightarrow> record_grows u w"
  unfolding record_grows_def using grows_trans by meson

lemma record_grows_put:
  assumes "get_reset i w = Some r" "grows r r'" "rr_id r' = i"
  shows "record_grows w (put_reset r' w)"
  using assms by (auto simp: record_grows_def grows_def)

lemma move_grows:
  assumes "plane_move now w w'" "keyed w"
  shows "record_grows w w'"
  using assms(1)
proof cases
  case Quiet
  then show ?thesis by (auto simp: record_grows_def quiet_records grows_def)
next
  case (Begin it card_text msg psig cards)
  then show ?thesis by (auto simp: record_grows_def grows_def waiting_reset_def get_reset_iff)
next
  case (Step i r r')
  then show ?thesis using record_grows_put step_grows step_keeps[OF Step(3)] keyed_id[OF assms(2)] by auto
next
  case (Close i r r' e)
  have "get_reset i (change_store f w) = get_reset i w" for f i by (simp add: get_reset_def change_store_def)
  then show ?thesis using Close record_grows_put[of i w r r'] close_grows close_keeps[OF Close(3)] keyed_id[OF assms(2)]
    by (auto simp: record_grows_def)
next
  case (ActNew a)
  then show ?thesis by (auto simp: record_grows_def grows_def put_act_def get_reset_iff dict_facts)
next
  case (ActPut a b)
  then show ?thesis by (auto simp: record_grows_def grows_def put_act_def get_reset_iff dict_facts)
qed

lemma move_keyed:
  assumes "plane_move now w w'" "keyed w"
  shows "keyed w'"
  using assms(1)
proof cases
  case (Close i r r' e)
  have "keyed (change_store f w)" for f using assms(2) by (simp add: keyed_def change_store_def)
  then show ?thesis using Close keyed_put by blast
qed (use assms(2) keyed_quiet keyed_put in blast)+

lemma moves_grow:
  assumes "moves now w w'" "keyed w"
  shows "record_grows w w' \<and> keyed w'"
  using assms unfolding moves_def
proof (induction rule: rtranclp_induct)
  case base
  then show ?case by (auto simp: record_grows_def)
next
  case (step v w')
  then show ?case using move_grows move_keyed record_grows_trans by blast
qed

section \<open>Runs\<close>

datatype plane_call =
    StartReset "nat \<Rightarrow> string" pyval pyval
  | ArmReset nat pyval pyval
  | RedeemCode string string
  | WrongPublicCode
  | RegisterFresh "(string, pyval) dict"
  | CompleteReset string pyval
  | AbortReset pyval pyval
  | AnswerCard string pyval string
  | OpenAct string "nat \<Rightarrow> string" pyval pyval
  | RestartPlane bytes "nat \<Rightarrow> nat \<Rightarrow> string"

fun perform :: "crypto_lib \<Rightarrow> (string \<Rightarrow> string) \<Rightarrow> int \<Rightarrow> plane_call \<Rightarrow> host \<Rightarrow> host" where
  "perform cl fl now (StartReset rid v psig) w = snd (owner_reset_start cl fl now rid v psig w)"
| "perform cl fl now (ArmReset draw v psig) w = snd (owner_reset_arm cl fl now draw v psig w)"
| "perform cl fl now (RedeemCode given token) w = snd (redeem_reset_code now given token w)"
| "perform cl fl now WrongPublicCode w = snd (count_reset_code_failure now w)"
| "perform cl fl now (RegisterFresh body) w = snd (register_fresh_device cl fl now body w)"
| "perform cl fl now (CompleteReset iid psig) w = snd (owner_reset_complete cl fl now iid psig w)"
| "perform cl fl now (AbortReset v psig) w = snd (owner_reset_abort cl fl now v psig w)"
| "perform cl fl now (AnswerCard rid decision sig) w = snd (respond_card cl fl now rid decision sig w)"
| "perform cl fl now (OpenAct token rid v psig) w = snd (top_plane_open cl fl now token rid v psig w)"
| "perform cl fl now (RestartPlane key rid) w = snd (start_plane cl fl now key rid w)"

text \<open>The random part of an act's identifier is one no record has.\<close>

fun fresh_draw :: "plane_call \<Rightarrow> host \<Rightarrow> bool" where
  "fresh_draw (OpenAct token rid v psig) w = (dict_get (ho_records w) (''act-'' @ token) = None)"
| "fresh_draw _ w = True"

lemma perform_moves:
  assumes "plane_inv now w" "fresh_draw c w"
  shows "moves now w (perform cl fl now c w)"
proof -
  have k: "keyed w" "unrevoked w" using assms(1) by (simp_all add: plane_inv_def)
  show ?thesis
    using assms(2) start_moves[OF k(2)] arm_moves[OF k(1)] redeem_moves[OF k(1)] count_moves[OF k(1)] register_moves[OF k(1)]
      complete_moves abort_moves[OF k(1)] respond_moves[OF k(1)] open_moves start_plane_moves[OF k(1)]
    by (cases c) (auto simp: wp_after)
qed

inductive plane_later :: "crypto_lib \<Rightarrow> (string \<Rightarrow> string) \<Rightarrow> int \<Rightarrow> host \<Rightarrow> int \<Rightarrow> host \<Rightarrow> bool"
  for cl fl t w where
  Here: "plane_later cl fl t w t w"
| Call: "plane_later cl fl t w s u \<Longrightarrow> s \<le> now \<Longrightarrow> fresh_draw c u \<Longrightarrow> plane_later cl fl t w now (perform cl fl now c u)"
| Other: "plane_later cl fl t w s u \<Longrightarrow> s \<le> now \<Longrightarrow> quiet u u' \<Longrightarrow> plane_later cl fl t w now u'"

definition plane_reaches :: "crypto_lib \<Rightarrow> (string \<Rightarrow> string) \<Rightarrow> int \<Rightarrow> host \<Rightarrow> bool" where
  "plane_reaches cl fl t w \<longleftrightarrow> (\<exists>t0 w0. ho_records w0 = [] \<and> plane_later cl fl t0 w0 t w)"

lemma later_inv: "plane_later cl fl t w t' w' \<Longrightarrow> plane_inv t w \<Longrightarrow> plane_inv t' w' \<and> record_grows w w' \<and> t \<le> t'"
proof (induction rule: plane_later.induct)
  case Here
  then show ?case by (auto simp: record_grows_def grows_def)
next
  case (Call s u now c)
  have inv: "plane_inv now u" using Call plane_inv_later by blast
  have m: "moves now u (perform cl fl now c u)" by (rule perform_moves[OF inv Call.hyps(3)])
  then show ?case
    using moves_inv[OF m inv] moves_grow[OF m] inv Call record_grows_trans by (auto simp: plane_inv_def)
next
  case (Other s u now u')
  have inv: "plane_inv now u" using Other plane_inv_later by blast
  have m: "moves now u u'" by (rule quiet_moves[OF Other.hyps(3)])
  then show ?case
    using moves_inv[OF m inv] moves_grow[OF m] inv Other record_grows_trans by (auto simp: plane_inv_def)
qed

lemma empty_inv: "ho_records w = [] \<Longrightarrow> plane_inv t w"
  by (simp add: plane_inv_def keyed_def unrevoked_def only_one_open_def acts_apart_def list_resets_def list_acts_def)

lemma reaches_inv: "plane_reaches cl fl t w \<Longrightarrow> plane_inv t w"
  unfolding plane_reaches_def using later_inv empty_inv by blast

end
