(* ===== verification/PlaneSample.thy ===== *)
theory PlaneSample
  imports PlaneRuns
begin

text \<open>
  A sample run: the sealed chain of \<open>GenesisStore\<close>, one registered phone, and one reset from its start to
  its completion. The properties of the runs are shown on it.
\<close>

section \<open>The host\<close>

definition old_phone :: phone where
  "old_phone = (new_phone 0 ''desk'' (b64_encode (chain_sample_key 2)) [''ed25519''] None None None ''primary'' [])\<lparr>ph_id := ''old''\<rparr>"

definition vault_files :: chain_files where
  "vault_files = (sample_file sample_chain_entries, Stored seal_mark)"

definition sample_host :: host where
  "sample_host = \<lparr>ho_id = ''vault'', ho_derived_id = None, ho_expect = None, ho_window = owner_reset_window_seconds,
     ho_operator = None, ho_root_operator = None, ho_code_key = [1], ho_files = vault_files,
     ho_store = empty_store\<lparr>phones := [(''old'', old_phone)]\<rparr>, ho_records = []\<rparr>"

definition sample_state :: chain_state where "sample_state = chain_state.truncate after_seal"

lemma sample_sealed:
  assumes "ho_files w = vault_files" "ho_expect w = None"
  shows "require_sealed sample_lib fl (Some (ho_files w)) False (ho_expect w) = Inr sample_state"
proof -
  have "top_chain_state sample_lib fl (Some (ho_files w)) (ho_expect w) = Inr (Some sample_state)"
    by (simp add: assms top_chain_state_def expected_id_def sample_sealed_reads vault_files_def sample_state_def)
  moreover have "has_kind passphrase_kind (members sample_state)" "has_device (members sample_state)" "sealed_id sample_state = Some ''vault''"
    unfolding sample_state_def using sealed_factors sealed_members(2) by simp_all
  ultimately show ?thesis by (simp add: require_sealed_def)
qed

lemma sample_plane_chain: "ho_files w = vault_files \<Longrightarrow> ho_expect w = None \<Longrightarrow>
    plane_chain sample_lib fl False w = (Inr sample_state, w)"
  using sample_sealed[of w fl] by (simp add: plane_chain_def)

lemma sample_verifies: "verify_signature sample_lib msg (b64_encode (sample_sig n)) (b64_encode (chain_sample_key n)) ''ed25519'' = Inr True"
  by (simp add: verify_signature_def public_key_from_b64u_def sample_lib_def chain_sample_key_def sample_sig_def
      flip: replicate_add)

lemma b64_encode_Nil: "b64_encode raw = [] \<Longrightarrow> raw = []"
proof -
  assume "b64_encode raw = []"
  then have "unb64u (b64_encode raw) = unb64u (b64_encode [])" by (metis b64_encode.simps(1))
  then show "raw = []" unfolding unb64u_encode by simp
qed

lemma sample_key_texts [simp]: "b64_encode (chain_sample_key a) = b64_encode (chain_sample_key b) \<longleftrightarrow> a = b"
  by (metis unb64u_encode sum.inject(2) sample_key_inj)

lemma sample_key_text: "b64_encode (chain_sample_key n) \<noteq> []"
  using b64_encode_Nil[of "chain_sample_key n"] by (auto simp: chain_sample_key_def)

lemma sample_sig_text: "b64_encode (sample_sig n) \<noteq> []"
  using b64_encode_Nil sample_sig_Nil by blast

definition owner_sig :: pyval where "owner_sig = PStr (b64_encode (sample_sig 1))"

lemma sample_passphrase: "verify_passphrase sample_lib sample_state msg owner_sig"
proof -
  have "dict_get (members sample_state) passphrase_kind = Some genesis_entry"
    by (simp add: sample_state_def sealed_members passphrase_kind_def)
  then show ?thesis
    by (simp add: verify_passphrase_def owner_sig_def genesis_entry_def sample_verifies sample_sig_text)
qed

section \<open>Its start\<close>

definition sample_intent :: "(string, pyval) dict" where
  "sample_intent = [(''bootloader_id'', PStr ''vault''), (''intent_id'', PStr ''r1''), (''lost'', PList [PStr ''old'']),
     (''not_before'', PInt 259200), (''slots'', PList [PStr ''primary''])]"

definition sample_it :: intent where
  "sample_it = \<lparr>it_raw = sample_intent, it_id = ''r1'', it_slots = [''primary''], it_lost = [''old''], it_not_before = 259200\<rparr>"

text \<open>A state of the run: the one record, and what the run leaves as it was.\<close>

definition sample_at :: "host \<Rightarrow> reset_record \<Rightarrow> bool" where
  "sample_at w r \<longleftrightarrow> ho_id w = ''vault'' \<and> ho_expect w = None \<and> ho_window w = owner_reset_window_seconds \<and> ho_code_key w = [1]
     \<and> ho_files w = vault_files \<and> ho_records w = [(''r1'', ResetRow r)] \<and> revocations (ho_store w) = []
     \<and> phones (ho_store w) = [(''old'', old_phone)]"

lemma phones_cards: "phones (snd (card_devices now i txt msg ps ttl rid st)) = phones st"
proof -
  have "phones (snd (fold (\<lambda>(i, p) (cards, s). (dict_set (rid i) (ph_id p) cards, add_pending (g i p) s)) ps acc)) = phones (snd acc)"
    for g :: "nat \<Rightarrow> phone \<Rightarrow> pending_card" and ps and acc :: "(string, string) dict \<times> store"
    by (induction ps arbitrary: acc) (auto simp: add_pending_def split: prod.split)
  from this[of "\<lambda>j p. device_card now i txt msg ttl (rid j) p"] show ?thesis by (simp add: card_devices_def)
qed

lemma sample_read_intent: "read_intent sample_intent = Inr ([PStr ''primary''], [PStr ''old''], 259200, ''r1'')"
  by (simp add: read_intent_def sample_intent_def elements_field_def int_field_def text_field_def text_of_def caught_conv_def
      item_def get_def)

lemma sample_when: "\<exists>s. when_text 259200 = Some s"
  by (simp add: when_text_def split: prod.split)

lemma sample_start:
  "\<exists>w out cards txt msg sig. owner_reset_start sample_lib fl 0 rid (PDict sample_intent) owner_sig sample_host = (Inr out, w)
     \<and> sample_at w (waiting_reset 0 sample_it txt msg sig cards)"
proof -
  obtain s where s: "when_text 259200 = Some s" using sample_when by blast
  have files: "ho_files sample_host = vault_files" "ho_expect sample_host = None" by (simp_all add: sample_host_def)
  have held: "held_phones [''primary''] (ho_store sample_host) = [''old'']"
    by (simp add: held_phones_def owners_of_def list_phones_def sample_host_def old_phone_def new_phone_def slots_def)
  have gets: "get sample_intent ''bootloader_id'' = PStr ''vault''" by (simp add: sample_intent_def get_def)
  have rv: "is_revoked 0 j (ho_store sample_host) = (False, ho_store sample_host)" for j
    by (simp add: is_revoked_def purge_revocations_def sample_host_def empty_store_def)
  have fields: "ho_records sample_host = []" "ho_id sample_host = ''vault''" "ho_window sample_host = owner_reset_window_seconds"
    "owner_reset_window_seconds = 259200"
    by (simp_all add: sample_host_def owner_reset_window_seconds_def)
  show ?thesis
    unfolding owner_reset_start_def seq_def sample_plane_chain[OF files]
    by (simp add: step_defs refuse_if_def sample_read_intent gets sample_passphrase slots_def
        start_reset_locked_def seq_def revoked_now_def rv Let_def held lost_refused_def begin_reset_def s phones_cards list_resets_def fields
        case_prod_unfold put_reset_def waiting_reset_def)
      ((rule exI)+, auto simp: sample_at_def sample_it_def sample_host_def phones_cards card_devices_revocations empty_store_def)
qed

section \<open>Its arm\<close>

definition sample_leg :: "(string, pyval) dict" where
  "sample_leg = [(''intent_id'', PStr ''r1''), (''slot'', PStr ''primary''), (''nonce'', PStr ''0123456789abcdef''), (''not_after'', PInt 259500)]"

definition sample_code_mac :: string where
  "sample_code_mac = hexlify (hmac_sha256 [1] (utf8 (''code'' @ ''|'' @ code_text 42)))"

lemma sample_fresh_leg: "fresh_leg 259200 sample_leg = Inr ()" "leg_text sample_leg ''intent_id'' = Inr ''r1''"
    "leg_text sample_leg ''nonce'' = Inr ''0123456789abcdef''" "leg_text sample_leg ''slot'' = Inr ''primary''"
    "truthy (get sample_leg ''intent_id'')" "truthy (get sample_leg ''slot'')" "truthy (get sample_leg ''nonce'')"
  by (simp_all add: fresh_leg_def leg_freshness_def text_field_def int_field_def caught_conv_def text_of_def item_def sample_leg_def
      fresh_pair_def act_fresh_seconds_def leg_text_def get_def)

text \<open>The record after the arm, whatever the cards and the texts were.\<close>

definition sample_armed :: "reset_record \<Rightarrow> reset_record" where
  "sample_armed r = armed_reset 259200 ''primary'' sample_code_mac (add_nonce ArmLeg ''0123456789abcdef'' r)"

definition sample_waiting :: "reset_record \<Rightarrow> bool" where
  "sample_waiting r \<longleftrightarrow> (\<exists>txt msg sig cards. r = waiting_reset 0 sample_it txt msg sig cards)"

lemma sample_not_revoked:
  assumes "revocations (ho_store w) = []"
  shows "is_revoked now j (ho_store w) = (False, ho_store w)"
  by (cases "ho_store w") (use assms in \<open>simp add: is_revoked_def purge_revocations_def\<close>)

lemma phones_take: "phones (take_cards ids st) = phones st"
  unfolding take_cards_def by (induction ids arbitrary: st) (auto simp: take_pending_def Let_def split: option.split)

lemma revocations_take: "revocations (take_cards ids st) = revocations st"
  unfolding take_cards_def by (induction ids arbitrary: st) (auto simp: take_pending_def Let_def split: option.split)

lemma sample_arm:
  assumes "sample_at w r" "sample_waiting r"
  shows "\<exists>w' out. owner_reset_arm sample_lib fl 259200 42 (PDict sample_leg) owner_sig w = (Inr out, w') \<and> sample_at w' (sample_armed r)"
proof -
  have files: "ho_files w = vault_files" "ho_expect w = None" and recs: "ho_records w = [(''r1'', ResetRow r)]"
    and rest: "revocations (ho_store w) = []" "phones (ho_store w) = [(''old'', old_phone)]" "ho_code_key w = [1]"
    "ho_id w = ''vault''" "ho_window w = owner_reset_window_seconds"
    using assms(1) by (simp_all add: sample_at_def)
  have r: "rr_id r = ''r1''" "rr_state r = Waiting" "rr_intent r = sample_it" "rr_completed r = []" "rr_arm_nonces r = []"
    using assms(2) by (auto simp: sample_waiting_def waiting_reset_def sample_it_def)
  have it: "it_id sample_it = ''r1''" "it_slots sample_it = [''primary'']" "it_not_before sample_it = 259200" by (simp_all add: sample_it_def)
  show ?thesis
    unfolding owner_reset_arm_def seq_def sample_plane_chain[OF files]
    by (simp add: step_defs refuse_if_def sample_passphrase sample_fresh_leg spend_leg_nonce_def seq_def get_reset_def recs r
        leg_nonces_def put_reset_def arm_open_reset_def open_reset_def revoked_now_def sample_not_revoked rest reset_expired_def
        reset_anchor_def it seatable_def add_nonce_def mac_def change_store_def sample_at_def files phones_take revocations_take
        sample_armed_def armed_reset_def sample_code_mac_def open_states_def reset_arm_grace_seconds_def)
qed

section \<open>Its fresh device\<close>

definition sample_challenge :: string where "sample_challenge = reset_challenge_prefix @ ''r1'' @ '':'' @ ''t''"

definition sample_challenge_mac :: string where
  "sample_challenge_mac = hexlify (hmac_sha256 [1] (utf8 (''challenge'' @ ''|'' @ sample_challenge)))"

lemma hexlify_empty: "hexlify bs = [] \<longleftrightarrow> bs = []" by (cases bs) (simp_all add: hexlify_def)

lemma sha256_Nil: "sha256 bs \<noteq> []"
  using length_sha256[of bs] by fastforce

lemma sample_macs: "sample_code_mac \<noteq> []" "sample_challenge_mac \<noteq> []"
  by (simp_all add: sample_code_mac_def sample_challenge_mac_def hexlify_empty hmac_sha256_def Let_def sha256_Nil)

lemma sample_code: "code_text 42 \<noteq> []" "is_ascii (code_text 42)" "is_ascii sample_challenge" "startswith sample_challenge reset_challenge_prefix"
proof -
  show "is_ascii sample_challenge" unfolding is_ascii_def sample_challenge_def reset_challenge_prefix_def by simp
  show "startswith sample_challenge reset_challenge_prefix"  unfolding sample_challenge_def reset_challenge_prefix_def by (simp add: startswith_def)
  show "code_text 42 \<noteq> []" "is_ascii (code_text 42)" by (simp_all add: code_text_def digit_def is_ascii_def)
qed

lemma sample_redeem:
  assumes "sample_at w (sample_armed r)" "sample_waiting r"
  shows "\<exists>w'. redeem_reset_code 259201 (code_text 42) ''t'' w = (Inr (Some (sample_challenge, 259501)), w')
    \<and> sample_at w' (redeemed 259201 sample_challenge_mac (sample_armed r))"
proof -
  have files: "ho_files w = vault_files" "ho_expect w = None" and recs: "ho_records w = [(''r1'', ResetRow (sample_armed r))]"
    and rest: "revocations (ho_store w) = []" "phones (ho_store w) = [(''old'', old_phone)]" "ho_code_key w = [1]"
    "ho_id w = ''vault''" "ho_window w = owner_reset_window_seconds"
    using assms(1) by (simp_all add: sample_at_def)
  have r: "rr_id (sample_armed r) = ''r1''" "rr_state (sample_armed r) = Armed" "rr_intent (sample_armed r) = sample_it"
    "rr_code_hash (sample_armed r) = Some sample_code_mac" "rr_code_expires (sample_armed r) = 259800"
    using assms(2) by (auto simp: sample_waiting_def waiting_reset_def sample_it_def sample_armed_def armed_reset_def add_nonce_def)
  have it: "it_id sample_it = ''r1''" "it_slots sample_it = [''primary'']" "it_not_before sample_it = 259200" by (simp_all add: sample_it_def)
  have m: "mac ''code'' (code_text 42) u = (Inr sample_code_mac, u)" "mac ''challenge'' sample_challenge u = (Inr sample_challenge_mac, u)"
    if "ho_code_key u = [1]" for u
    using that by (simp_all add: mac_def step_defs sample_code_mac_def sample_challenge_mac_def)
  have challenge: "reset_challenge_prefix @ ''r1:t'' = sample_challenge"
    by (simp add: sample_challenge_def)
  show ?thesis
    unfolding redeem_reset_code_def seq_def Let_def
    by (simp add: challenge step_defs refuse_if_def armed_reset_for_code_def sample_code m rest seq_def list_resets_def recs code_live_def r
        sample_macs get_reset_def reset_open_in_def revoked_now_def sample_not_revoked reset_is_open_def open_states_def
        reset_expired_def reset_anchor_def it reset_arm_grace_seconds_def put_reset_def sample_at_def files redeemed_def)
qed

definition sample_body :: "(string, pyval) dict" where
  "sample_body = [(''supported_algorithms'', PList [PStr ''ed25519'']), (''v0_4_protocol'', PInt 1),
     (''public_key_b64u'', PStr (b64_encode (chain_sample_key 5))), (''device_label'', PStr ''new desk''),
     (''registration_proof'', PDict [(''challenge'', PStr sample_challenge), (''signature_b64u'', PStr (b64_encode (sample_sig 5)))]),
     (''poll_public_key_b64u'', PStr (b64_encode (chain_sample_key 6))),
     (''poll_key_delegation_b64u'', PStr (b64_encode (sample_sig 5)))]"

lemma sample_key_letters: "list_all key_letter (b64_encode (chain_sample_key 5))" "list_all key_letter (b64_encode (chain_sample_key 6))"
  by code_simp+

lemma sample_canonical:
  assumes "n \<in> {5, 6}"
  shows "require_canonical_key (PStr (b64_encode (chain_sample_key n))) ''ed25519'' = Inr (b64_encode (chain_sample_key n))"
proof -
  have "list_all key_letter (b64_encode (chain_sample_key n))" using assms sample_key_letters by auto
  moreover note sample_key_text[of n]
  ultimately show ?thesis unfolding canonical_key_PStr by (simp add: raw_key_bytes_def chain_sample_key_def)
qed

lemma sample_label: "body_label (PStr ''new desk'') x = ''new desk''"
proof -
  have "strip ''new desk'' = ''new desk''" by code_simp
  then show ?thesis by (simp add: body_label_def)
qed

definition sample_phone :: proved_phone where
  "sample_phone = \<lparr>pq_challenge = sample_challenge, pq_proof = b64_encode (sample_sig 5), pq_key = b64_encode (chain_sample_key 5),
     pq_label = ''new desk'', pq_algorithms = [''ed25519''], pp_push_token = None, pp_push_platform = None,
     pp_poll_key = b64_encode (chain_sample_key 6)\<rparr>"

lemma sample_read_request: "read_phone_request sample_body = Inr (phone_request.truncate sample_phone)"
proof -
  have "body_algorithms (PList [PStr ''ed25519'']) = Inr [''ed25519'']" using body_algorithms_iff[of "PList [PStr ''ed25519'']" "[''ed25519'']"]
    by (simp add: supported_algorithms_def)
  moreover note sample_key_text[of 5]
  ultimately show ?thesis
    by (simp add: read_phone_request_def sample_body_def get_def get_or_def protocol_version_def sample_canonical sample_label sample_phone_def
        phone_request.truncate_def)
qed

lemma sample_proof: "prove_phone sample_lib sample_body (phone_request.truncate sample_phone) = Inr sample_phone"
proof -
  obtain bs where challenge: "ascii_encode sample_challenge = Some bs"
    using sample_code(3) by (simp add: ascii_encode_def)
  have "is_ascii (b64_encode (chain_sample_key 5))" "is_ascii (b64_encode (chain_sample_key 6))" by code_simp+
  moreover have "is_ascii (''recto-poll-key-v1'' @ ''|'')" "is_ascii ''|''" by (simp_all add: is_ascii_def)
  ultimately obtain payload where payload:
    "poll_key_delegation_payload (b64_encode (chain_sample_key 5)) (b64_encode (chain_sample_key 6)) = Some payload"
    by (simp add: poll_key_delegation_payload_def poll_key_delegation_prefix_def ascii_encode_def is_ascii_def)
  have poll: "prove_poll_key sample_lib sample_body (phone_request.truncate sample_phone) = Inr (b64_encode (chain_sample_key 6))"
    using sample_key_text[of 6] sample_sig_text[of 5] payload sample_verifies[of payload 5]
    by (simp add: prove_poll_key_def sample_body_def get_def chosen_algorithm_def sample_phone_def phone_request.truncate_def
        sample_canonical signed_with_def)
  have push: "push_route sample_body = Inr (None, None)" by (simp add: push_route_def sample_body_def get_def)
  have "pq_challenge (phone_request.truncate sample_phone) = sample_challenge"
      "pq_proof (phone_request.truncate sample_phone) = b64_encode (sample_sig 5)"
      "pq_key (phone_request.truncate sample_phone) = b64_encode (chain_sample_key 5)"
      "chosen_algorithm (phone_request.truncate sample_phone) = ''ed25519''"
    by (simp_all add: sample_phone_def phone_request.truncate_def chosen_algorithm_def)
  then show ?thesis
    using sample_verifies[of bs 5] by (simp add: prove_phone_def challenge poll push signed_with_def)
      (simp add: sample_phone_def phone_request.truncate_def phone_request.extend_def)
qed

definition sample_registered :: "reset_record \<Rightarrow> reset_record" where
  "sample_registered r = registered_reset sample_phone (redeemed 259201 sample_challenge_mac (sample_armed r))"

lemma sample_register:
  assumes "sample_at w (redeemed 259201 sample_challenge_mac (sample_armed r))" "sample_waiting r"
  shows "\<exists>w' ref. register_fresh_device sample_lib fl 259202 sample_body w = (Inr (Some ref), w') \<and> sample_at w' (sample_registered r)"
proof -
  let ?r = "redeemed 259201 sample_challenge_mac (sample_armed r)"
  have files: "ho_files w = vault_files" "ho_expect w = None" and recs: "ho_records w = [(''r1'', ResetRow ?r)]"
    and rest: "revocations (ho_store w) = []" "phones (ho_store w) = [(''old'', old_phone)]" "ho_code_key w = [1]"
    "ho_id w = ''vault''" "ho_window w = owner_reset_window_seconds"
    using assms(1) by (simp_all add: sample_at_def)
  have r: "rr_id ?r = ''r1''" "rr_state ?r = Armed" "rr_intent ?r = sample_it" "rr_challenge_mac ?r = Some sample_challenge_mac"
    "rr_challenge_expires ?r = 259501"
    using assms(2) by (auto simp: sample_waiting_def waiting_reset_def sample_it_def sample_armed_def armed_reset_def add_nonce_def redeemed_def)
  have it: "it_id sample_it = ''r1''" "it_slots sample_it = [''primary'']" "it_not_before sample_it = 259200" by (simp_all add: sample_it_def)
  have m: "mac ''challenge'' sample_challenge w = (Inr sample_challenge_mac, w)"
    using rest(3) by (simp add: mac_def step_defs sample_challenge_mac_def)
  have found: "reset_for_challenge 259202 sample_challenge w = (Inr (Some ?r), w)"
    by (simp add: reset_for_challenge_def sample_code seq_def step_defs list_resets_def recs challenge_held_def r sample_macs m)
  have challenge: "pq_challenge (phone_request.truncate sample_phone) = sample_challenge" "pq_challenge sample_phone = sample_challenge"
    by (simp_all add: sample_phone_def phone_request.truncate_def)
  have opened: "reset_open_in 259202 ?r w = (Inr True, w)"
    by (simp add: reset_open_in_def seq_def revoked_now_def sample_not_revoked rest step_defs reset_is_open_def open_states_def
        reset_expired_def reset_anchor_def r it reset_arm_grace_seconds_def)
  have chain: "top_chain_state sample_lib fl (Some vault_files) None = Inr (Some sample_state)"
    by (simp add: top_chain_state_def expected_id_def sample_sealed_reads vault_files_def sample_state_def)
  have "phone_ref_of k \<noteq> ''old''" for k by (simp add: phone_ref_of_def)
  moreover have "\<not> is_current_member (Some sample_state) (pq_key sample_phone)"
    by (auto simp: is_current_member_def sample_state_def sealed_members sample_phone_def genesis_entry_def device_entry_def)
  ultimately show ?thesis
    unfolding register_fresh_device_def seq_def register_locked_def
    by (simp add: step_defs refuse_if_def sample_read_request challenge sample_code found sample_proof opened chain get_phone_def rest
        put_reset_def sample_registered_def sample_at_def files recs registered_reset_def r)
      (use r(1) in \<open>simp add: redeemed_def\<close>)
qed

section \<open>Its completion\<close>

definition reset_meta_fields :: "(string, pyval) dict" where
  "reset_meta_fields = [(''challenge'', PStr sample_challenge), (''intent_id'', PStr ''r1''), (''lost'', PList [PStr ''old'']),
     (''not_before'', PInt 259200), (''slot'', PStr ''primary'')]"

definition reset_entry :: chain_entry where
  "reset_entry = \<lparr>ce_seq = 3, ce_op = OpReset, ce_kind = ''primary-phone'', ce_pubkey = chain_sample_key 5, ce_algorithm = ''ed25519'',
     ce_prev = Some (entry_hash seal_entry), ce_signatures = [sample_sig 1, sample_sig 5], ce_meta = Some (canonical_meta reset_meta_fields)\<rparr>"

definition sample_draft :: draft where
  "sample_draft = \<lparr>dr_op = ''reset'', dr_kind = ''primary-phone'', dr_value = chain_sample_key 5, dr_algorithm = ''ed25519'',
     dr_seq = 3, dr_prev = Some (entry_hash seal_entry), dr_meta = Some (canonical_meta reset_meta_fields)\<rparr>"

lemma sample_digits: "length (str_int 259200) \<le> 4300"
  by (simp add: str_int_def str_nat.simps)

lemma sample_meta_object: "meta_object fl (Some (canonical_meta reset_meta_fields)) = Inr (Some reset_meta_fields)"
proof -
  have "json_plain (PDict reset_meta_fields)" "norm_json (PDict reset_meta_fields) = PDict reset_meta_fields"
    using sample_digits by (simp_all add: reset_meta_fields_def)
  then have "json_loads fl (json_dumps (PDict reset_meta_fields)) = Inr (PDict reset_meta_fields)"
    using json_loads_dumps[of "PDict reset_meta_fields" fl] by simp
  then show ?thesis by (simp add: meta_object_def canonical_meta_def del: json_dumps.simps)
qed

lemma reset_reads: "entry_of_record sample_lib (as_record reset_entry) = Inr reset_entry"
proof (rule record_reads)
  have "dict_get chain_ops ''reset'' = Some OpReset" using chain_ops_name[of OpReset] by simp
  then show "build_entry sample_lib (ce_seq reset_entry) (PStr (op_name (ce_op reset_entry))) (ce_kind reset_entry)
      (ce_pubkey reset_entry) (PStr (ce_algorithm reset_entry)) (ce_prev reset_entry) (ce_signatures reset_entry)
      (ce_meta reset_entry) = Inr reset_entry"
    using sample_valid[of 5] by (simp add: build_entry_def reset_entry_def supported_algorithms_def)
qed

lemma reset_step_chain: "\<exists>st. replay_step sample_lib fl reset_entry after_seal = Inr st"
proof -
  have gets: "get reset_meta_fields ''slot'' = PStr ''primary''" "get reset_meta_fields ''intent_id'' = PStr ''r1''"
    "reset_fields reset_meta_fields = Inr (PStr sample_challenge, PStr ''r1'')"
    by (simp_all add: reset_meta_fields_def get_def reset_fields_def item_def)
  have start: "startswith sample_challenge (reset_challenge_prefix @ ''r1:'')"
    by (simp add: sample_challenge_def startswith_def)
  have fields: "ce_seq reset_entry = 3" "ce_op reset_entry = OpReset" "ce_prev reset_entry = Some (entry_hash seal_entry)"
    "ce_meta reset_entry = Some (canonical_meta reset_meta_fields)" "ce_signatures reset_entry = [sample_sig 1, sample_sig 5]"
    "ce_kind reset_entry = ''primary-phone''" "ce_pubkey reset_entry = chain_sample_key 5" "ce_algorithm reset_entry = ''ed25519''"
    by (simp_all add: reset_entry_def)
  have vars: "tip_hash after_seal = Some (entry_hash seal_entry)" "chain_length after_seal = 3" "seats after_seal = []"
    by (simp_all add: after_seal_def after_device_def after_genesis_def replay_start_def)
  have "require_reset sample_lib fl (members after_seal) reset_entry msg = Inr ()" for msg
    by (simp add: require_reset_def sealed_members passphrase_kind_def fields sample_meta_object gets caught_def start sample_code
        member_verifiers_def genesis_entry_def)
  then show ?thesis
    unfolding replay_step_Inr
    by (simp add: fields vars check_authority_def entry_seal_def sealed_members apply_entry_def take_seat_def sample_meta_object gets
        slot_kind_def seat_member_def shares_key_def genesis_entry_def device_entry_def device_kinds_def Let_def)
qed

lemma sample_entry_record: "PDict (record_of sample_draft [b64_encode (sample_sig 1), b64_encode (sample_sig 5)]) = as_record reset_entry"
  by (simp add: record_of_def sample_draft_def as_record_def reset_entry_def)

lemma sample_reset_append:
  "\<exists>writes new. append_genesis_chain_entry sample_lib fl now
     (record_of sample_draft [b64_encode (sample_sig 1), b64_encode (sample_sig 5)]) vault_files = Inr (writes, new)"
proof -
  have es: "entries_from_records sample_lib (map norm_json (map as_record sample_chain_entries) @ [as_record reset_entry])
      = Inr (sample_chain_entries @ [reset_entry])"
    using sample_chain_reads reset_reads unfolding entries_from_records_def map_err_append by auto
  obtain new where new: "replay_state sample_lib fl (sample_chain_entries @ [reset_entry]) = Inr new"
    using reset_step_chain[of fl] sealed_sample by (auto simp: replay_state_Inr replay_run_snoc)
  obtain m where m: "seal_mark_of (sample_chain_entries @ [reset_entry]) new = Inr m"
    using seal_mark_total[OF new] by blast
  have "check_seal_mark sample_chain_entries (Some (chain_state.truncate after_seal)) seal_mark = Inr ()"
    by (simp add: check_seal_mark_def sample_mark_matches seal_mark_simps)
  then have res: "resolve_seal_mark sample_chain_entries (Some (chain_state.truncate after_seal)) seal_mark = Inr seal_mark"
    by (simp add: resolve_seal_mark_def seal_mark_simps)
  show ?thesis
    unfolding append_genesis_chain_entry_def vault_files_def fst_conv snd_conv sample_file_chain bind_err_simps Let_def sample_entry_record es
      well_formed_record_def sum.case new butlast_snoc sample_optional
    by (simp add: read_seal_mark_def res m)
qed

lemma sample_no_entry:
  assumes "ho_files w = vault_files" "rr_fresh r = Some fresh" "rr_challenge r = Some sample_challenge"
    and "fd_key fresh = b64_encode (chain_sample_key 5)"
  shows "reset_entry_on_chain fl r w = (Inr False, w)"
proof -
  have none: "find_reset_entry fl r want c (map norm_json (map as_record es)) = Inr False"
    if "\<forall>e \<in> set es. ce_op e \<noteq> OpReset" for want c es
    using that
  proof (induction es)
    case (Cons e es)
    have "get (the_dict (norm_json (as_record e))) ''op'' \<noteq> PStr ''reset''"
      using get_norm[of "the_dict (as_record e)" "''op''"] as_record_plain[of e] Cons.prems
      by (cases "ce_op e") (auto simp: as_record_dict plain_record_def as_record_def op_name.simps get_def)
    then show ?case using Cons by (cases "norm_json (as_record e)") (auto simp: as_record_def)
  qed simp
  have "\<forall>e \<in> set sample_chain_entries. ce_op e \<noteq> OpReset"
    by (simp add: sample_chain_entries_def genesis_entry_def device_entry_def seal_entry_def)
  note none[OF this]
  moreover have "sample_challenge \<noteq> []" by (simp add: sample_challenge_def)
  ultimately show ?thesis
    by (simp add: reset_entry_on_chain_def assms read_chain_or_refuse_def vault_files_def sample_file_chain seq_def step_defs)
qed

lemma sample_registered_fields:
  assumes "sample_waiting r"
  shows "rr_id (sample_registered r) = ''r1''" "rr_state (sample_registered r) = Registered" "rr_intent (sample_registered r) = sample_it"
    "rr_slot (sample_registered r) = Some ''primary''" "rr_challenge (sample_registered r) = Some sample_challenge"
    "rr_code_expires (sample_registered r) = 259800"
    "\<exists>fresh. rr_fresh (sample_registered r) = Some fresh \<and> fd_key fresh = b64_encode (chain_sample_key 5)
       \<and> fd_algorithm fresh = ''ed25519'' \<and> fd_proof fresh = b64_encode (sample_sig 5)"
  using assms
  by (auto simp: sample_waiting_def waiting_reset_def sample_it_def sample_armed_def armed_reset_def add_nonce_def redeemed_def
      sample_registered_def registered_reset_def sample_phone_def)

lemma sample_reset_draft:
  assumes "sample_waiting r"
  shows "reset_draft sample_state (sample_registered r) = Inr sample_draft"
proof -
  note f = sample_registered_fields[OF assms]
  obtain fresh where fresh: "rr_fresh (sample_registered r) = Some fresh" "fd_key fresh = b64_encode (chain_sample_key 5)"
    "fd_algorithm fresh = ''ed25519''" using f(7) by auto
  have gets: "get sample_intent ''intent_id'' = PStr ''r1''" "get sample_intent ''lost'' = PList [PStr ''old'']"
    "get sample_intent ''not_before'' = PInt 259200" by (simp_all add: sample_intent_def get_def)
  have "reset_meta (sample_registered r) ''primary'' sample_challenge = canonical_meta reset_meta_fields"
    by (simp add: reset_meta_def f(3) sample_it_def gets canonical_meta_def reset_meta_fields_def)
  moreover have "tip_hash sample_state = Some (entry_hash seal_entry)" "chain_length sample_state = 3"
    by (simp_all add: sample_state_def after_seal_def)
  ultimately show ?thesis by (simp add: reset_draft_def f fresh slot_kind_def sample_draft_def)
qed

lemma sample_complete:
  assumes "sample_at w (sample_registered r)" "sample_waiting r"
  shows "\<exists>w' ref. owner_reset_complete sample_lib fl 259210 ''r1'' owner_sig w = (Inr (Some ''primary'', ref), w')
    \<and> get_reset ''r1'' w' = Some (seat_done ''primary'' (sample_registered r))"
proof -
  let ?r = "sample_registered r"
  note f = sample_registered_fields[OF assms(2)]
  obtain fresh where fresh: "rr_fresh ?r = Some fresh" "fd_key fresh = b64_encode (chain_sample_key 5)"
    "fd_proof fresh = b64_encode (sample_sig 5)" using f(7) by auto
  have files: "ho_files w = vault_files" "ho_expect w = None" and recs: "ho_records w = [(''r1'', ResetRow ?r)]"
    and rest: "revocations (ho_store w) = []"
    using assms(1) by (simp_all add: sample_at_def)
  have none: "reset_entry_on_chain fl ?r w = (Inr False, w)" by (rule sample_no_entry[OF files(1) fresh(1) f(5) fresh(2)])
  have opened: "open_reset 259210 ''r1'' {Registered} w = (Inr ?r, w)"
    by (simp add: open_reset_def seq_def step_defs refuse_if_def get_reset_def recs f revoked_now_def sample_not_revoked rest
        sample_it_def reset_expired_def open_states_def reset_anchor_def reset_arm_grace_seconds_def)
  have "dict_get chain_ops ''reset'' = Some OpReset" using chain_ops_name[of OpReset] by simp
  then obtain msg where msg: "draft_message sample_state sample_draft = Inr msg"
    by (simp add: draft_message_def sample_draft_def sample_state_def after_seal_def)
  obtain writes new where append: "append_genesis_chain_entry sample_lib fl 259210
     (record_of sample_draft [b64_encode (sample_sig 1), b64_encode (sample_sig 5)]) vault_files = Inr (writes, new)"
    using sample_reset_append by blast
  have sig: "the_str owner_sig = b64_encode (sample_sig 1)" by (simp add: owner_sig_def)
  have chain: "complete_chain sample_lib fl 259210 ''r1'' owner_sig w = (Inr (?r, Some new), w\<lparr>ho_files := last writes\<rparr>)"
    unfolding complete_chain_def append_reset_def seq_def
    by (simp add: step_defs refuse_if_def get_reset_def recs f none opened sample_reset_draft[OF assms(2)] msg sample_passphrase fresh
        try_append_def append files sample_plane_chain[OF files] sig)
  show ?thesis
    by (simp add: owner_reset_complete_def seq_def chain finish_reset_seat_def fresh f step_defs case_prod_unfold)
qed

lemma sample_completed: "sample_waiting r \<Longrightarrow> rr_state (seat_done ''primary'' (sample_registered r)) = Completed"
  by (auto simp: seat_done_def sample_registered_fields sample_it_def Let_def)

section \<open>The run\<close>

lemma later_trans: "plane_later cl fl s v t w \<Longrightarrow> plane_later cl fl r u s v \<Longrightarrow> plane_later cl fl r u t w"
  by (induction rule: plane_later.induct) (auto intro: plane_later.intros)

lemma later_call: "c' = perform cl fl now c w \<Longrightarrow> s \<le> now \<Longrightarrow> fresh_draw c w \<Longrightarrow> plane_later cl fl s w now c'"
  using plane_later.Call[OF plane_later.Here] by blast

lemma reaches_later: "plane_reaches cl fl s v \<Longrightarrow> plane_later cl fl s v t w \<Longrightarrow> plane_reaches cl fl t w"
  unfolding plane_reaches_def using later_trans by blast

text \<open>One reset from its start to its end: waiting, armed, answered, completed.\<close>

lemma sample_plane_run:
  obtains r w1 w2 w3 w4 w5 arm_out ref where "sample_waiting r"
    and "sample_at w1 r" "plane_reaches sample_lib fl 0 w1"
    and "owner_reset_arm sample_lib fl 259200 42 (PDict sample_leg) owner_sig w1 = (Inr arm_out, w2)"
    and "sample_at w2 (sample_armed r)" "plane_later sample_lib fl 0 w1 259200 w2"
    and "sample_at w4 (sample_registered r)" "plane_later sample_lib fl 259200 w2 259202 w4"
    and "owner_reset_complete sample_lib fl 259210 ''r1'' owner_sig w4 = (Inr (Some ''primary'', ref), w5)"
    and "get_reset ''r1'' w5 = Some (seat_done ''primary'' (sample_registered r))" "plane_later sample_lib fl 259202 w4 259210 w5"
proof -
  obtain w1 out cards ct msg sig where s1: "owner_reset_start sample_lib fl 0 (\<lambda>_. ''c'') (PDict sample_intent) owner_sig sample_host = (Inr out, w1)"
    and a1: "sample_at w1 (waiting_reset 0 sample_it ct msg sig cards)" using sample_start by blast
  let ?r = "waiting_reset 0 sample_it ct msg sig cards"
  have r: "sample_waiting ?r" by (auto simp: sample_waiting_def)
  have l1: "plane_later sample_lib fl 0 sample_host 0 w1"
    by (rule later_call[where c = "StartReset (\<lambda>_. ''c'') (PDict sample_intent) owner_sig"]) (simp_all add: s1)
  moreover have "ho_records sample_host = []" by (simp add: sample_host_def)
  ultimately have p1: "plane_reaches sample_lib fl 0 w1" unfolding plane_reaches_def by blast
  obtain w2 arm_out where s2: "owner_reset_arm sample_lib fl 259200 42 (PDict sample_leg) owner_sig w1 = (Inr arm_out, w2)"
    and a2: "sample_at w2 (sample_armed ?r)" using sample_arm[OF a1 r] by blast
  have l2: "plane_later sample_lib fl 0 w1 259200 w2"
    by (rule later_call[where c = "ArmReset 42 (PDict sample_leg) owner_sig"]) (simp_all add: s2)
  obtain w3 where s3: "redeem_reset_code 259201 (code_text 42) ''t'' w2 = (Inr (Some (sample_challenge, 259501)), w3)"
    and a3: "sample_at w3 (redeemed 259201 sample_challenge_mac (sample_armed ?r))" using sample_redeem[OF a2 r] by blast
  have l3: "plane_later sample_lib fl 259200 w2 259201 w3"
    by (rule later_call[where c = "RedeemCode (code_text 42) ''t''"]) (simp_all add: s3)
  obtain w4 ref' where s4: "register_fresh_device sample_lib fl 259202 sample_body w3 = (Inr (Some ref'), w4)"
    and a4: "sample_at w4 (sample_registered ?r)" using sample_register[OF a3 r] by blast
  have l4: "plane_later sample_lib fl 259201 w3 259202 w4"
    by (rule later_call[where c = "RegisterFresh sample_body"]) (simp_all add: s4)
  obtain w5 ref where s5: "owner_reset_complete sample_lib fl 259210 ''r1'' owner_sig w4 = (Inr (Some ''primary'', ref), w5)"
    and a5: "get_reset ''r1'' w5 = Some (seat_done ''primary'' (sample_registered ?r))" using sample_complete[OF a4 r] by blast
  have l5: "plane_later sample_lib fl 259202 w4 259210 w5"
    by (rule later_call[where c = "CompleteReset ''r1'' owner_sig"]) (simp_all add: s5)
  show thesis by (rule that[OF r a1 p1 s2 a2 l2 a4 later_trans[OF l4 l3] s5 a5 l5])
qed

section \<open>An act\<close>

definition rotation_meta :: "(string, pyval) dict" where
  "rotation_meta = [(''nonce'', PStr ''0123456789abcdef''), (''not_after'', PInt 300)]"

definition rotation_draft :: draft where
  "rotation_draft = \<lparr>dr_op = ''rotate-operator'', dr_kind = ''operator'', dr_value = replicate 64 9, dr_algorithm = ''none'', dr_seq = 3,
     dr_prev = Some (entry_hash seal_entry), dr_meta = Some (canonical_meta rotation_meta)\<rparr>"

lemma rotation_fresh: "act_freshness fl 0 rotation_draft = Inr (''0123456789abcdef'', 300)"
proof -
  have "length (str_int 300) \<le> 4300" by (simp add: str_int_def str_nat.simps)
  then have "json_plain (PDict rotation_meta)" "norm_json (PDict rotation_meta) = PDict rotation_meta"
    by (simp_all add: rotation_meta_def)
  then have "json_loads fl (json_dumps (PDict rotation_meta)) = Inr (PDict rotation_meta)"
    using json_loads_dumps[of "PDict rotation_meta" fl] by simp
  then show ?thesis
    by (simp add: act_freshness_def rotation_draft_def canonical_meta_def text_field_def int_field_def item_def rotation_meta_def text_of_def
        caught_conv_def fresh_pair_def act_fresh_seconds_def del: json_dumps.simps)
qed

lemma draft_wire: "draft_from_wire (PDict (draft_as_wire d)) = Inr d"
  by (cases d) (simp add: draft_from_wire_def draft_as_wire_def text_field_def int_field_def item_def text_of_def caught_conv_def
      hex_value_def opt_text_field_def opt_str_def get_def split: option.split)

lemma sample_open:
  "\<exists>w out a. top_plane_open sample_lib fl 0 ''t1'' rid (PDict (draft_as_wire rotation_draft)) owner_sig sample_host = (Inr out, w)
     \<and> dict_get (ho_records w) ''act-t1'' = Some (ActRow a)"
proof -
  have files: "ho_files sample_host = vault_files" "ho_expect sample_host = None" by (simp_all add: sample_host_def)
  have recs: "ho_records sample_host = []" by (simp add: sample_host_def)
  have "dict_get chain_ops ''rotate-operator'' = Some OpRotate" using chain_ops_name[of OpRotate] by simp
  then obtain msg where msg: "draft_message sample_state rotation_draft = Inr msg"
    by (simp add: draft_message_def rotation_draft_def sample_state_def after_seal_def)
  have fields: "dr_op rotation_draft = ''rotate-operator''" "dr_kind rotation_draft = ''operator''" by (simp_all add: rotation_draft_def)
  have ps: "carded_phones rotation_draft sample_state (ho_store sample_host) = [old_phone]"
    by (simp add: carded_phones_def fields device_member_phones_def device_kind_of_def list_phones_def sample_host_def sample_state_def
        sealed_members old_phone_def new_phone_def device_kinds_def device_entry_def genesis_entry_def)
  obtain s where s: "describe rotation_draft = Some s" by (simp add: describe_def act_in_words_def rotation_draft_def)
  show ?thesis
    unfolding top_plane_open_def check_act_def seq_def
    by (simp add: draft_wire step_defs refuse_if_def op_refusal_def removal_mismatch_def fields sample_plane_chain[OF files]
        unregistered_device_def rotation_fresh msg sample_passphrase ps card_act_def s seq_def case_prod_unfold put_act_def dict_facts
        pending_act_def list_acts_def recs)
qed

end
