(* ===== verification/PlaneProps.thy ===== *)
theory PlaneProps
  imports PlaneSample
begin

text \<open>
  What every run of the top plane keeps, as the owner of the machine would state it: the window before a
  reset may touch a slot, at most one open reset, final states, signed legs and drafts used once, codes that
  die with the process. The witnesses are states of the sample run.
\<close>

section \<open>Of a stored reset\<close>

lemma reset_stored: "plane_inv t w \<Longrightarrow> get_reset i w = Some r \<Longrightarrow> r \<in> set (list_resets w) \<and> rr_id r = i"
  using list_resets_get keyed_id by (fastforce simp: plane_inv_def)

lemma reset_stored_wf: "plane_inv t w \<Longrightarrow> get_reset i w = Some r \<Longrightarrow> reset_wf (ho_window w) t r"
  using reset_stored by (auto simp: plane_inv_def)

text \<open>C32: in every run of the top plane a reset touches no slot before its window has passed. Whatever the
  handlers were asked in whatever order, a stored reset's window ends no sooner than the configured window
  less a minute after its start; a reset that is armed, answered by a device, or has seated one is past that
  end; each seated slot was named by the signed intent, none is seated twice, and a completed reset has
  seated them all; and a code that can still be redeemed has seen fewer than five wrong ones.\<close>

theorem reset_waits_window:
  assumes "plane_reaches cl fl t w" and "get_reset i w = Some r"
  shows "rr_created r + ho_window w - 60 \<le> it_not_before (rr_intent r) \<and> rr_created r \<le> t
    \<and> (rr_state r \<in> {Armed, Registered} \<or> rr_completed r \<noteq> [] \<longrightarrow> it_not_before (rr_intent r) \<le> t)
    \<and> distinct (rr_completed r) \<and> set (rr_completed r) \<subseteq> set (it_slots (rr_intent r))
    \<and> (rr_state r = Completed \<longrightarrow> set (rr_completed r) = set (it_slots (rr_intent r)))
    \<and> (rr_code_hash r \<noteq> None \<longrightarrow> rr_code_attempts r < 5)"
proof -
  have "reset_wf (ho_window w) t r" using reset_stored_wf[OF reaches_inv[OF assms(1)] assms(2)] .
  then show ?thesis by (auto simp: reset_wf_def Let_def reset_code_attempts_def)
qed

text \<open>C33: in every run at most one reset is open: of the stored resets at most one is neither completed,
  cancelled nor aborted and still within its time to be armed or completed.\<close>

theorem one_open_reset:
  assumes "plane_reaches cl fl t w"
  shows "length (filter (\<lambda>r. rr_state r \<in> open_states \<and> \<not> reset_expired t r) (list_resets w)) \<le> 1"
proof -
  note inv = reaches_inv[OF assms]
  let ?open = "filter (\<lambda>r. rr_state r \<in> open_states \<and> \<not> reset_expired t r) (list_resets w)"
  have "distinct (list_resets w)" using distinct_resets[of w] inv distinct_map by (auto simp: plane_inv_def)
  moreover have "r = s" if "r \<in> set ?open" "s \<in> set ?open" for r s
    using inv that by (auto simp: plane_inv_def only_one_open_def ended_def)
  then have "card (set ?open) \<le> 1" unfolding One_nat_def by (subst card_le_Suc0_iff_eq) blast+
  ultimately show ?thesis by (metis distinct_card distinct_filter)
qed

section \<open>Final states\<close>

lemma open_reset_refuses:
  assumes "get_reset iid w = Some r" "rr_state r \<notin> states"
  shows "wp (open_reset now iid states) (\<lambda>_ _. False) (\<lambda>t. quiet w t \<and> ho_files t = ho_files w) w"
proof -
  obtain b st where b: "is_revoked now (reset_jti r) (ho_store w) = (b, st)" by fastforce
  have "quiet w (w\<lparr>ho_store := st\<rparr>)"
    using still_revoked[unfolded still_def, rule_format, of w now "reset_jti r"] b by (simp add: revoked_now_def)
  then have rv: "wp (revoked_now now (reset_jti r)) (\<lambda>_ t. quiet w t \<and> ho_files t = ho_files w) (\<lambda>_. False) w"
    by (simp add: revoked_now_def b wp_def)
  show ?thesis
    unfolding open_reset_def wp_eqs assms(1) option.case
    using assms(2) by (auto simp: wp_eqs intro!: wp_imp[OF rv] split: if_splits)
qed

text \<open>C36: a reset that is completed, cancelled or aborted stays so whatever comes after, with the seats it had
  made and no device waiting in it; completing it is refused and leaves the chain as it is, and arming it is
  refused too.\<close>

theorem final_reset_stays:
  assumes "plane_reaches cl fl t w" and "get_reset i w = Some r" and "rr_state r \<in> {Completed, Cancelled, Aborted}"
    and "plane_later cl fl t w t' w'"
  shows "(\<exists>r'. get_reset i w' = Some r' \<and> rr_state r' = rr_state r \<and> rr_completed r' = rr_completed r \<and> rr_fresh r' = rr_fresh r)
    \<and> (\<exists>e v. owner_reset_complete cl fl now i psig w' = (Inl e, v) \<and> ho_files v = ho_files w' \<and> quiet w' v)"
proof -
  have "record_grows w w'" using later_inv[OF assms(4) reaches_inv[OF assms(1)]] by simp
  then obtain r' where r': "get_reset i w' = Some r'" "grows r r'" using assms(2) by (auto simp: record_grows_def)
  have same: "rr_state r' = rr_state r" "rr_completed r' = rr_completed r" "rr_fresh r' = rr_fresh r"
    using r'(2) assms(3) by (auto simp: grows_def final_states_def)
  have refuses: "wp (open_reset now i {Registered}) (\<lambda>_ _. False) (\<lambda>v. quiet w' v \<and> ho_files v = ho_files w') w'"
    by (rule open_reset_refuses[OF r'(1)]) (use same assms(3) in auto)
  have "wp (owner_reset_complete cl fl now i psig) (\<lambda>_ _. False) (\<lambda>v. quiet w' v \<and> ho_files v = ho_files w') w'"
    unfolding owner_reset_complete_def complete_chain_def wp_eqs r'(1) option.case
    using same assms(3)
    by (auto simp: wp_eqs plane_chain_def append_reset_def wp_def[of "plane_chain cl fl False"] intro!: wp_imp[OF refuses] split: sum.split)
  then obtain e v where "owner_reset_complete cl fl now i psig w' = (Inl e, v)" "quiet w' v" "ho_files v = ho_files w'"
    by (cases "owner_reset_complete cl fl now i psig w'") (auto simp: wp_def split: sum.splits)
  then show ?thesis using r'(1) same by blast
qed

section \<open>A signed leg\<close>

lemma arm_open_found:
  assumes "quiet u w"
  shows "wp (arm_open_reset now draw d iid) (\<lambda>_ t. moves now u t \<and> get_reset iid u \<noteq> None) (\<lambda>_. True) w"
proof -
  have "wp (arm_open_reset now draw d iid) (\<lambda>_ t. get_reset iid u \<noteq> None) (\<lambda>_. True) w"
  proof (cases "get_reset iid u")
    case None
    then show ?thesis by (simp add: arm_open_reset_def open_reset_def wp_eqs quiet_records(3)[OF assms])
  qed (simp add: wp_def split: prod.split sum.split)
  from wp_conj[OF arm_open_moves[OF assms] this] show ?thesis by (rule wp_imp) auto
qed

lemma spend_spends:
  assumes "keyed w"
  shows "wp (spend_leg_nonce iid l n) (\<lambda>x t. keyed t \<and> (\<forall>r. get_reset iid t = Some r \<longrightarrow> n \<in> set (leg_nonces l r))) (\<lambda>_. True) w"
proof (cases "get_reset iid w")
  case (Some r)
  then have "rr_id r = iid" by (rule keyed_id[OF assms])
  then show ?thesis
    by (cases l) (simp_all add: spend_leg_nonce_def wp_eqs Some keyed_put(1)[OF assms] leg_nonces_def add_nonce_def)
qed (simp add: spend_leg_nonce_def wp_eqs assms)

lemma arm_spends:
  assumes "keyed w"
  shows "wp (owner_reset_arm cl fl now draw v psig)
    (\<lambda>_ t. \<exists>iid nonce r. leg_text (the_dict v) ''intent_id'' = Inr iid \<and> leg_text (the_dict v) ''nonce'' = Inr nonce
       \<and> get_reset iid t = Some r \<and> nonce \<in> set (rr_arm_nonces r)) (\<lambda>_. True) w"
proof -
  have keep: "\<exists>r. get_reset iid t = Some r \<and> n \<in> set (rr_arm_nonces r)"
    if "\<forall>r. get_reset iid u = Some r \<longrightarrow> n \<in> set (leg_nonces ArmLeg r)" "keyed u" "get_reset iid u \<noteq> None" "moves now u t" for iid u t n
    using moves_grow[OF that(4,2)] that(1,3) by (fastforce simp: record_grows_def grows_def leg_nonces_def)
  have arm: "wp (arm_open_reset now draw d iid) (\<lambda>_ t. \<exists>r. get_reset iid t = Some r \<and> n \<in> set (rr_arm_nonces r)) (\<lambda>_. True) u'"
    if "\<forall>r. get_reset iid u = Some r \<longrightarrow> n \<in> set (leg_nonces ArmLeg r)" "keyed u" "quiet u u'" for d iid n u u'
    by (rule wp_imp[OF arm_open_found[OF that(3)]]) (use keep[OF that(1,2)] in auto)
  show ?thesis
    unfolding owner_reset_arm_def wp_eqs Let_def
    apply (rule quiet_wpI[OF still_reads(1) quiet_refl])
     apply (auto split: sum.split)
    subgoal for cs t nonce iid
      apply (rule wp_imp[OF spend_spends[OF keyed_quiet[OF assms]]])
        apply (auto simp: wp_eqs arm split: option.split)
      apply (rule quiet_wpI[OF still_committed quiet_refl])
       apply (auto simp: arm)
      done
    done
qed

text \<open>C35: the host's signed leg arms once. After an arm that succeeded, whatever happens next, every arm
  whose leg has the same intent and the same nonce is refused and writes nothing.\<close>

theorem arm_leg_spent_once:
  assumes "plane_reaches cl fl t w" and "t \<le> now" and "owner_reset_arm cl fl now draw v psig w = (Inr out, w')"
    and "plane_later cl fl now w' s u"
    and "dict_get (the_dict v') ''intent_id'' = dict_get (the_dict v) ''intent_id''"
    and "dict_get (the_dict v') ''nonce'' = dict_get (the_dict v) ''nonce''"
  shows "\<exists>e. owner_reset_arm cl fl now' draw' v' psig' u = (Inl e, u)"
proof -
  have inv: "plane_inv now w" using reaches_inv[OF assms(1)] plane_inv_later assms(2) by blast
  then have k: "keyed w" by (simp add: plane_inv_def)
  have inv': "plane_inv now w'"
    using moves_inv[OF wp_result[OF arm_moves[OF k] assms(3)] inv] .
  obtain iid nonce r where leg: "leg_text (the_dict v) ''intent_id'' = Inr iid" "leg_text (the_dict v) ''nonce'' = Inr nonce"
    and r: "get_reset iid w' = Some r" "nonce \<in> set (rr_arm_nonces r)"
    using wp_result[OF arm_spends[OF k] assms(3)] by blast
  obtain r' where r': "get_reset iid u = Some r'" "nonce \<in> set (rr_arm_nonces r')"
    using later_inv[OF assms(4) inv'] r by (fastforce simp: record_grows_def grows_def)
  have same: "leg_text (the_dict v') ''intent_id'' = Inr iid" "leg_text (the_dict v') ''nonce'' = Inr nonce"
    using leg assms(5,6) by (simp_all add: leg_text_def text_field_def item_def)
  have spent: "wp (spend_leg_nonce iid ArmLeg nonce) (\<lambda>_ _. False) (\<lambda>t. t = u) u"
    using r' by (simp add: spend_leg_nonce_def wp_eqs leg_nonces_def)
  have "wp (owner_reset_arm cl fl now' draw' v' psig') (\<lambda>_ _. False) (\<lambda>t. t = u) u"
    unfolding owner_reset_arm_def wp_eqs Let_def
    by (auto simp: wp_eqs plane_chain_def same wp_def[of "plane_chain cl fl False"] intro!: wp_imp[OF spent] split: sum.split)
  then show ?thesis
    by (cases "owner_reset_arm cl fl now' draw' v' psig' u") (auto simp: wp_def split: sum.splits)
qed

section \<open>A completion\<close>

definition keeps_files :: "(host \<Rightarrow> (plane_error + 'a) \<times> host) \<Rightarrow> bool" where
  "keeps_files m \<longleftrightarrow> (\<forall>w. ho_files (snd (m w)) = ho_files w)"

lemma keeps_files_parts:
  "keeps_files (ret x)" "keeps_files (fail e)" "keeps_files (ask f)" "keeps_files (refuse_if c e)" "keeps_files (revoked_now now j)"
  by (simp_all add: keeps_files_def step_defs refuse_if_def revoked_now_def split: prod.split)

lemma keeps_files_seq: "keeps_files m \<Longrightarrow> (\<And>x. keeps_files (f x)) \<Longrightarrow> keeps_files (seq m f)"
  by (auto simp: keeps_files_def seq_def split: prod.split sum.split) (metis snd_conv)+

lemma keeps_files_wp: "keeps_files m \<Longrightarrow> wp m (\<lambda>_ t. ho_files t = ho_files w) (\<lambda>t. ho_files t = ho_files w) w"
  by (auto simp: keeps_files_def wp_def split: prod.split sum.split) (metis snd_conv)+

lemma open_reset_keeps: "keeps_files (open_reset now iid states)"
  unfolding open_reset_def
  by (intro keeps_files_seq keeps_files_parts) (auto intro!: keeps_files_seq keeps_files_parts split: option.split)

lemma entry_reads: "reset_entry_on_chain fl r w = (fst (reset_entry_on_chain fl r w), w)"
  by (auto simp: reset_entry_on_chain_def read_chain_or_refuse_def seq_def step_defs
      split: option.split sum.split chain_error.split)

definition appended_reset ::
  "crypto_lib \<Rightarrow> (string \<Rightarrow> string) \<Rightarrow> int \<Rightarrow> reset_record \<Rightarrow> pyval \<Rightarrow> chain_state \<Rightarrow> chain_state option \<Rightarrow> host \<Rightarrow> chain_files \<Rightarrow> bool" where
  "appended_reset cl fl now r psig cs post w files \<longleftrightarrow> (\<exists>d message fresh writes new.
     reset_draft cs r = Inr d \<and> draft_message cs d = Inr message \<and> verify_passphrase cl cs message psig \<and> rr_fresh r = Some fresh
     \<and> append_genesis_chain_entry cl fl now (record_of d [the_str psig, fd_proof fresh]) (ho_files w) = Inr (writes, new)
     \<and> post = Some new \<and> files = last writes)"

lemma reset_draft_fresh: "reset_draft cs r = Inr d \<Longrightarrow> \<exists>fresh. rr_fresh r = Some fresh"
  by (auto simp: reset_draft_def split: option.splits)

lemma try_append_wp:
  "wp (try_append cl fl now d) (\<lambda>post t. post = None \<and> t = w \<or> (\<exists>writes new.
       append_genesis_chain_entry cl fl now d (ho_files w) = Inr (writes, new) \<and> post = Some new
       \<and> t = w\<lparr>ho_files := last writes\<rparr>)) (\<lambda>_. True) w"
  by (auto simp: try_append_def wp_def step_defs split: sum.split prod.split chain_error.split)

lemma append_reset_appends:
  "wp (append_reset cl fl now iid psig cs) (\<lambda>(r, post) t. quiet w t \<and> get_reset iid w = Some r \<and> rr_state r = Registered
     \<and> it_not_before (rr_intent r) \<le> now \<and> \<not> reset_expired now r
     \<and> appended_reset cl fl now r psig cs post w (ho_files t)) (\<lambda>_. True) w"
  unfolding append_reset_def wp_eqs
  apply (rule wp_imp[OF wp_conj[OF open_reset_wp[OF quiet_refl] keeps_files_wp[OF open_reset_keeps]]])
   apply (auto simp: quiet_records(3) split: sum.split)
  subgoal for r t d message
    apply (rule wp_imp[OF try_append_wp])
     apply (use reset_draft_fresh[of cs r d] quiet_trans[of w t] in \<open>auto simp: appended_reset_def\<close>)
    done
  done

lemma finish_seats:
  "wp (finish_reset_seat cl fl now r post) (\<lambda>_ t. \<exists>slot st. rr_slot r = Some slot \<and> t = put_reset (seat_done slot r) (w\<lparr>ho_store := st\<rparr>))
     (\<lambda>_. True) w"
proof -
  have "current_chain cl fl w = (fst (current_chain cl fl w), w)"
    by (auto simp: current_chain_def step_defs split: sum.split chain_error.split)
  then have read: "wp (current_chain cl fl) (\<lambda>_ t. t = w) (\<lambda>_. True) w"
    by (cases "fst (current_chain cl fl w)") (auto simp: wp_def split: prod.split)
  show ?thesis
    unfolding finish_reset_seat_def
    by (cases "rr_fresh r"; cases "rr_slot r") (auto simp: wp_eqs case_prod_unfold intro!: wp_imp[OF read])
qed

lemma put_reset_files [simp]: "ho_files (put_reset r w) = ho_files w" by (simp add: put_reset_def)

lemma complete_chain_appends:
  "wp (complete_chain cl fl now iid psig) (\<lambda>(r, post) t. quiet w t \<and> get_reset iid w = Some r \<and> rr_state r = Registered
     \<and> (reset_entry_on_chain fl r w = (Inr True, w) \<and> post = None \<and> ho_files t = ho_files w
        \<or> reset_entry_on_chain fl r w = (Inr False, w) \<and> it_not_before (rr_intent r) \<le> now \<and> \<not> reset_expired now r
            \<and> (\<exists>cs. require_sealed cl fl (Some (ho_files w)) False (ho_expect w) = Inr cs
                \<and> appended_reset cl fl now r psig cs post w (ho_files t)))) (\<lambda>_. True) w"
proof -
  have chain: "wp (plane_chain cl fl False) (\<lambda>cs t. t = w \<and> require_sealed cl fl (Some (ho_files w)) False (ho_expect w) = Inr cs)
      (\<lambda>_. True) w"
    by (auto simp: plane_chain_def wp_def split: sum.split)
  have entry: "wp (reset_entry_on_chain fl r) (\<lambda>b t. t = w \<and> reset_entry_on_chain fl r w = (Inr b, w)) (\<lambda>_. True) w" for r
    using entry_reads[of fl r w] by (auto simp: wp_def split: prod.split sum.split)
  show ?thesis
    unfolding complete_chain_def wp_eqs
    apply (rule wp_imp[OF chain])
     apply (cases "get_reset iid w")
      apply (auto simp: wp_eqs)
       apply (rule wp_imp[OF append_reset_appends]; auto)
      apply (rule wp_imp[OF entry])
       apply (auto simp: wp_eqs)
      apply (rule wp_imp[OF append_reset_appends]; auto)
     apply (rule wp_imp[OF append_reset_appends]; auto)
    done
qed

text \<open>C31: a completion seats a device only when the reset it names had waited. In every run, when completing
  an intent succeeds, its record was registered and its window had passed; the slot is one the signed intent
  named and none that was seated; and either the reset's entry was on the chain already, or the call appended
  it with a valid passphrase signature over its message and the files are those of the append's last write.
  The stored record afterwards is the seated one.\<close>

theorem completion_waited:
  assumes "plane_reaches cl fl t w" and "t \<le> now"
    and "owner_reset_complete cl fl now iid psig w = (Inr (slot, ref), w')"
  shows "\<exists>r s. get_reset iid w = Some r \<and> rr_state r = Registered \<and> rr_created r + ho_window w - 60 \<le> now
    \<and> slot = Some s \<and> s \<in> set (it_slots (rr_intent r)) - set (rr_completed r) \<and> get_reset iid w' = Some (seat_done s r)
    \<and> (reset_entry_on_chain fl r w = (Inr True, w) \<and> ho_files w' = ho_files w
       \<or> (\<exists>cs post. require_sealed cl fl (Some (ho_files w)) False (ho_expect w) = Inr cs
            \<and> appended_reset cl fl now r psig cs post w (ho_files w')))"
proof -
  note inv = reaches_inv[OF assms(1)]
  have "wp (owner_reset_complete cl fl now iid psig) (\<lambda>(slot, ref) t. \<exists>r s. get_reset iid w = Some r \<and> rr_state r = Registered
      \<and> slot = Some s \<and> rr_slot r = Some s \<and> get_reset iid t = Some (seat_done s r)
      \<and> (reset_entry_on_chain fl r w = (Inr True, w) \<and> ho_files t = ho_files w
         \<or> (\<exists>cs post. require_sealed cl fl (Some (ho_files w)) False (ho_expect w) = Inr cs
            \<and> appended_reset cl fl now r psig cs post w (ho_files t)))) (\<lambda>_. True) w"
    unfolding owner_reset_complete_def wp_eqs
    apply (rule wp_imp[OF complete_chain_appends])
     apply (clarsimp simp: wp_eqs)
     apply (rule wp_imp[OF finish_seats])
      apply (use reset_stored[OF inv] in \<open>auto simp: put_reset_files\<close>)
    done
  from wp_result[OF this assms(3)] obtain r s where r: "get_reset iid w = Some r" "rr_state r = Registered" "slot = Some s"
    "rr_slot r = Some s" "get_reset iid w' = Some (seat_done s r)" and chain: "reset_entry_on_chain fl r w = (Inr True, w) \<and> ho_files w' = ho_files w
       \<or> (\<exists>cs post. require_sealed cl fl (Some (ho_files w)) False (ho_expect w) = Inr cs
            \<and> appended_reset cl fl now r psig cs post w (ho_files w'))" by auto
  have "reset_wf (ho_window w) t r" by (rule reset_stored_wf[OF inv r(1)])
  then have "rr_created r + ho_window w - 60 \<le> now" "s \<in> set (it_slots (rr_intent r)) - set (rr_completed r)"
    using r(2,4) assms(2) by (auto simp: reset_wf_def Let_def seatable_def)
  then show ?thesis using r chain by blast
qed

section \<open>A start\<close>

lemma list_resets_put: "set (list_resets (put_reset r w)) \<subseteq> insert r (set (list_resets w))"
  by (auto simp: list_resets_def put_reset_def resets_of_set dest!: subsetD[OF dict_set_members])

lemma list_resets_put_act: "set (list_resets (put_act a w)) \<subseteq> set (list_resets w)"
  by (auto simp: list_resets_def put_act_def resets_of_set dest!: subsetD[OF dict_set_members])

definition codes_dead :: "host \<Rightarrow> bool" where
  "codes_dead w \<longleftrightarrow> (\<forall>r \<in> set (list_resets w). \<not> dead_code r)"

lemma codes_dead_put: "codes_dead w \<Longrightarrow> \<not> dead_code r \<Longrightarrow> codes_dead (put_reset r w)" "codes_dead w \<Longrightarrow> codes_dead (put_act a w)"
  using list_resets_put list_resets_put_act by (fastforce simp: codes_dead_def)+

lemma codes_dead_quiet: "codes_dead w \<Longrightarrow> quiet w t \<Longrightarrow> codes_dead t"
  by (simp add: codes_dead_def quiet_records)

lemma get_fold_clear:
  "get_reset i (fold (\<lambda>r. put_reset (code_cleared r)) rs w) = Some x \<Longrightarrow>
     (\<exists>r \<in> set rs. x = code_cleared r) \<or> get_reset i w = Some x \<and> i \<notin> rr_id ` set rs"
  by (induction rs arbitrary: w) (fastforce split: if_splits)+

lemma keyed_fold_clear: "keyed w \<Longrightarrow> keyed (fold (\<lambda>r. put_reset (code_cleared r)) rs w)"
  by (induction rs arbitrary: w) (auto intro: keyed_put)

lemma cleared_dead:
  assumes "keyed w"
  shows "codes_dead (clear_dead_reset_codes w)"
  unfolding codes_dead_def
proof
  let ?w = "clear_dead_reset_codes w"
  fix x assume x: "x \<in> set (list_resets ?w)"
  have "keyed ?w" unfolding clear_dead_reset_codes_def by (rule keyed_fold_clear[OF assms])
  then have "get_reset (rr_id x) ?w = Some x" using x list_resets_get by blast
  then consider r where "x = code_cleared r"
    | "get_reset (rr_id x) w = Some x" "rr_id x \<notin> rr_id ` set (filter dead_code (list_resets w))"
    using get_fold_clear[of "rr_id x" "filter dead_code (list_resets w)" w x] by (auto simp: clear_dead_reset_codes_def)
  then show "\<not> dead_code x"
  proof cases
    case 1
    then show ?thesis by (simp add: dead_code_def code_cleared_def)
  next
    case 2
    then have "x \<in> set (list_resets w)" using list_resets_get[OF assms] by blast
    then show ?thesis using 2(2) by auto
  qed
qed

lemma roll_record_dead:
  assumes "codes_dead w"
  shows "wp (roll_forward_record cl fl now x) (\<lambda>_. codes_dead) codes_dead w"
proof (cases x)
  case (ResetRow r)
  have seat: "\<not> dead_code (seat_done slot r)" for slot by (simp add: dead_code_def seat_done_def Let_def)
  show ?thesis
    unfolding ResetRow roll_forward_record.simps wp_eqs
    apply (auto simp: assms)
    apply (rule quiet_wpI[OF still_entry(1) quiet_refl])
     apply (auto intro!: finish_reset_wp[OF quiet_refl] codes_dead_put seat simp: codes_dead_quiet[OF assms] codes_dead_quiet)
    apply (blast intro: codes_dead_quiet[OF assms] codes_dead_quiet)+
    done
next
  case (ActRow a)
  show ?thesis
    unfolding ActRow roll_forward_record.simps wp_eqs
    apply (auto simp: assms)
    apply (rule quiet_wpI[OF still_entry(2) quiet_refl])
     apply (auto intro!: finish_act_wp[OF quiet_refl] codes_dead_put simp: codes_dead_quiet[OF assms] codes_dead_quiet)
    apply (blast intro: codes_dead_quiet[OF assms] codes_dead_quiet)+
    done
qed

lemma roll_forward_dead: "codes_dead w \<Longrightarrow> wp (roll_forward_committed cl fl now) (\<lambda>_. codes_dead) codes_dead w"
proof -
  have all: "wp (roll_forward_all cl fl now xs) (\<lambda>_. codes_dead) codes_dead w" if "codes_dead w" for xs w
    using that by (induction xs arbitrary: w) (auto simp: wp_eqs intro: wp_imp[OF attempt_wp[OF roll_record_dead]])
  assume "codes_dead w"
  then show ?thesis
    using all[of w] by (auto simp: roll_forward_committed_def wp_def ret_def fail_def split: sum.split chain_error.split)
qed

lemma recard_one_dead: "codes_dead w \<Longrightarrow> rr_state r = Waiting \<Longrightarrow> codes_dead (recard_one now rid r w)"
  unfolding recard_one_def Let_def case_prod_unfold
  by (rule codes_dead_put) (auto simp: codes_dead_def list_resets_def dead_code_def)

lemma recard_dead:
  assumes "codes_dead w"
  shows "wp (recard_all now rid rs) (\<lambda>_. codes_dead) codes_dead w"
  using assms
proof (induction rs arbitrary: w)
  case (Cons r rs)
  show ?case
    unfolding recard_all.simps wp_eqs
    apply (auto simp: Cons)
    apply (rule quiet_wpI[OF still_open quiet_refl])
     apply (auto intro: Cons recard_one_dead codes_dead_quiet[OF Cons.prems])
    done
qed (simp add: wp_eqs)

text \<open>C37: a restart takes every reset code with it. In every run, after the start of the process nothing can be
  redeemed with a code and no registration belongs to a reset's challenge, whatever code or challenge is tried,
  until the host arms a reset again.\<close>

theorem restart_drops_codes:
  assumes "plane_reaches cl fl t w" and "u = perform cl fl now (RestartPlane key rid) w"
  shows "(\<forall>x \<in> set (list_resets u). \<not> code_live now' x \<and> \<not> challenge_held x)
    \<and> fst (redeem_reset_code now' given token u) \<noteq> Inr (Some c)
    \<and> fst (reset_for_challenge now' challenge u) = Inr None"
proof -
  have "keyed w" using reaches_inv[OF assms(1)] by (simp add: plane_inv_def)
  then have "keyed (w\<lparr>ho_code_key := key\<rparr>)" by (rule keyed_quiet) simp
  note clear = cleared_dead[OF this]
  have "wp (start_plane cl fl now key rid) (\<lambda>_. codes_dead) codes_dead w"
    unfolding start_plane_def recard_open_resets_def wp_eqs
    by (rule wp_imp[OF roll_forward_dead[OF clear]]) (auto intro: recard_dead)
  then have none: "\<not> code_live now' x" "\<not> challenge_held x" if "x \<in> set (list_resets u)" for x now'
    using that assms(2) by (auto simp: wp_after codes_dead_def dead_code_def code_live_def challenge_held_def)
  have "filter (code_live now') (list_resets u) = []" "filter challenge_held (list_resets u) = []"
    using none by (simp_all add: filter_empty_conv)
  then have "fst (redeem_reset_code now' given token u) \<noteq> Inr (Some c)" "fst (reset_for_challenge now' challenge u) = Inr None"
    by (auto simp: redeem_reset_code_def armed_reset_for_code_def reset_for_challenge_def mac_def seq_def step_defs split: sum.splits)
  then show ?thesis using none by blast
qed

lemma distinct_acts:
  assumes "keyed w"
  shows "distinct (map ar_id (list_acts w))"
proof -
  have "subseq (map ar_id (acts_of xs)) (map row_id xs)" for xs by (induction xs rule: acts_of.induct) auto
  moreover have "\<forall>p \<in> set (ho_records w). row_id (snd p) = fst p" using assms by (auto simp: keyed_def dict_get_iff)
  then have "map row_id (dict_values (ho_records w)) = dict_keys (ho_records w)" by (simp add: comp_def)
  then have "distinct (map row_id (dict_values (ho_records w)))" using assms by (simp only: keyed_def dict_wf_def)
  ultimately show ?thesis unfolding list_acts_def by (metis list.map_id subseq_distinct)
qed

text \<open>C38: the bytes the factors sign open one act. In every run no two stored acts carry the same message,
  so a phone's answer is over one act's draft and no other's.\<close>

theorem act_messages_apart:
  assumes "plane_reaches cl fl t w"
  shows "distinct (map ar_message (list_acts w))"
proof -
  have inv: "keyed w" "acts_apart w" using reaches_inv[OF assms] by (simp_all add: plane_inv_def)
  have "distinct (list_acts w)" using distinct_acts[OF inv(1)] distinct_map by blast
  moreover have "inj_on ar_message (set (list_acts w))" using inv(2) by (auto simp: acts_apart_def inj_on_def)
  ultimately show ?thesis by (simp add: distinct_map)
qed

section \<open>Witnesses\<close>

lemma sample_record: "sample_at w r \<Longrightarrow> get_reset ''r1'' w = Some r \<and> list_resets w = [r]"
  by (simp add: sample_at_def get_reset_def list_resets_def)

theorem reset_waits_window_witness:
  "\<exists>w r. plane_reaches sample_lib id 259202 w \<and> get_reset ''r1'' w = Some r \<and> rr_state r = Registered
     \<and> rr_created r + ho_window w - 60 \<le> 259202"
proof (rule sample_plane_run[of id])
  fix r w1 w2 w4
  assume r: "sample_waiting r" and a: "sample_at w4 (sample_registered r)" and p: "plane_reaches sample_lib id 0 w1"
    and l: "plane_later sample_lib id 0 w1 259200 w2" "plane_later sample_lib id 259200 w2 259202 w4"
  have reach: "plane_reaches sample_lib id 259202 w4" using reaches_later[OF reaches_later[OF p l(1)] l(2)] .
  have st: "rr_state (sample_registered r) = Registered" by (rule sample_registered_fields(2)[OF r])
  show ?thesis
    using reset_waits_window[OF reach, of "''r1''"] sample_record[OF a] reach st by force
qed

theorem one_open_reset_witness:
  "\<exists>w r. plane_reaches sample_lib id 0 w \<and> list_resets w = [r] \<and> rr_state r \<in> open_states
     \<and> length (filter (\<lambda>r. rr_state r \<in> open_states \<and> \<not> reset_expired 0 r) (list_resets w)) \<le> 1"
proof (rule sample_plane_run[of id])
  fix r w1
  assume r: "sample_waiting r" and a: "sample_at w1 r" and p: "plane_reaches sample_lib id 0 w1"
  have "rr_state r \<in> open_states" using r by (auto simp: sample_waiting_def waiting_reset_def open_states_def)
  then show ?thesis using one_open_reset[OF p] sample_record[OF a] p by blast
qed

theorem final_reset_stays_witness:
  "\<exists>w e v. plane_reaches sample_lib id 259210 w \<and> owner_reset_complete sample_lib id 259300 ''r1'' owner_sig w = (Inl e, v)"
proof (rule sample_plane_run[of id])
  fix r w1 w2 w4 w5
  assume r: "sample_waiting r" and a: "get_reset ''r1'' w5 = Some (seat_done ''primary'' (sample_registered r))"
    and p: "plane_reaches sample_lib id 0 w1" and l: "plane_later sample_lib id 0 w1 259200 w2"
      "plane_later sample_lib id 259200 w2 259202 w4" "plane_later sample_lib id 259202 w4 259210 w5"
  have reach: "plane_reaches sample_lib id 259210 w5" using reaches_later[OF reaches_later[OF reaches_later[OF p l(1)] l(2)] l(3)] .
  have "rr_state (seat_done ''primary'' (sample_registered r)) \<in> {Completed, Cancelled, Aborted}" using sample_completed[OF r] by simp
  then show ?thesis using final_reset_stays[OF reach a _ plane_later.Here, of 259300 owner_sig] reach by blast
qed

theorem arm_leg_spent_once_witness:
  "\<exists>w e. plane_reaches sample_lib id 259200 w \<and> owner_reset_arm sample_lib id 260000 7 (PDict sample_leg) owner_sig w = (Inl e, w)"
proof (rule sample_plane_run[of id])
  fix w1 w2 arm_out
  assume p: "plane_reaches sample_lib id 0 w1" and l: "plane_later sample_lib id 0 w1 259200 w2"
    and s: "owner_reset_arm sample_lib id 259200 42 (PDict sample_leg) owner_sig w1 = (Inr arm_out, w2)"
  have "\<exists>e. owner_reset_arm sample_lib id 260000 7 (PDict sample_leg) owner_sig w2 = (Inl e, w2)"
    by (rule arm_leg_spent_once[OF p _ s plane_later.Here]) simp_all
  then show ?thesis using reaches_later[OF p l] by blast
qed

theorem completion_waited_witness:
  "\<exists>w r ref w'. owner_reset_complete sample_lib id 259210 ''r1'' owner_sig w = (Inr (Some ''primary'', ref), w')
     \<and> get_reset ''r1'' w = Some r \<and> rr_created r + ho_window w - 60 \<le> 259210"
proof (rule sample_plane_run[of id])
  fix w1 w2 w4 w5 ref
  assume p: "plane_reaches sample_lib id 0 w1" and l: "plane_later sample_lib id 0 w1 259200 w2" "plane_later sample_lib id 259200 w2 259202 w4"
    and s: "owner_reset_complete sample_lib id 259210 ''r1'' owner_sig w4 = (Inr (Some ''primary'', ref), w5)"
  have reach: "plane_reaches sample_lib id 259202 w4" using reaches_later[OF reaches_later[OF p l(1)] l(2)] .
  show ?thesis using completion_waited[OF reach _ s] s by fastforce
qed

theorem restart_drops_codes_witness:
  "\<exists>w r. plane_reaches sample_lib id 259200 w \<and> get_reset ''r1'' w = Some r \<and> code_live 259201 r
     \<and> fst (redeem_reset_code 259202 (code_text 42) ''t'' (perform sample_lib id 259201 (RestartPlane [2] (\<lambda>_ _. ''c'')) w))
         \<noteq> Inr (Some (sample_challenge, 259502))"
proof (rule sample_plane_run[of id])
  fix r w1 w2
  assume p: "plane_reaches sample_lib id 0 w1" and l: "plane_later sample_lib id 0 w1 259200 w2"
    and r: "sample_waiting r" and a: "sample_at w2 (sample_armed r)"
  have "code_live 259201 (sample_armed r)"
    using sample_macs by (simp add: code_live_def sample_armed_def armed_reset_def)
  then show ?thesis using restart_drops_codes[OF reaches_later[OF p l] refl] reaches_later[OF p l] sample_record[OF a] by blast
qed

theorem act_messages_apart_witness:
  "\<exists>w a. plane_reaches sample_lib id 0 w \<and> dict_get (ho_records w) ''act-t1'' = Some (ActRow a) \<and> distinct (map ar_message (list_acts w))"
proof -
  obtain w out a where s: "top_plane_open sample_lib id 0 ''t1'' (\<lambda>_. ''c'') (PDict (draft_as_wire rotation_draft)) owner_sig sample_host
      = (Inr out, w)" and a: "dict_get (ho_records w) ''act-t1'' = Some (ActRow a)" using sample_open by blast
  have recs: "ho_records sample_host = []" by (simp add: sample_host_def)
  then have "fresh_draw (OpenAct ''t1'' (\<lambda>_. ''c'') (PDict (draft_as_wire rotation_draft)) owner_sig) sample_host" by simp
  then have "plane_later sample_lib id 0 sample_host 0 w"
    by (rule later_call[rotated 2]) (simp_all add: s)
  then have "plane_reaches sample_lib id 0 w" unfolding plane_reaches_def using recs by blast
  then show ?thesis using act_messages_apart a by blast
qed

end
