(* ===== verification/PlaneCrash.thy ===== *)
theory PlaneCrash
  imports PlaneProps
begin

text \<open>
  A crash between the append of a reset's entry and the registry. Whatever write of the append is the last
  one on disk, the next start either finds no entry and leaves the reset as it was, or finds it and reaches
  the records and the registry of the completion that was cut off.
\<close>

section \<open>Finding the appended entry\<close>

lemma find_reset_append: "find_reset_entry fl r want c rs = Inr False \<Longrightarrow>
    find_reset_entry fl r want c (rs @ [x]) = find_reset_entry fl r want c [x]"
proof (induction rs)
  case (Cons y rs)
  then show ?case
    by (cases y) (auto simp: Let_def split: if_splits sum.splits json_error.splits)
qed simp

lemma plain_get: "json_plain (PDict d) \<Longrightarrow> json_plain (get d k)"
proof -
  have "plain_items d \<Longrightarrow> dict_get d k = Some v \<Longrightarrow> json_plain v" for v
    by (induction d) (auto split: if_splits)
  then show "json_plain (PDict d) \<Longrightarrow> json_plain (get d k)" by (auto simp: get_def split: option.split)
qed

lemma reset_meta_reads:
  assumes "json_plain (PDict (it_raw (rr_intent r)))" "names_itself (rr_intent r)" "rr_slot r = Some slot"
  shows "\<exists>m. json_loads fl (reset_meta r slot c) = Inr (PDict m) \<and> names_reset r c m"
proof -
  let ?d = "it_raw (rr_intent r)"
  let ?m = "[(''intent_id'', get ?d ''intent_id''), (''slot'', PStr slot), (''lost'', get ?d ''lost''),
    (''not_before'', get ?d ''not_before''), (''challenge'', PStr c)]"
  have "json_plain (PDict ?m)" using plain_get[OF assms(1)] by simp
  then have "json_loads fl (reset_meta r slot c) = Inr (norm_json (PDict ?m))"
    using json_loads_dumps[of "PDict ?m" fl] by (simp add: reset_meta_def canonical_meta_def Let_def del: json_dumps.simps norm_json.simps)
  moreover have "names_reset r c (the_dict (norm_json (PDict ?m)))"
    using assms(2,3) get_norm[of ?m] by (simp add: names_reset_def names_itself_def opt_str_def get_def del: norm_json.simps)
  ultimately show ?thesis by simp
qed

lemma draft_fields:
  assumes "reset_draft cs r = Inr d"
  obtains fresh slot c raw where "rr_fresh r = Some fresh" "rr_slot r = Some slot" "rr_challenge r = Some c" "unb64u (fd_key fresh) = Inr raw"
    "dr_op d = ''reset''" "dr_value d = raw" "dr_meta d = Some (reset_meta r slot c)"
  using assms by (auto simp: reset_draft_def split: option.splits sum.splits)

lemma entry_found:
  assumes "reset_draft cs r = Inr d" "read_chain (fst (ho_files w)) = Inr rs" "reset_entry_on_chain fl r w = (Inr False, w)"
    and "read_chain (fst (ho_files u)) = Inr (rs @ [norm_json (PDict (record_of d sigs))])"
    and "json_plain (PDict (it_raw (rr_intent r)))" "names_itself (rr_intent r)" "rr_challenge r \<noteq> Some []"
  shows "reset_entry_on_chain fl r u = (Inr True, u)"
proof -
  obtain fresh slot c raw where f: "rr_fresh r = Some fresh" "rr_slot r = Some slot" "rr_challenge r = Some c"
    "unb64u (fd_key fresh) = Inr raw" "dr_op d = ''reset''" "dr_value d = raw" "dr_meta d = Some (reset_meta r slot c)"
    by (rule draft_fields[OF assms(1)])
  have c: "c \<noteq> []" using f(3) assms(7) by simp
  have none: "find_reset_entry fl r (hexlify raw) c rs = Inr False"
    using assms(3) f c by (simp add: reset_entry_on_chain_def read_chain_or_refuse_def assms(2) seq_def step_defs)
  let ?rec = "record_of d sigs"
  have dist: "distinct (map fst ?rec)" by (simp add: record_of_def opt_field_def f)
  have gets: "get ?rec ''op'' = PStr ''reset''" "get ?rec ''pubkey'' = PStr (hexlify raw)" "get ?rec ''meta'' = PStr (reset_meta r slot c)"
    by (simp_all add: record_of_def opt_field_def f get_def)
  obtain m where m: "json_loads fl (reset_meta r slot c) = Inr (PDict m)" "names_reset r c m"
    using reset_meta_reads[OF assms(5,6) f(2)] by blast
  obtain d' where d': "norm_json (PDict ?rec) = PDict d'" by simp
  have "get d' k = norm_json (get ?rec k)" for k using get_norm[OF dist, of k] d' by simp
  then have "find_reset_entry fl r (hexlify raw) c [norm_json (PDict ?rec)] = Inr True"
    unfolding d' using m gets by (cases "reset_meta r slot c") (simp_all add: Let_def)
  then show ?thesis
    using find_reset_append[OF none] f c
    by (simp add: reset_entry_on_chain_def read_chain_or_refuse_def assms(4) seq_def step_defs del: norm_json.simps)
qed

section \<open>The completion that was cut off\<close>

lemma finish_known:
  assumes "rr_fresh r = Some fresh" "rr_slot r = Some slot"
  shows "finish_reset_seat cl fl now r (Some new) t = (let (ref, st) = seat_fresh now (Some new) r fresh slot (ho_store t)
    in (Inr ref, put_reset (seat_done slot r) (t\<lparr>ho_store := st\<rparr>)))"
  by (simp add: finish_reset_seat_def assms seq_def step_defs case_prod_unfold Let_def)

lemma finish_read: "genesis_chain_state cl fl (ho_files t) = Inr (Some new) \<Longrightarrow>
    finish_reset_seat cl fl now r None t = finish_reset_seat cl fl now r (Some new) t"
  by (simp add: finish_reset_seat_def seq_def step_defs current_chain_def split: option.split)

definition purged :: "int \<Rightarrow> reset_record \<Rightarrow> host \<Rightarrow> host" where
  "purged now r w = w\<lparr>ho_store := snd (is_revoked now (reset_jti r) (ho_store w))\<rparr>"

lemma open_reset_state:
  assumes "rr_state r = Registered" "get_reset iid w = Some r"
  shows "wp (open_reset now iid {Registered}) (\<lambda>x t. x = r \<and> t = purged now r w) (\<lambda>_. True) w"
proof -
  have "wp (revoked_now now (reset_jti r)) (\<lambda>_ t. t = purged now r w) (\<lambda>_. True) w"
    by (simp add: revoked_now_def wp_def purged_def split: prod.split)
  note rv = this
  show ?thesis
    unfolding open_reset_def wp_eqs assms(2) option.case using assms(1) by (auto simp: wp_eqs intro!: wp_imp[OF rv])
qed

lemma complete_chain_state:
  assumes "rr_state r = Registered" "get_reset iid w = Some r" "reset_entry_on_chain fl r w = (Inr False, w)"
  shows "wp (complete_chain cl fl now iid psig) (\<lambda>(x, post) t. x = r \<and> (\<exists>cs d message sigs writes new.
     reset_draft cs r = Inr d \<and> draft_message cs d = Inr message \<and> verify_passphrase cl cs message psig
     \<and> append_genesis_chain_entry cl fl now (record_of d sigs) (ho_files w) = Inr (writes, new) \<and> post = Some new
     \<and> t = purged now r w\<lparr>ho_files := last writes\<rparr>)) (\<lambda>_. True) w"
proof -
  have files: "ho_files (purged now r w) = ho_files w" by (simp add: purged_def)
  have chain: "wp (plane_chain cl fl False) (\<lambda>_ t. t = w) (\<lambda>_. True) w"
    by (auto simp: plane_chain_def wp_def split: sum.split)
  have entry: "wp (reset_entry_on_chain fl r) (\<lambda>b t. t = w \<and> \<not> b) (\<lambda>_. True) w" by (simp add: wp_def assms(3))
  have app: "wp (append_reset cl fl now iid psig cs) (\<lambda>(x, post) t. x = r \<and> (\<exists>cs d message sigs writes new.
     reset_draft cs r = Inr d \<and> draft_message cs d = Inr message \<and> verify_passphrase cl cs message psig
     \<and> append_genesis_chain_entry cl fl now (record_of d sigs) (ho_files w) = Inr (writes, new) \<and> post = Some new
     \<and> t = purged now r w\<lparr>ho_files := last writes\<rparr>)) (\<lambda>_. True) w" for cs
    unfolding append_reset_def wp_eqs
    apply (rule wp_imp[OF open_reset_state[OF assms(1,2)]])
     apply (auto split: sum.split)
    apply (rule wp_imp[OF try_append_wp])
     apply (auto simp: files) 
    apply (blast intro: refl)
    done
  show ?thesis
    unfolding complete_chain_def wp_eqs
    apply (rule wp_imp[OF chain])
     apply (auto simp: assms(1,2) wp_eqs)
    apply (rule wp_imp[OF entry])
     apply auto
    apply (rule wp_imp[OF app])
     apply auto
    done
qed

lemma roll_forward_finishes:
  assumes "rr_state r = Registered" "reset_entry_on_chain fl r u = (Inr True, u)" "genesis_chain_state cl fl (ho_files u) = Inr (Some new)"
    and "rr_fresh r = Some fresh" "rr_slot r = Some slot"
  shows "roll_forward_record cl fl now (ResetRow r) u
    = (Inr (), snd (finish_reset_seat cl fl now r (Some new) u))"
  using assms finish_read[OF assms(3)] finish_known[OF assms(4,5)]
  by (simp add: seq_def step_defs Let_def case_prod_unfold)

lemma seat_files: "rr_fresh r = Some fresh \<Longrightarrow> rr_slot r = Some slot \<Longrightarrow>
    snd (finish_reset_seat cl fl now r (Some new) (w\<lparr>ho_files := f\<rparr>))
      = snd (finish_reset_seat cl fl now r (Some new) (w\<lparr>ho_files := g\<rparr>))\<lparr>ho_files := f\<rparr>"
  by (simp add: finish_known Let_def case_prod_unfold put_reset_def)

lemma seq_Inr: "seq m f s = (Inr y, t) \<longleftrightarrow> (\<exists>x u. m s = (Inr x, u) \<and> f x u = (Inr y, t))"
  by (auto simp: seq_def split: prod.splits sum.splits)

lemma entry_same_chain:
  assumes "read_chain (fst (ho_files u)) = read_chain (fst (ho_files w))"
  shows "reset_entry_on_chain fl r u = (fst (reset_entry_on_chain fl r w), u)"
  using assms by (auto simp: reset_entry_on_chain_def read_chain_or_refuse_def seq_def step_defs
      split: option.split sum.split chain_error.split)

lemma append_views:
  assumes "append_genesis_chain_entry cl fl now record (b, k) = Inr (writes, new)"
    and "canonical_blob b" and "canonical_blob k" and "plain_record record"
  obtains rs where "read_chain b = Inr rs" "writes \<noteq> []"
    "\<forall>f \<in> set writes. read_chain (fst f) = Inr rs \<and> f \<noteq> last writes
       \<or> read_chain (fst f) = Inr (rs @ [norm_json (PDict record)]) \<and> genesis_chain_state cl fl f = Inr (Some new)"
proof -
  obtain old rs where v: "read_chain b = Inr rs"
    "map (genesis_chain_state cl fl) writes = (if sealed_id new = None then [Inr (Some new)] else [Inr old, Inr (Some new), Inr (Some new)])"
    "map (\<lambda>f. read_chain (fst f)) writes = (let after = rs @ [norm_json (PDict record)] in
      (if sealed_id new = None then [Inr after] else [Inr rs, Inr after, Inr after]))"
    using append_writes[OF assms] by blast
  show thesis
  proof (rule that[OF v(1)])
    show "writes \<noteq> []" using v(2) by (cases writes) (simp_all split: if_splits)
    show "\<forall>f \<in> set writes. read_chain (fst f) = Inr rs \<and> f \<noteq> last writes
       \<or> read_chain (fst f) = Inr (rs @ [norm_json (PDict record)]) \<and> genesis_chain_state cl fl f = Inr (Some new)"
      using v(2,3) by (auto simp: Let_def map_eq_Cons_conv simp del: norm_json.simps split: if_splits)
  qed
qed



end
