(* ===== verification/PlaneIds.thy ===== *)
theory PlaneIds
  imports TopActs
begin

text \<open>
  Two names that are computed, not told: the bootloader's id, which is a hash of a set of keys, and a phone's
  key, which has one spelling.
\<close>

section \<open>The key set behind an id\<close>

lemma framed_unique:
  assumes "length a < 2 ^ 32" "length b < 2 ^ 32" "framed_key a @ x = framed_key b @ y"
  shows "a = b \<and> x = y"
proof -
  have "to_bytes_fixed 4 (length a) @ (a @ x) = to_bytes_fixed 4 (length b) @ (b @ y)"
    using assms(3) by (simp add: framed_key_def)
  then have len: "to_bytes_fixed 4 (length a) = to_bytes_fixed 4 (length b)" and rest: "a @ x = b @ y"
    by (simp_all add: append_eq_append_conv)
  have "(256 :: nat) ^ 4 = 2 ^ 32" by simp
  then have "length a = length b" using len to_bytes_fixed_inj[of "length a" 4 "length b"] assms(1,2) by simp
  then show ?thesis using rest by simp
qed

lemma framed_list_unique:
  assumes "\<forall>k \<in> set ks. length k < 2 ^ 32" "\<forall>k \<in> set js. length k < 2 ^ 32"
    and "concat (map framed_key ks) = concat (map framed_key js)"
  shows "ks = js"
  using assms
proof (induction ks arbitrary: js)
  case Nil
  then show ?case by (cases js) (auto simp: framed_key_def dest: arg_cong[where f = length])
next
  case (Cons k ks)
  then obtain j js' where js: "js = j # js'" by (cases js) (auto simp: framed_key_def dest: arg_cong[where f = length])
  then show ?case using Cons framed_unique[of k j] by auto
qed

lemma take_hexlify: "take (2 * n) (hexlify bs) = hexlify (take n bs)"
proof (induction n arbitrary: bs)
  case (Suc n)
  then show ?case by (cases bs) (simp_all add: hexlify_def)
qed simp


section \<open>One key, one spelling\<close>

lemma key_letter_b64: "v < 64 \<Longrightarrow> key_letter (b64_char v)"
  by (cases "v < 52"; cases "v < 62")
    (auto simp: key_letter_def ascii_upper_def ascii_lower_def ascii_digit_def code_b64_char b64_char_def)

lemma b64_key_letters: "list_all key_letter (b64_encode raw)"
proof (induction raw rule: b64_encode.induct)
  case (4 a b c bs)
  have "nat_of a < 256" "nat_of b < 256" "nat_of c < 256" by (rule nat_of_less)+
  then show ?case using 4 by (auto intro!: key_letter_b64)
qed (auto intro!: key_letter_b64 simp: nat_of_less less_mult_imp_div_less)

text \<open>C40: a key is registered in one spelling. For a supported algorithm a key text is accepted exactly when
  it is the unpadded URL-safe base64 of that algorithm's number of bytes, and it is kept as it is: two accepted
  texts of the same bytes are the same text.\<close>

theorem canonical_key_exact:
  "(require_canonical_key v ''ed25519'' = Inr key \<longleftrightarrow> v = PStr key \<and> (\<exists>raw. length raw = 32 \<and> key = b64_encode raw))
  \<and> (require_canonical_key v ''ecdsa-p256'' = Inr key \<longleftrightarrow> v = PStr key \<and> (\<exists>raw. length raw = 64 \<and> key = b64_encode raw))"
proof -
  have "require_canonical_key v algorithm = Inr key \<longleftrightarrow> v = PStr key \<and> (\<exists>raw. length raw = n \<and> key = b64_encode raw)"
    if n: "dict_get raw_key_bytes algorithm = Some n" "0 < n" for algorithm n
  proof -
    have "b64_encode raw \<noteq> []" if "raw \<noteq> []" for raw
      using that by (cases raw rule: b64_encode.cases) auto
    then show ?thesis
      unfolding canonical_key_iff[of v] canonical_key_PStr using n b64_key_letters by fastforce
  qed
  from this[of "''ed25519''" 32] this[of "''ecdsa-p256''" 64]
  show ?thesis by (simp add: raw_key_bytes_def)
qed

section \<open>A witness\<close>


end
