(* ===== verification/Spec2Isabelle.thy ===== *)
theory Spec2Isabelle
  imports Quorum Jwt PairRecord GrantRecord GrantRequests ActRecord PlaneCrash PlaneIds
begin

text \<open>
  Recto keeps the credentials of services on one machine and lets a phone authorise each act on
  them. A bootloader process holds the stores; the phone signs grants; consumers present them. This
  library models the parts of \<^verbatim>\<open>src/recto/\<close> that decide: who may act, on what, until when, and what
  the stores hold afterwards.

  \<^bold>\<open>Foundations.\<close> \<open>Prelude\<close> has the dictionary (an association list in insertion order), error sums
  (\<open>Inl\<close> an exception, \<open>Inr\<close> a result, \<open>bind_err\<close>) and lemma collections. \<open>PyStr\<close> models texts as
  lists of characters, code points 0 to 255 only: strip, lower, digits, \<open>int\<close> of a text (at most
  4300 digits, as CPython), and the patterns of \<open>re\<close> with their \<open>$\<close> before a final line feed. \<open>Values\<close>
  has the values JSON can give (\<open>pyval\<close>) with Python's truth and equality. \<open>Codec\<close> has UTF-8, hex and
  both base64 alphabets, \<open>Json\<close> the encoder and decoder of \<open>json\<close> with a fuel of twice the length plus
  one, which \<open>p_val_fuel\<close> shows is enough for every text the encoder writes; the
  reading of a float is a parameter. \<open>Sha256\<close> is the hash on words of 32 bits. \<open>Loading\<close> has the file
  (\<open>blob\<close>: absent, unreadable, no UTF-8, no JSON, or a value), the row loader the sidecars share and
  the locale \<open>keyed_store\<close>. \<open>Records\<close> has canonical JSON and the locale \<open>canonical_record\<close>: a record
  whose canonical bytes determine it, so a fingerprint binds it up to an explicit SHA-256 collision.

  \<^bold>\<open>Capabilities.\<close> \<open>Quorum\<close>: \<^verbatim>\<open>quorum.py\<close>, verifiers as parameters that may raise. \<open>Capability\<close>:
  \<^verbatim>\<open>capability/types.py\<close> and \<^verbatim>\<open>manifest.py\<close>, resolution of a scope to actions and the weights shown on
  a card. \<open>Jwt\<close>: \<^verbatim>\<open>capability/jwt.py\<close>, parsing, type checks, verification and minting, over the key
  recovery of \<open>Secp256k1\<close> (\<^verbatim>\<open>ethereum.py\<close>) and the profiles of \<open>Profile\<close> (\<^verbatim>\<open>profile/types.py\<close>,
  \<^verbatim>\<open>store.py\<close>, \<^verbatim>\<open>manage.py\<close>: the identity file and every operation on it). \<open>PairRecord\<close>:
  \<^verbatim>\<open>capability/pair_record.py\<close>, the record a pairing grant pins.

  \<^bold>\<open>Stores.\<close> \<open>SecretStore\<close>: \<^verbatim>\<open>secrets/base.py\<close> and \<^verbatim>\<open>file_backed.py\<close>, with the contract
  \<open>secret_source\<close> that the clients are proved against and its interpretation \<open>files\<close>. \<open>Connections\<close>:
  \<^verbatim>\<open>connections/types.py\<close>, \<^verbatim>\<open>manage.py\<close>; \<open>ActRecord\<close>: \<^verbatim>\<open>connections/act_record.py\<close>, \<^verbatim>\<open>act_set.py\<close>.
  \<open>SubjectHandle\<close>, \<open>UserVault\<close>, \<open>GrantRecord\<close>, \<open>GrantRequests\<close>: \<^verbatim>\<open>subject_handle.py\<close> and
  \<^verbatim>\<open>user_vault/\<close>. A store is the pair of its sidecar file and its secret source; every operation takes
  and returns both, with the clock reading as an argument, and a fresh random identifier as one.

  \<^bold>\<open>What the lemma groups show.\<close> Round trips of the codecs and of every file; a successful operation
  characterised by its conditions (\<open>_Inr\<close> lemmas), then preservation of the invariants over reachable
  states; admission of each kind of grant, exactly; that one signed grant binds one record; and that
  a set, an update or a deletion changes one row and at most one secret.

  \<^bold>\<open>Not modelled.\<close> The hash is assumed nothing of: collisions are explicit in the statements. Texts
  beyond code point 255 and the encodings they need, floats beyond their textual form, the operating
  system's time zone, locks (a lock makes the calls on one book a sequence, which is what the runs
  are), sockets, threads, subprocesses, databases and the phone's C# code. The manifest lists the
  parts of the repository that are left out, each with its reason.
\<close>

end
